(* ===== verification/Prelude.thy ===== *)
theory Prelude
  imports Complex_Main "HOL-Library.Word" "HOL-Library.AList" "HOL-Library.Signed_Division"
begin

unbundle bit_operations_syntax

text \<open>
  Shared vocabulary of the development: Go's byte slices and fixed-width integers,
  the big-endian accessors of \<^verbatim>\<open>encoding/binary\<close>, Go maps as association lists with
  an explicit iteration order, failures (an \<open>error\<close> value or a run-time panic) as values,
  and two small contracts (a system with an invariant, a simulation) that the
  components instantiate on their own operations.
\<close>

section \<open>Fixed-width integers and byte slices\<close>

type_synonym u8 = "8 word"
type_synonym u16 = "16 word"
type_synonym u32 = "32 word"
type_synonym u64 = "64 word"
type_synonym bytes = "8 word list"

named_theorems wire_simps \<open>facts that evaluate encoders and decoders\<close>
named_theorems amap_simps \<open>facts on Go maps\<close>

text \<open>
  What a call that may fail gives: \<open>Inl (Err e)\<close> is a returned Go error, \<open>Inl Panic\<close> a
  run-time panic (a slice bound out of range), \<open>Inr v\<close> the returned value.
\<close>

datatype 'e failure = Err 'e | Panic

subsection \<open>Big-endian access (encoding/binary)\<close>

definition put_be16 :: "u16 \<Rightarrow> bytes" where
  "put_be16 w = [ucast (drop_bit 8 w), ucast w]"

definition put_be32 :: "u32 \<Rightarrow> bytes" where
  "put_be32 w = [ucast (drop_bit 24 w), ucast (drop_bit 16 w), ucast (drop_bit 8 w), ucast w]"

fun get_be16 :: "bytes \<Rightarrow> u16" where
  "get_be16 (a # b # _) = push_bit 8 (ucast a) OR ucast b"
| "get_be16 _ = 0"

fun get_be32 :: "bytes \<Rightarrow> u32" where
  "get_be32 (a # b # c # d # _) =
     push_bit 24 (ucast a) OR push_bit 16 (ucast b) OR push_bit 8 (ucast c) OR ucast d"
| "get_be32 _ = 0"

fun get_be64 :: "bytes \<Rightarrow> u64" where
  "get_be64 (a # b # c # d # e # f # g # h # _) =
     push_bit 56 (ucast a) OR push_bit 48 (ucast b) OR push_bit 40 (ucast c) OR
     push_bit 32 (ucast d) OR push_bit 24 (ucast e) OR push_bit 16 (ucast f) OR
     push_bit 8 (ucast g) OR ucast h"
| "get_be64 _ = 0"

lemma length_put_be16 [simp]: "length (put_be16 w) = 2"
  by (simp add: put_be16_def)

lemma length_put_be32 [simp]: "length (put_be32 w) = 4"
  by (simp add: put_be32_def)

lemma get_put_be16 [simp]: "get_be16 (put_be16 w @ rest) = w"
  unfolding put_be16_def
  by (auto intro!: bit_word_eqI simp: bit_simps)

lemma get_put_be32 [simp]: "get_be32 (put_be32 w @ rest) = w"
proof (rule bit_word_eqI)
  fix n
  assume "n < LENGTH(32)"
  then consider "n < 8" | "8 \<le> n" "n < 16" | "16 \<le> n" "n < 24" | "24 \<le> n" "n < 32"
    by fastforce
  then show "bit (get_be32 (put_be32 w @ rest)) n = bit w n"
  proof cases
    case 1 then show ?thesis by (simp add: put_be32_def bit_simps)
  next
    case 2 then show ?thesis by (simp add: put_be32_def bit_simps less_diff_conv2)
  next
    case 3 then show ?thesis by (simp add: put_be32_def bit_simps less_diff_conv2)
  next
    case 4 then show ?thesis by (simp add: put_be32_def bit_simps less_diff_conv2)
  qed
qed

lemma get_be16_take [simp]: "2 \<le> n \<Longrightarrow> get_be16 (take n xs) = get_be16 xs"
  by (cases xs rule: get_be16.cases; cases n; cases "n - 1"; simp)

declare length_put_be16 [wire_simps] length_put_be32 [wire_simps]
  get_put_be16 [wire_simps] get_put_be32 [wire_simps]

lemma take_put_be16 [wire_simps]: "take 2 (put_be16 w @ rest) = put_be16 w"
  by (simp add: put_be16_def)

lemma drop_put_be16 [wire_simps]: "drop 2 (put_be16 w @ rest) = rest"
  by (simp add: put_be16_def)

lemma drop_put_be32 [wire_simps]: "drop 4 (put_be32 w @ rest) = rest"
  by (simp add: put_be32_def)

lemma unat_of_nat_small [wire_simps]:
  "n < 2 ^ LENGTH('a) \<Longrightarrow> unat (of_nat n :: 'a::len word) = n"
  by (simp add: unat_of_nat take_bit_nat_eq_self)

subsection \<open>Lists of big-endian words\<close>

text \<open>\<open>n\<close> consecutive big-endian 32-bit words from the front of a slice.\<close>

fun get_be32s :: "nat \<Rightarrow> bytes \<Rightarrow> u32 list" where
  "get_be32s 0 bs = []"
| "get_be32s (Suc n) bs = get_be32 bs # get_be32s n (drop 4 bs)"

lemma length_concat_put_be32 [wire_simps]:
  "length (concat (map put_be32 ws)) = 4 * length ws"
  by (induction ws) simp_all

lemma get_be32s_concat [wire_simps]:
  "get_be32s (length ws) (concat (map put_be32 ws) @ rest) = ws"
  by (induction ws) (simp_all add: drop_put_be32)

subsection \<open>Strings as bytes\<close>

text \<open>Go's conversions \<^verbatim>\<open>[]byte(s)\<close> and \<^verbatim>\<open>string(b)\<close>: a Go string is its bytes.\<close>

definition bytes_of_string :: "string \<Rightarrow> bytes" where
  "bytes_of_string s = map (\<lambda>c. of_nat (of_char c)) s"

definition string_of_bytes :: "bytes \<Rightarrow> string" where
  "string_of_bytes bs = map (\<lambda>b. char_of (unat b)) bs"

lemma length_bytes_of_string [simp]: "length (bytes_of_string s) = length s"
  by (simp add: bytes_of_string_def)

lemma string_bytes_string [simp]: "string_of_bytes (bytes_of_string s) = s"
proof -
  have "unat (of_nat (of_char c) :: u8) = of_char c" for c :: char
  proof -
    have "(of_char c :: nat) < 256"
      using nat_of_char_less_256 [of c] by simp
    then show ?thesis by (simp add: unat_of_nat_small)
  qed
  then show ?thesis
    by (simp add: bytes_of_string_def string_of_bytes_def comp_def)
qed

lemma bytes_of_string_append [simp]:
  "bytes_of_string (s @ t) = bytes_of_string s @ bytes_of_string t"
  by (simp add: bytes_of_string_def)

lemma string_of_bytes_append [simp]:
  "string_of_bytes (b @ c) = string_of_bytes b @ string_of_bytes c"
  by (simp add: string_of_bytes_def)

text \<open>\<^verbatim>\<open>strings.HasPrefix\<close>.\<close>

definition HasPrefix :: "string \<Rightarrow> string \<Rightarrow> bool" where
  "HasPrefix s p \<longleftrightarrow> take (length p) s = p"

text \<open>\<^verbatim>\<open>time.Second\<close> in nanoseconds.\<close>

definition second :: int where
  "second = 1000000000"

text \<open>\<^verbatim>\<open>math/rand\<close>: a number from zero to below the bound.\<close>

definition rand_ok :: "(int \<Rightarrow> int) \<Rightarrow> bool" where
  "rand_ok rnd \<longleftrightarrow> (\<forall>n>0. 0 \<le> rnd n \<and> rnd n < n)"

text \<open>The built-in \<^verbatim>\<open>copy(dst, src)\<close>: \<open>dst\<close> afterwards.\<close>

definition go_copy :: "'a list \<Rightarrow> 'a list \<Rightarrow> 'a list" where
  "go_copy dst src = take (length dst) src @ drop (length src) dst"

lemma length_go_copy [simp]: "length (go_copy dst src) = length dst"
  by (simp add: go_copy_def min_def)

subsection \<open>Floating point and durations\<close>

text \<open>
  A float64 is a rational number, and every float64 operation rounds its exact result with a
  function \<open>fl\<close> that the definitions take as an argument (infinities and NaNs do not occur:
  no divisor is zero). What the theorems use of it is what IEEE 754 guarantees of every
  rounding mode: it is monotone, and exact on the integers up to \<open>2 ^ 53\<close>. A
  \<^verbatim>\<open>time.Duration\<close> and a clock reading are nanoseconds; Go's division truncates.
\<close>

definition float_rounding :: "(rat \<Rightarrow> rat) \<Rightarrow> bool" where
  "float_rounding fl \<longleftrightarrow> mono fl \<and> (\<forall>n::int. \<bar>n\<bar> \<le> 2 ^ 53 \<longrightarrow> fl (of_int n) = of_int n)"

lemma float_rounding_id [simp]: "float_rounding (\<lambda>r. r)"
  by (simp add: float_rounding_def mono_def)

lemma fl_mono: "float_rounding fl \<Longrightarrow> a \<le> b \<Longrightarrow> fl a \<le> fl b"
  by (simp add: float_rounding_def mono_def)

lemma fl_int: "float_rounding fl \<Longrightarrow> \<bar>n\<bar> \<le> 2 ^ 53 \<Longrightarrow> fl (of_int n) = of_int n"
  by (simp add: float_rounding_def)

lemma fl_0 [simp]: "float_rounding fl \<Longrightarrow> fl 0 = 0"
  using fl_int [of fl 0] by simp

lemma fl_1 [simp]: "float_rounding fl \<Longrightarrow> fl 1 = 1"
  using fl_int [of fl 1] by simp

lemma fl_nonneg: "float_rounding fl \<Longrightarrow> 0 \<le> a \<Longrightarrow> 0 \<le> fl a"
  using fl_mono [of fl 0 a] by simp

text \<open>\<^verbatim>\<open>Duration.Seconds()\<close>.\<close>

definition Seconds :: "(rat \<Rightarrow> rat) \<Rightarrow> int \<Rightarrow> rat" where
  "Seconds fl d = fl (fl (of_int (d sdiv 1000000000))
      + fl (fl (of_int (d smod 1000000000)) / 1000000000))"

lemma sdiv_nonneg: "0 \<le> a \<Longrightarrow> 0 < b \<Longrightarrow> a sdiv b = a div (b::int)"
  by (simp add: signed_divide_int_def sgn_if)

lemma smod_nonneg: "0 \<le> a \<Longrightarrow> 0 < b \<Longrightarrow> a smod b = a mod (b::int)"
  by (cases "a = 0") (simp_all add: signed_modulo_int_def)

lemma Seconds_nonneg:
  assumes "float_rounding fl" and "0 \<le> d"
  shows "0 \<le> Seconds fl d"
  unfolding Seconds_def
  by (intro fl_nonneg [OF assms(1)] add_nonneg_nonneg divide_nonneg_nonneg)
     (simp_all add: sdiv_nonneg smod_nonneg assms(2) pos_imp_zdiv_nonneg_iff)

lemma Seconds_exact: "0 \<le> d \<Longrightarrow> Seconds (\<lambda>r. r) d = of_int d / 1000000000"
proof -
  assume "0 \<le> d"
  have "d = (d div 1000000000) * 1000000000 + d mod 1000000000" by simp
  then have "(of_int d :: rat) = of_int (d div 1000000000) * 1000000000 + of_int (d mod 1000000000)"
    by (metis of_int_add of_int_mult of_int_numeral)
  with \<open>0 \<le> d\<close> show ?thesis by (simp add: Seconds_def sdiv_nonneg smod_nonneg field_simps)
qed

text \<open>\<^verbatim>\<open>int(f)\<close> truncates (the programs convert only what an int holds).\<close>

definition go_int :: "rat \<Rightarrow> int" where
  "go_int r = (if r < 0 then \<lceil>r\<rceil> else \<lfloor>r\<rfloor>)"

lemma go_int_of_int [simp]: "go_int (of_int n) = n"
  by (simp add: go_int_def)

subsection \<open>Loops that may panic\<close>

fun fold_opt :: "('a \<Rightarrow> 's \<Rightarrow> 's option) \<Rightarrow> 'a list \<Rightarrow> 's \<Rightarrow> 's option" where
  "fold_opt f [] s = Some s"
| "fold_opt f (a # as) s = (case f a s of None \<Rightarrow> None | Some t \<Rightarrow> fold_opt f as t)"

lemma fold_opt_inv:
  assumes "I s" and "fold_opt f as s = Some t"
    and step: "\<And>a u v. a \<in> set as \<Longrightarrow> I u \<Longrightarrow> f a u = Some v \<Longrightarrow> I v"
  shows "I t"
  using assms
proof (induction as arbitrary: s)
  case (Cons a as)
  then obtain u where u: "f a s = Some u" "fold_opt f as u = Some t"
    by (auto split: option.splits)
  show ?case
    by (rule Cons.IH [OF _ u(2)]) (use Cons.prems u(1) in auto)
qed simp

lemma fold_opt_total:
  assumes "I s" and step: "\<And>a u. a \<in> set as \<Longrightarrow> I u \<Longrightarrow> \<exists>v. f a u = Some v \<and> I v"
  shows "\<exists>t. fold_opt f as s = Some t \<and> I t"
  using assms
proof (induction as arbitrary: s)
  case (Cons a as)
  then obtain u where "f a s = Some u" "I u" by (metis list.set_intros(1))
  moreover have "\<exists>t. fold_opt f as u = Some t \<and> I t"
    by (rule Cons.IH [OF \<open>I u\<close>]) (use Cons.prems(2) in auto)
  ultimately show ?case by simp
qed simp

lemma foldl_inv:
  assumes "I s" and "\<And>a u. a \<in> set as \<Longrightarrow> I u \<Longrightarrow> I (f u a)"
  shows "I (foldl f s as)"
  using assms by (induction as arbitrary: s) simp_all

section \<open>Go maps\<close>

text \<open>
  A Go map is an association list with distinct keys: lookup is \<open>map_of\<close>, assignment
  \<open>AList.update\<close>, \<^verbatim>\<open>delete\<close> is \<open>AList.delete\<close>, \<^verbatim>\<open>len\<close> the length. A \<^verbatim>\<open>range\<close> loop
  visits the keys in an order the runtime chooses anew each time: the model takes that
  order as an argument, a list of the keys in which each occurs once.
\<close>

type_synonym ('k, 'v) gomap = "('k \<times> 'v) list"

definition amap_wf :: "('k, 'v) gomap \<Rightarrow> bool" where
  "amap_wf m \<longleftrightarrow> distinct (map fst m)"

definition amap_keys :: "('k, 'v) gomap \<Rightarrow> 'k set" where
  "amap_keys m = fst ` set m"

definition range_order :: "'k list \<Rightarrow> ('k, 'v) gomap \<Rightarrow> bool" where
  "range_order ks m \<longleftrightarrow> distinct ks \<and> set ks = amap_keys m"

lemma amap_keys_dom: "amap_keys m = dom (map_of m)"
  by (simp add: amap_keys_def dom_map_of_conv_image_fst)

lemma amap_wf_Nil [simp, intro]: "amap_wf []"
  by (simp add: amap_wf_def)

lemma amap_wf_update [amap_simps, intro]: "amap_wf m \<Longrightarrow> amap_wf (AList.update k v m)"
  by (simp add: amap_wf_def AList.distinct_update)

lemma amap_wf_delete [amap_simps, intro]: "amap_wf m \<Longrightarrow> amap_wf (AList.delete k m)"
  by (simp add: amap_wf_def AList.distinct_delete)

lemma amap_get_update [amap_simps]: "map_of (AList.update k v m) = (map_of m)(k \<mapsto> v)"
  by (simp add: AList.update_conv')

lemma amap_get_delete [amap_simps]: "map_of (AList.delete k m) = (map_of m)(k := None)"
  by (simp add: AList.delete_conv')

lemma amap_keys_update [amap_simps]: "amap_keys (AList.update k v m) = insert k (amap_keys m)"
  by (auto simp: amap_keys_dom amap_get_update)

lemma amap_keys_delete [amap_simps]: "amap_keys (AList.delete k m) = amap_keys m - {k}"
  by (auto simp: amap_keys_dom amap_get_delete)

lemma amap_keys_Nil [simp]: "amap_keys [] = {}"
  by (simp add: amap_keys_def)

lemma amap_keys_iff: "k \<in> amap_keys m \<longleftrightarrow> map_of m k \<noteq> None"
  by (auto simp: amap_keys_dom)

lemma length_amap_delete: "map_of m k \<noteq> None \<Longrightarrow> length (AList.delete k m) < length m"
proof (induction m)
  case (Cons p m)
  show ?case
  proof (cases "fst p = k")
    case True
    then show ?thesis
      by (cases p) (auto simp: AList.delete_eq intro: le_imp_less_Suc length_filter_le)
  next
    case False
    with Cons show ?thesis by (cases p) (auto simp: AList.delete_eq)
  qed
qed simp

section \<open>Two contracts\<close>

text \<open>
  States reachable from an initial state by a step relation, and the contract under which
  an invariant holds in all of them.
\<close>

inductive reachable :: "('s \<Rightarrow> bool) \<Rightarrow> ('s \<Rightarrow> 's \<Rightarrow> bool) \<Rightarrow> 's \<Rightarrow> bool"
  for start :: "'s \<Rightarrow> bool" and next_state :: "'s \<Rightarrow> 's \<Rightarrow> bool" where
  reach_start: "start s \<Longrightarrow> reachable start next_state s"
| reach_step: "reachable start next_state s \<Longrightarrow> next_state s t \<Longrightarrow> reachable start next_state t"

locale invariant_system =
  fixes start :: "'s \<Rightarrow> bool"
    and next_state :: "'s \<Rightarrow> 's \<Rightarrow> bool"
    and inv :: "'s \<Rightarrow> bool"
  assumes inv_start: "start s \<Longrightarrow> inv s"
    and inv_next: "inv s \<Longrightarrow> next_state s t \<Longrightarrow> inv t"
begin

lemma reachable_inv: "reachable start next_state s \<Longrightarrow> inv s"
  by (induction rule: reachable.induct) (auto intro: inv_start inv_next)

end

text \<open>
  A detailed machine simulates an abstract one, event by event: \<open>ok\<close> says when an event
  may be taken, \<open>inv\<close> is what the detailed state keeps.
\<close>

locale simulation =
  fixes step :: "'s \<Rightarrow> 'e \<Rightarrow> 's"
    and astep :: "'a \<Rightarrow> 'e \<Rightarrow> 'a"
    and abs :: "'s \<Rightarrow> 'a"
    and inv :: "'s \<Rightarrow> bool"
    and ok :: "'e \<Rightarrow> bool"
  assumes inv_step: "inv s \<Longrightarrow> ok e \<Longrightarrow> inv (step s e)"
    and sim_step: "inv s \<Longrightarrow> ok e \<Longrightarrow> abs (step s e) = astep (abs s) e"
begin

lemma inv_run: "inv s \<Longrightarrow> list_all ok es \<Longrightarrow> inv (foldl step s es)"
  by (induction es arbitrary: s) (auto intro: inv_step)

lemma sim_run: "inv s \<Longrightarrow> list_all ok es \<Longrightarrow> abs (foldl step s es) = foldl astep (abs s) es"
  by (induction es arbitrary: s) (simp_all add: inv_step sim_step)

end

end
