(* ===== verification/GoText.thy ===== *)
theory GoText
  imports Prelude "HOL-Library.Sublist"
begin

unbundle bit_operations_syntax

text \<open>
  What the repository uses of Go's \<^verbatim>\<open>strings\<close>, \<^verbatim>\<open>strconv\<close>, \<^verbatim>\<open>fmt\<close> and of the address functions
  of \<^verbatim>\<open>net\<close>. A Go string is a list of characters, one per byte. An IP address is its list of
  bytes, 16 of them or, after \<^verbatim>\<open>To4\<close>, four.
\<close>

section \<open>Strings\<close>

definition HasSuffix :: "string \<Rightarrow> string \<Rightarrow> bool" where
  "HasSuffix s p = HasPrefix (rev s) (rev p)"

fun Contains :: "string \<Rightarrow> string \<Rightarrow> bool" where
  "Contains [] sub \<longleftrightarrow> sub = []"
| "Contains (c # s) sub \<longleftrightarrow> HasPrefix (c # s) sub \<or> Contains s sub"

definition TrimPrefix :: "string \<Rightarrow> string \<Rightarrow> string" where
  "TrimPrefix s p = (if HasPrefix s p then drop (length p) s else s)"

definition TrimSuffix :: "string \<Rightarrow> string \<Rightarrow> string" where
  "TrimSuffix s p = (if HasSuffix s p then take (length s - length p) s else s)"

text \<open>Lower case and white space of ASCII; other bytes are left as they are.\<close>

definition lower :: "char \<Rightarrow> char" where
  "lower c = (let n = of_char c :: nat in if 65 \<le> n \<and> n \<le> 90 then char_of (n + 32) else c)"

definition ToLower :: "string \<Rightarrow> string" where
  "ToLower s = map lower s"

definition is_space :: "char \<Rightarrow> bool" where
  "is_space c = ((of_char c :: nat) \<in> set [9, 10, 11, 12, 13, 32])"

definition TrimSpace :: "string \<Rightarrow> string" where
  "TrimSpace s = rev (dropWhile is_space (rev (dropWhile is_space s)))"

text \<open>\<^verbatim>\<open>Split\<close> at a separator of one character, and \<^verbatim>\<open>Join\<close>.\<close>

fun Split :: "string \<Rightarrow> char \<Rightarrow> string list" where
  "Split [] sep = [[]]"
| "Split (c # s) sep = (if c = sep then [] # Split s sep
     else case Split s sep of [] \<Rightarrow> [[c]] | p # ps \<Rightarrow> (c # p) # ps)"

fun Join :: "string list \<Rightarrow> string \<Rightarrow> string" where
  "Join [] sep = []"
| "Join [s] sep = s"
| "Join (s # t # ss) sep = s @ sep @ Join (t # ss) sep"

text \<open>What is before and after the first, or the last, occurrence of a character.\<close>

definition cut_first :: "char \<Rightarrow> string \<Rightarrow> (string \<times> string) option" where
  "cut_first c s = (if c \<in> set s then Some (takeWhile (\<lambda>d. d \<noteq> c) s, tl (dropWhile (\<lambda>d. d \<noteq> c) s)) else None)"

definition cut_last :: "char \<Rightarrow> string \<Rightarrow> (string \<times> string) option" where
  "cut_last c s = (case cut_first c (rev s) of None \<Rightarrow> None | Some (b, a) \<Rightarrow> Some (rev a, rev b))"

section \<open>Numbers\<close>

definition digit_char :: "nat \<Rightarrow> char" where
  "digit_char n = char_of (if n < 10 then n + 48 else n + 87)"

text \<open>\<^verbatim>\<open>%d\<close> and, with \<open>b = 16\<close>, \<^verbatim>\<open>%x\<close>.\<close>

function digits :: "nat \<Rightarrow> nat \<Rightarrow> string" where
  "digits b n = (if n < b \<or> b < 2 then [digit_char (n mod b)] else digits b (n div b) @ [digit_char (n mod b)])"
  by pat_completeness auto
termination by (relation "measure snd") (auto simp: div_less_dividend)

declare digits.simps [simp del]

definition itoa :: "int \<Rightarrow> string" where
  "itoa i = (if i < 0 then CHR ''-'' # digits 10 (nat (- i)) else digits 10 (nat i))"

definition is_digit :: "char \<Rightarrow> bool" where
  "is_digit c \<longleftrightarrow> 48 \<le> (of_char c :: nat) \<and> (of_char c :: nat) \<le> 57"

definition digit_value :: "char \<Rightarrow> nat" where
  "digit_value c = (of_char c :: nat) - 48"

definition number :: "string \<Rightarrow> nat" where
  "number s = foldl (\<lambda>v c. v * 10 + digit_value c) 0 s"

section \<open>Addresses\<close>

text \<open>\<^verbatim>\<open>net.SplitHostPort\<close>; \<open>None\<close> for its errors.\<close>

definition SplitHostPort :: "string \<Rightarrow> (string \<times> string) option" where
  "SplitHostPort hp =
     (case cut_last CHR '':'' hp of
        None \<Rightarrow> None
      | Some (pre, port) \<Rightarrow>
          if pre \<noteq> [] \<and> hd pre = CHR ''['' then
            (case cut_first CHR '']'' (tl pre) of
               Some (host, []) \<Rightarrow>
                 if CHR ''['' \<in> set host \<or> CHR ''['' \<in> set port \<or> CHR '']'' \<in> set port then None
                 else Some (host, port)
             | _ \<Rightarrow> None)
          else if CHR '':'' \<in> set pre \<or> CHR ''['' \<in> set hp \<or> CHR '']'' \<in> set hp then None
          else Some (pre, port))"

text \<open>One field of a dotted address.\<close>

definition parse_octet :: "string \<Rightarrow> u8 option" where
  "parse_octet s =
     (if s = [] \<or> \<not> list_all is_digit s \<or> (1 < length s \<and> hd s = CHR ''0'') \<or> 255 < number s then None
      else Some (of_nat (number s)))"

definition parse_ipv4 :: "string \<Rightarrow> bytes option" where
  "parse_ipv4 s =
     (case map parse_octet (Split s CHR ''.'') of
        [Some a, Some b, Some c, Some d] \<Rightarrow> Some [a, b, c, d]
      | _ \<Rightarrow> None)"

definition hex_value :: "char \<Rightarrow> nat option" where
  "hex_value c =
     (let n = of_char c :: nat
      in if 48 \<le> n \<and> n \<le> 57 then Some (n - 48)
         else if 97 \<le> n \<and> n \<le> 102 then Some (n - 87)
         else if 65 \<le> n \<and> n \<le> 70 then Some (n - 55) else None)"

definition hex_number :: "string \<Rightarrow> nat" where
  "hex_number s = foldl (\<lambda>v c. v * 16 + the (hex_value c)) 0 s"

text \<open>The loop of \<^verbatim>\<open>parseIPv6\<close>: \<open>n\<close> groups may still follow the bytes \<open>ip\<close>.\<close>

fun v6_loop :: "nat \<Rightarrow> string \<Rightarrow> bytes \<Rightarrow> nat option \<Rightarrow> (string \<times> bytes \<times> nat option) option" where
  "v6_loop 0 s ip ell = Some (s, ip, ell)"
| "v6_loop (Suc n) s ip ell =
     (let h = takeWhile (\<lambda>c. hex_value c \<noteq> None) s; s' = drop (length h) s
      in if h = [] \<or> 4 < length h then None
         else if s' \<noteq> [] \<and> hd s' = CHR ''.'' then
           (if (ell = None \<and> length ip \<noteq> 12) \<or> 12 < length ip then None
            else case parse_ipv4 s of None \<Rightarrow> None | Some q \<Rightarrow> Some ([], ip @ q, ell))
         else let v = hex_number h; ip = ip @ [of_nat (v div 256), of_nat (v mod 256)]
              in if s' = [] then Some ([], ip, ell)
                 else if hd s' \<noteq> CHR '':'' \<or> tl s' = [] then None
                 else if hd (tl s') = CHR '':'' then
                   (if ell \<noteq> None then None
                    else if tl (tl s') = [] then Some ([], ip, Some (length ip))
                    else v6_loop n (tl (tl s')) ip (Some (length ip)))
                 else v6_loop n (tl s') ip ell)"

definition parse_ipv6 :: "string \<Rightarrow> bytes option" where
  "parse_ipv6 s =
     (let lead = HasPrefix s ''::''; s' = (if lead then drop 2 s else s)
      in if lead \<and> s' = [] then Some (replicate 16 0)
         else case v6_loop 8 s' [] (if lead then Some 0 else None) of
                Some ([], ip, ell) \<Rightarrow>
                  (case ell of
                     None \<Rightarrow> if length ip < 16 then None else Some ip
                   | Some k \<Rightarrow> if length ip < 16 then Some (take k ip @ replicate (16 - length ip) 0 @ drop k ip)
                             else None)
              | _ \<Rightarrow> None)"

text \<open>\<^verbatim>\<open>net.ParseIP\<close>, in its 16-byte form. An address with a zone is none.\<close>

definition v4_prefix :: bytes where
  "v4_prefix = replicate 10 0 @ [0xFF, 0xFF]"

datatype parsed_addr = Addr4 bytes | Addr6 bytes

definition ParseAddr :: "string \<Rightarrow> parsed_addr option" where
  "ParseAddr s =
     (case dropWhile (\<lambda>c. c \<notin> set ''.:%'') s of
        [] \<Rightarrow> None
      | c # _ \<Rightarrow> if c = CHR ''.'' then map_option Addr4 (parse_ipv4 s)
                 else if c = CHR ''%'' \<or> CHR ''%'' \<in> set s then None
                 else map_option Addr6 (parse_ipv6 s))"

fun As16 :: "parsed_addr \<Rightarrow> bytes" where
  "As16 (Addr4 q) = v4_prefix @ q"
| "As16 (Addr6 q) = q"

definition ParseIP :: "string \<Rightarrow> bytes option" where
  "ParseIP s = map_option As16 (ParseAddr s)"

definition To4 :: "bytes \<Rightarrow> bytes option" where
  "To4 ip = (if length ip = 4 then Some ip
     else if length ip = 16 \<and> take 12 ip = v4_prefix then Some (drop 12 ip) else None)"

text \<open>\<^verbatim>\<open>net.ParseCIDR\<close> and \<^verbatim>\<open>IPNet.Contains\<close>.\<close>

record IPNet =
  net_ip :: bytes
  net_mask :: bytes

definition mask_byte :: "nat \<Rightarrow> u8" where
  "mask_byte k = of_nat (256 - 2 ^ (8 - min 8 k))"

definition CIDRMask :: "nat \<Rightarrow> nat \<Rightarrow> bytes" where
  "CIDRMask ones len = map (\<lambda>i. mask_byte (ones - 8 * i)) [0..<len]"

definition parse_prefix_len :: "string \<Rightarrow> nat option" where
  "parse_prefix_len s = (if s = [] \<or> \<not> list_all is_digit s \<or> 0xFFFFFF \<le> number s then None else Some (number s))"

definition ParseCIDR :: "string \<Rightarrow> IPNet option" where
  "ParseCIDR s =
     (case cut_first CHR ''/'' s of
        None \<Rightarrow> None
      | Some (addr, bits) \<Rightarrow>
          (case (ParseAddr addr, parse_prefix_len bits) of
             (Some (Addr4 q), Some n) \<Rightarrow>
               if 32 < n then None
               else Some \<lparr> net_ip = map2 (AND) q (CIDRMask n 4), net_mask = CIDRMask n 4 \<rparr>
           | (Some (Addr6 q), Some n) \<Rightarrow>
               if 128 < n then None
               else Some \<lparr> net_ip = map2 (AND) q (CIDRMask n 16), net_mask = CIDRMask n 16 \<rparr>
           | _ \<Rightarrow> None))"

definition net_Contains :: "IPNet \<Rightarrow> bytes \<Rightarrow> bool" where
  "net_Contains n ip =
     (let nn = (case To4 (net_ip n) of Some q \<Rightarrow> q | None \<Rightarrow> net_ip n);
          m = (if length (net_mask n) = 16 \<and> length nn = 4 then drop 12 (net_mask n) else net_mask n);
          ip = (case To4 ip of Some q \<Rightarrow> q | None \<Rightarrow> ip)
      in length (net_mask n) \<in> {4, 16} \<and> length nn = length m \<and> length ip = length nn
         \<and> map2 (AND) nn m = map2 (AND) ip m)"

text \<open>\<^verbatim>\<open>IP.String\<close> of four bytes.\<close>

definition ipv4_string :: "bytes \<Rightarrow> string" where
  "ipv4_string q = Join (map (\<lambda>b. digits 10 (unat b)) q) ''.''"

section \<open>Lemmas\<close>

named_theorems text_simps \<open>facts on the text functions\<close>

lemma HasPrefix_self [simp]: "HasPrefix (p @ s) p" "HasPrefix s []"
  by (simp_all add: HasPrefix_def)

lemma HasPrefix_iff: "HasPrefix s p \<longleftrightarrow> (\<exists>t. s = p @ t)"
  by (metis HasPrefix_def HasPrefix_self(1) append_take_drop_id)

lemma HasSuffix_iff: "HasSuffix s p \<longleftrightarrow> (\<exists>t. s = t @ p)"
  unfolding HasSuffix_def HasPrefix_iff by (metis rev_append rev_rev_ident)

lemma Contains_iff: "Contains s p \<longleftrightarrow> sublist p s"
proof (induction s)
  case (Cons c s)
  then show ?case
    by (auto simp: HasPrefix_iff sublist_Cons_right prefix_def)
qed simp

subsection \<open>Numbers\<close>

lemma digit_facts [text_simps]:
  "n < 10 \<Longrightarrow> digit_value (digit_char n) = n" "n < 10 \<Longrightarrow> is_digit (digit_char n)"
  by (simp_all add: digit_value_def digit_char_def is_digit_def)

lemma digit_char_zero: "n < 10 \<Longrightarrow> digit_char n = CHR ''0'' \<longleftrightarrow> n = 0"
  by (simp add: digit_char_def flip: of_char_eq_iff [where ?'a = nat])

lemma digits_ten: "n < 10 \<Longrightarrow> digits 10 n = [digit_char n]"
  "10 \<le> n \<Longrightarrow> digits 10 n = digits 10 (n div 10) @ [digit_char (n mod 10)]"
  by (subst digits.simps; simp)+

lemma digits_facts:
  "digits 10 n \<noteq> []" "list_all is_digit (digits 10 n)" "number (digits 10 n) = n"
  "n \<noteq> 0 \<Longrightarrow> hd (digits 10 n) \<noteq> CHR ''0''" "length (digits 10 n) = 1 \<longleftrightarrow> n < 10"
proof (induction n rule: less_induct)
  case (less n)
  { case 1 then show ?case by (cases "n < 10") (simp_all add: digits_ten)
  next
    case 2 then show ?case
      using less(2) [of "n div 10"] by (cases "n < 10") (simp_all add: digits_ten text_simps)
  next
    case 3 then show ?case
      using less(3) [of "n div 10"] by (cases "n < 10") (simp_all add: digits_ten text_simps number_def)
  next
    case 4 then show ?case
      using less(1,4) [of "n div 10"] by (cases "n < 10") (auto simp: digits_ten digit_char_zero)
  next
    case 5 then show ?case
      using less(1) [of "n div 10"] by (cases "n < 10") (simp_all add: digits_ten)
  }
qed

subsection \<open>Splitting and joining\<close>

lemma Split_append: "sep \<notin> set p \<Longrightarrow> Split (p @ sep # s) sep = p # Split s sep"
  by (induction p) auto

lemma Split_single: "sep \<notin> set p \<Longrightarrow> Split p sep = [p]"
  by (induction p) auto

lemma Split_Join:
  "ps \<noteq> [] \<Longrightarrow> \<forall>p\<in>set ps. sep \<notin> set p \<Longrightarrow> Split (Join ps [sep]) sep = ps"
  by (induction ps "[sep]" rule: Join.induct) (simp_all add: Split_append Split_single)

lemma cut_first_append [text_simps]: "c \<notin> set a \<Longrightarrow> cut_first c (a @ c # b) = Some (a, b)"
  by (auto simp: cut_first_def takeWhile_append dropWhile_append)

lemma cut_first_None [text_simps]: "c \<notin> set a \<Longrightarrow> cut_first c a = None"
  by (simp add: cut_first_def)

lemma cut_last_append [text_simps]: "c \<notin> set b \<Longrightarrow> cut_last c (a @ c # b) = Some (a, b)"
  using cut_first_append [of c "rev b" "rev a"] by (simp add: cut_last_def)

lemma is_digit_not [text_simps]: "is_digit c \<Longrightarrow> c \<notin> set ''.:%/[]-''"
  by (auto simp: is_digit_def)

lemma digits_not:
  assumes "c \<in> set ''.:%/[]-''"
  shows "c \<notin> set (digits 10 n)"
  using digits_facts(2) [of n] is_digit_not assms by (auto simp: list_all_iff)

subsection \<open>Addresses\<close>

lemma SplitHostPort_plain:
  assumes "set h \<inter> set '':[]'' = {}" "set p \<inter> set '':[]'' = {}"
  shows "SplitHostPort (h @ '':'' @ p) = Some (h, p)"
proof -
  have "cut_last CHR '':'' (h @ CHR '':'' # p) = Some (h, p)" using assms by (intro cut_last_append) auto
  moreover have "h \<noteq> [] \<Longrightarrow> hd h \<noteq> CHR ''[''" using assms(1) hd_in_set [of h] by (metis disjoint_iff list.set_intros)
  ultimately show ?thesis using assms by (auto simp: SplitHostPort_def)
qed

lemma SplitHostPort_bracket:
  assumes "set h \<inter> set ''[]'' = {}" "set p \<inter> set '':[]'' = {}"
  shows "SplitHostPort (''['' @ h @ '']:'' @ p) = Some (h, p)"
proof -
  have "cut_last CHR '':'' ((CHR ''['' # h @ '']'') @ CHR '':'' # p) = Some (CHR ''['' # h @ '']'', p)"
    using assms by (intro cut_last_append) auto
  moreover have "cut_first CHR '']'' (h @ '']'') = Some (h, [])"
    using assms by (intro cut_first_append) auto
  ultimately show ?thesis using assms by (auto simp: SplitHostPort_def)
qed

lemma parse_octet_digits [text_simps]: "parse_octet (digits 10 (unat (b :: u8))) = Some b"
proof -
  have "unat b < 256" using unsigned_less [of b] by simp
  then show ?thesis
    using digits_facts [of "unat b"] by (cases "b = 0") (auto simp: parse_octet_def unat_eq_zero)
qed

lemma length_4: "length q = 4 \<Longrightarrow> \<exists>a b c d. q = [a, b, c, d]"
  by (auto simp: length_Suc_conv numeral_eq_Suc)

lemma parse_ipv4_string:
  assumes "length q = 4"
  shows "parse_ipv4 (ipv4_string q) = Some q"
proof -
  have "Split (ipv4_string q) CHR ''.'' = map (\<lambda>b. digits 10 (unat b)) q"
    unfolding ipv4_string_def by (rule Split_Join) (use assms digits_not [of "CHR ''.''"] in auto)
  moreover obtain a b c d where "q = [a, b, c, d]" using length_4 [OF assms] by blast
  ultimately show ?thesis by (simp add: parse_ipv4_def text_simps)
qed

lemma ipv4_string_chars: "c \<in> set (ipv4_string q) \<Longrightarrow> is_digit c \<or> c = CHR ''.''"
proof (induction q)
  case (Cons a q)
  then show ?case using digits_facts(2) [of "unat a"]
    by (cases q) (auto simp: ipv4_string_def list_all_iff)
qed (simp add: ipv4_string_def)

lemma ParseAddr_ipv4_string:
  assumes "length q = 4"
  shows "ParseAddr (ipv4_string q) = Some (Addr4 q)"
proof -
  have "CHR ''.'' \<in> set (ipv4_string q)"
    using length_4 [OF assms] by (auto simp: ipv4_string_def)
  then have ne: "dropWhile (\<lambda>c. c \<notin> set ''.:%'') (ipv4_string q) \<noteq> []" by (auto simp: dropWhile_eq_Nil_conv)
  then have "hd (dropWhile (\<lambda>c. c \<notin> set ''.:%'') (ipv4_string q)) \<in> set ''.:%''"
    using hd_dropWhile [OF ne] by blast
  moreover have "hd (dropWhile (\<lambda>c. c \<notin> set ''.:%'') (ipv4_string q)) \<in> set (ipv4_string q)"
    using ne by (metis hd_in_set set_dropWhileD)
  moreover have "c = CHR ''.''" if "c \<in> set (ipv4_string q)" "c \<in> set ''.:%''" for c
    using ipv4_string_chars [OF that(1)] is_digit_not [of c] that(2) by auto
  ultimately have "hd (dropWhile (\<lambda>c. c \<notin> set ''.:%'') (ipv4_string q)) = CHR ''.''" by blast
  then show ?thesis using ne parse_ipv4_string [OF assms]
    by (cases "dropWhile (\<lambda>c. c \<notin> set ''.:%'') (ipv4_string q)") (auto simp: ParseAddr_def)
qed

subsection \<open>Networks\<close>

text \<open>An address as its bits, the most significant first.\<close>

definition byte_bits :: "u8 \<Rightarrow> bool list" where
  "byte_bits b = map (\<lambda>i. bit b (7 - i)) [0..<8]"

definition addr_bits :: "bytes \<Rightarrow> bool list" where
  "addr_bits ip = concat (map byte_bits ip)"

lemma length_byte_bits [simp]: "length (byte_bits b) = 8"
  by (simp add: byte_bits_def)

lemma addr_bits_Cons: "addr_bits (b # ip) = byte_bits b @ addr_bits ip"
  by (simp add: addr_bits_def)

lemma mask_byte_bit:
  assumes "i < 8"
  shows "bit (mask_byte k) i \<longleftrightarrow> 8 - k \<le> i"
proof (cases "k < 8")
  case True
  then have "k \<in> {0, 1, 2, 3, 4, 5, 6, 7}" by auto
  moreover have "i \<in> {0, 1, 2, 3, 4, 5, 6, 7}" using assms by auto
  ultimately show ?thesis by (auto simp: mask_byte_def bit_simps)
next
  case False
  moreover have "i \<in> {0, 1, 2, 3, 4, 5, 6, 7}" using assms by auto
  ultimately show ?thesis by (auto simp: mask_byte_def bit_simps)
qed

lemma count_down: "(\<forall>i<8. 8 - k \<le> i \<longrightarrow> P i) \<longleftrightarrow> (\<forall>j<8. j < k \<longrightarrow> P (7 - j))" for k :: nat
proof
  assume p: "\<forall>i<8. 8 - k \<le> i \<longrightarrow> P i"
  show "\<forall>j<8. j < k \<longrightarrow> P (7 - j)"
  proof (intro allI impI)
    fix j assume "j < 8" "j < k"
    then show "P (7 - j)" using p [rule_format, of "7 - j"] by simp
  qed
next
  assume p: "\<forall>j<8. j < k \<longrightarrow> P (7 - j)"
  show "\<forall>i<8. 8 - k \<le> i \<longrightarrow> P i"
  proof (intro allI impI)
    fix i :: nat assume "i < 8" "8 - k \<le> i"
    then show "P i" using p [rule_format, of "7 - i"] by simp
  qed
qed

lemma masked_byte: "a AND mask_byte k = b AND mask_byte k \<longleftrightarrow> take k (byte_bits a) = take k (byte_bits b)"
proof -
  have "a AND mask_byte k = b AND mask_byte k \<longleftrightarrow> (\<forall>i<8. 8 - k \<le> i \<longrightarrow> bit a i = bit b i)"
    by (auto simp: bit_eq_iff bit_and_iff mask_byte_bit)
  also have "\<dots> \<longleftrightarrow> (\<forall>j<8. j < k \<longrightarrow> bit a (7 - j) = bit b (7 - j))"
    by (rule count_down)
  also have "\<dots> \<longleftrightarrow> take k (byte_bits a) = take k (byte_bits b)"
    by (auto simp: byte_bits_def list_eq_iff_nth_eq)
  finally show ?thesis .
qed

lemma CIDRMask_Suc: "CIDRMask n (Suc l) = mask_byte n # CIDRMask (n - 8) l"
proof -
  have "[0..<Suc l] = 0 # map Suc [0..<l]" by (simp add: map_Suc_upt upt_conv_Cons del: upt_Suc)
  then show ?thesis by (simp add: CIDRMask_def comp_def)
qed

lemma masked_addr:
  "length p = length q \<Longrightarrow>
     map2 (AND) p (CIDRMask n (length q)) = map2 (AND) q (CIDRMask n (length q))
       \<longleftrightarrow> take n (addr_bits p) = take n (addr_bits q)"
proof (induction p q arbitrary: n rule: list_induct2)
  case (Cons a p b q)
  then show ?case by (simp add: CIDRMask_Suc addr_bits_Cons masked_byte)
qed (simp add: addr_bits_def)

lemma net_Contains_v4:
  assumes "length q = 4" "length ip = 4"
  shows "net_Contains \<lparr> net_ip = map2 (AND) q (CIDRMask n 4), net_mask = CIDRMask n 4 \<rparr> (v4_prefix @ ip)
    \<longleftrightarrow> take n (addr_bits ip) = take n (addr_bits q)"
proof -
  have "length (CIDRMask n 4) = 4" by (simp add: CIDRMask_def)
  moreover have "map2 (AND) (map2 (AND) q (CIDRMask n 4)) (CIDRMask n 4) = map2 (AND) q (CIDRMask n 4)"
    by (rule nth_equalityI) (auto simp: and.assoc)
  ultimately show ?thesis using masked_addr [of ip q n] assms
    by (auto simp: net_Contains_def To4_def v4_prefix_def)
qed

lemma ParseCIDR_v4:
  assumes "length q = 4" "n \<le> 32"
  shows "ParseCIDR (ipv4_string q @ ''/'' @ digits 10 n)
    = Some \<lparr> net_ip = map2 (AND) q (CIDRMask n 4), net_mask = CIDRMask n 4 \<rparr>"
proof -
  have "CHR ''/'' \<notin> set (ipv4_string q)" using ipv4_string_chars [of "CHR ''/''"] by (auto simp: is_digit_def)
  then have "cut_first CHR ''/'' (ipv4_string q @ ''/'' @ digits 10 n) = Some (ipv4_string q, digits 10 n)"
    using cut_first_append [of "CHR ''/''" "ipv4_string q" "digits 10 n"] by simp
  moreover have "parse_prefix_len (digits 10 n) = Some n"
    using digits_facts [of n] assms(2) by (simp add: parse_prefix_len_def)
  ultimately show ?thesis using assms(2) ParseAddr_ipv4_string [OF assms(1)] by (simp add: ParseCIDR_def)
qed

end
