(* ===== verification/Routing.thy ===== *)
theory Routing
  imports GoText
begin

unbundle bit_operations_syntax

text \<open>
  The router (\<^verbatim>\<open>pkg/routing/router.go\<close>): an ordered list of rules and the policy of the first one
  that applies to a target. A policy is its string, as in the code.
\<close>

section \<open>Rules and the router\<close>

type_synonym Policy = string

definition Direct :: Policy where "Direct = ''direct''"
definition Proxy :: Policy where "Proxy = ''proxy''"
definition Block :: Policy where "Block = ''block''"

record Rule =
  rule_type :: string
  rule_value :: string
  rule_policy :: Policy
  ipNet :: "IPNet option"

record Router =
  rules :: "Rule list"
  defaultPolicy :: Policy

definition parse_rule :: "Rule \<Rightarrow> Rule" where
  "parse_rule r =
     (if rule_type r = ''ip_cidr''
      then case ParseCIDR (rule_value r) of None \<Rightarrow> r | Some n \<Rightarrow> r\<lparr>ipNet := Some n\<rparr>
      else r)"

definition NewRouter :: "Rule list \<Rightarrow> Policy \<Rightarrow> Router" where
  "NewRouter rs dflt =
     \<lparr> rules = map parse_rule rs, defaultPolicy = (if dflt = [] then Proxy else dflt) \<rparr>"

text \<open>One turn of the loop of \<^verbatim>\<open>Route\<close>; \<open>ip\<close> is \<^verbatim>\<open>ParseIP(host)\<close>.\<close>

definition applies :: "string \<Rightarrow> bytes option \<Rightarrow> Rule \<Rightarrow> bool" where
  "applies host ip r =
     (if rule_type r = ''domain_suffix''
      then ip = None \<and> (host = rule_value r \<or> HasSuffix host (''.'' @ rule_value r))
      else if rule_type r = ''domain_keyword'' then ip = None \<and> Contains host (rule_value r)
      else if rule_type r = ''ip_cidr''
      then (case (ip, ipNet r) of (Some a, Some n) \<Rightarrow> net_Contains n a | _ \<Rightarrow> False)
      else False)"

fun first_policy :: "string \<Rightarrow> bytes option \<Rightarrow> Rule list \<Rightarrow> Policy \<Rightarrow> Policy" where
  "first_policy host ip [] dflt = dflt"
| "first_policy host ip (r # rs) dflt =
     (if applies host ip r then rule_policy r else first_policy host ip rs dflt)"

definition Route :: "Router \<Rightarrow> string \<Rightarrow> Policy" where
  "Route r targetAddr =
     (let host = (case SplitHostPort targetAddr of Some (h, _) \<Rightarrow> h | None \<Rightarrow> targetAddr)
      in first_policy host (ParseIP host) (rules r) (defaultPolicy r))"

section \<open>What the rules mean\<close>

text \<open>The rules as a configuration writes them, and the targets they speak of.\<close>

datatype rule_spec = Suffix string Policy | Keyword string Policy | Network bytes nat Policy

datatype target = Host string | Address bytes

fun to_rule :: "rule_spec \<Rightarrow> Rule" where
  "to_rule (Suffix v p) = \<lparr> rule_type = ''domain_suffix'', rule_value = v, rule_policy = p, ipNet = None \<rparr>"
| "to_rule (Keyword v p) = \<lparr> rule_type = ''domain_keyword'', rule_value = v, rule_policy = p, ipNet = None \<rparr>"
| "to_rule (Network a n p) = \<lparr> rule_type = ''ip_cidr'', rule_value = ipv4_string a @ ''/'' @ digits 10 n,
     rule_policy = p, ipNet = None \<rparr>"

fun spec_policy :: "rule_spec \<Rightarrow> Policy" where
  "spec_policy (Suffix _ p) = p"
| "spec_policy (Keyword _ p) = p"
| "spec_policy (Network _ _ p) = p"

fun covers :: "rule_spec \<Rightarrow> target \<Rightarrow> bool" where
  "covers (Suffix v _) (Host h) \<longleftrightarrow> h = v \<or> (\<exists>t. h = t @ ''.'' @ v)"
| "covers (Keyword v _) (Host h) \<longleftrightarrow> sublist v h"
| "covers (Network a n _) (Address q) \<longleftrightarrow> take n (addr_bits q) = take n (addr_bits a)"
| "covers _ _ \<longleftrightarrow> False"

fun target_text :: "target \<Rightarrow> string" where
  "target_text (Host h) = h"
| "target_text (Address q) = ipv4_string q"

fun spec_wf :: "rule_spec \<Rightarrow> bool" where
  "spec_wf (Network a n _) \<longleftrightarrow> length a = 4 \<and> n \<le> 32"
| "spec_wf _ \<longleftrightarrow> True"

text \<open>A host name is what is no address and has no colon or bracket.\<close>

fun target_wf :: "target \<Rightarrow> bool" where
  "target_wf (Host h) \<longleftrightarrow> ParseIP h = None \<and> set h \<inter> set '':[]'' = {}"
| "target_wf (Address q) \<longleftrightarrow> length q = 4"

fun target_ip :: "target \<Rightarrow> bytes option" where
  "target_ip (Host h) = None"
| "target_ip (Address q) = Some (v4_prefix @ q)"

section \<open>Lemmas\<close>

lemma parse_rule_policy [simp]: "rule_policy (parse_rule r) = rule_policy r"
  by (simp add: parse_rule_def split: option.splits)

lemma rule_policy_to_rule [simp]: "rule_policy (to_rule r) = spec_policy r"
  by (cases r) simp_all

lemma first_policy_find:
  "first_policy host ip rs dflt = (case find (applies host ip) rs of None \<Rightarrow> dflt | Some r \<Rightarrow> rule_policy r)"
  by (induction rs) simp_all

lemma applies_spec:
  assumes "spec_wf r" "target_wf t"
  shows "applies (target_text t) (target_ip t) (parse_rule (to_rule r)) \<longleftrightarrow> covers r t"
proof (cases r)
  case (Network a n p)
  then have "parse_rule (to_rule r) = (to_rule r)\<lparr>ipNet :=
      Some \<lparr> net_ip = map2 (AND) a (CIDRMask n 4), net_mask = CIDRMask n 4 \<rparr>\<rparr>"
    using assms(1) ParseCIDR_v4 [of a n] by (simp add: parse_rule_def)
  then show ?thesis using Network assms net_Contains_v4 [of a _ n] by (cases t) (simp_all add: applies_def)
qed (cases t, simp_all add: parse_rule_def applies_def HasSuffix_iff Contains_iff)+

lemma ParseIP_target: "target_wf t \<Longrightarrow> ParseIP (target_text t) = target_ip t"
  by (cases t) (simp_all add: ParseIP_def ParseAddr_ipv4_string)

lemma target_chars: "target_wf t \<Longrightarrow> set (target_text t) \<inter> set '':[]'' = {}"
proof (cases t)
  case (Address q)
  then show ?thesis using ipv4_string_chars [of _ q] is_digit_not by fastforce
qed simp

lemma split_target:
  assumes "target_wf t" "set port \<inter> set '':[]'' = {}"
  shows "SplitHostPort (target_text t @ '':'' @ port) = Some (target_text t, port)"
    "SplitHostPort (target_text t) = None"
  using SplitHostPort_plain [OF target_chars [OF assms(1)] assms(2)] target_chars [OF assms(1)]
  by (auto simp: SplitHostPort_def cut_last_def cut_first_def)

lemma Route_spec:
  assumes "target_wf t" "\<forall>r\<in>set rs. spec_wf r" "set port \<inter> set '':[]'' = {}"
    and "addr = target_text t \<or> addr = target_text t @ '':'' @ port"
  shows "Route (NewRouter (map to_rule rs) dflt) addr
    = (case find (\<lambda>r. covers r t) rs of
         Some r \<Rightarrow> spec_policy r | None \<Rightarrow> if dflt = [] then Proxy else dflt)"
proof -
  have "Route (NewRouter (map to_rule rs) dflt) addr
    = first_policy (target_text t) (target_ip t) (map parse_rule (map to_rule rs)) (if dflt = [] then Proxy else dflt)"
    using split_target [OF assms(1,3)] assms(4) ParseIP_target [OF assms(1)]
    by (auto simp: Route_def NewRouter_def)
  also have "\<dots> = (case find (\<lambda>r. covers r t) rs of
      Some r \<Rightarrow> spec_policy r | None \<Rightarrow> if dflt = [] then Proxy else dflt)"
    using assms(2) by (induction rs) (auto simp: applies_spec [OF _ assms(1)])
  finally show ?thesis .
qed

section \<open>Properties\<close>

text \<open>C7. \<^verbatim>\<open>Route\<close>, on strings, decides as the rules read: the policy of the first rule that covers
  the target, with or without a port, and the default policy (\<^verbatim>\<open>proxy\<close> where none is given) if none
  does. A suffix covers the domain and its subdomains, a keyword any name it occurs in, a network
  the addresses whose first bits are its own; names and addresses never meet each other's rules.\<close>

theorem route_reference:
  assumes "target_wf t" "\<forall>r\<in>set rs. spec_wf r" "set port \<inter> set '':[]'' = {}"
    and "addr = target_text t \<or> addr = target_text t @ '':'' @ port"
  shows "Route (NewRouter (map to_rule rs) dflt) addr
    = (case find (\<lambda>r. covers r t) rs of
         Some r \<Rightarrow> spec_policy r | None \<Rightarrow> if dflt = [] then Proxy else dflt)"
  by (rule Route_spec [OF assms])

theorem route_reference_witness:
  "Route (NewRouter (map to_rule [Suffix ''example.com'' Direct, Network [10, 0, 0, 0] 8 Block]) [])
     (ipv4_string [10, 1, 2, 3] @ '':'' @ ''443'') = Block"
  using route_reference [of "Address [10, 1, 2, 3]" "[Suffix ''example.com'' Direct, Network [10, 0, 0, 0] 8 Block]"
      "''443''" "ipv4_string [10, 1, 2, 3] @ '':'' @ ''443''" "[]"]
  by (simp add: addr_bits_def)

text \<open>A rule whose network does not parse never applies, whatever its policy.\<close>

lemma bad_network_ignored:
  "rule_type r = ''ip_cidr'' \<Longrightarrow> ParseCIDR (rule_value r) = None \<Longrightarrow> ipNet r = None \<Longrightarrow>
     \<not> applies host ip (parse_rule r)"
  by (simp add: parse_rule_def applies_def split: option.splits)

end
