(* ===== verification/Duration.thy ===== *)
theory Duration
  imports GoText
begin

text \<open>
  \<^verbatim>\<open>time.Duration\<close> as the repository parses and prints it: \<^verbatim>\<open>time.ParseDuration\<close> and
  \<^verbatim>\<open>Duration.String\<close>, and the two functions of \<^verbatim>\<open>pkg/config/config.go\<close> on top of them. A duration
  is its number of nanoseconds; \<open>fl\<close> rounds to a \<^verbatim>\<open>float64\<close>.
\<close>

section \<open>Go's durations\<close>

definition duration_unit :: "string \<Rightarrow> nat option" where
  "duration_unit u =
     (if u = ''ns'' then Some 1
      else if u = ''us'' \<or> u = [char_of (0xC2 :: nat), char_of (0xB5 :: nat), CHR ''s'']
              \<or> u = [char_of (0xCE :: nat), char_of (0xBC :: nat), CHR ''s''] then Some 1000
      else if u = ''ms'' then Some 1000000
      else if u = ''s'' then Some 1000000000
      else if u = ''m'' then Some 60000000000
      else if u = ''h'' then Some 3600000000000
      else None)"

text \<open>The digits behind the point: what does not fit into 63 bits is ignored.\<close>

fun leadingFraction :: "string \<Rightarrow> nat \<Rightarrow> nat \<Rightarrow> bool \<Rightarrow> nat \<times> nat" where
  "leadingFraction [] x scale overflow = (x, scale)"
| "leadingFraction (c # s) x scale overflow =
     (if overflow \<or> (2 ^ 63 - 1) div 10 < x then leadingFraction s x scale True
      else let y = x * 10 + digit_value c
           in if 2 ^ 63 < y then leadingFraction s x scale True
              else leadingFraction s y (scale * 10) False)"

definition is_unit_char :: "char \<Rightarrow> bool" where
  "is_unit_char c \<longleftrightarrow> c \<noteq> CHR ''.'' \<and> \<not> is_digit c"

text \<open>One number with its unit: the nanoseconds and the rest.\<close>

definition duration_term :: "(rat \<Rightarrow> rat) \<Rightarrow> string \<Rightarrow> (nat \<times> string) option" where
  "duration_term fl s =
     (let h = takeWhile is_digit s; s = dropWhile is_digit s; v = number h;
          point = (s \<noteq> [] \<and> hd s = CHR ''.'');
          f = (if point then takeWhile is_digit (tl s) else []);
          s = (if point then dropWhile is_digit (tl s) else s);
          u = takeWhile is_unit_char s; s = dropWhile is_unit_char s
      in if h = [] \<and> \<not> point \<or> 2 ^ 63 < v \<or> (h = [] \<and> f = []) \<or> u = [] then None
         else case duration_unit u of
                None \<Rightarrow> None
              | Some unit \<Rightarrow>
                  if 2 ^ 63 div unit < v then None
                  else let (x, scale) = leadingFraction f 0 1 False;
                           v = v * unit + (if 0 < x
                             then nat (go_int (fl (of_nat x * fl (of_nat unit / of_nat scale)))) else 0)
                       in if 2 ^ 63 < v then None else Some (v, s))"

lemma duration_term_shorter: "duration_term fl s = Some (v, t) \<Longrightarrow> length t < length s"
proof -
  assume a: "duration_term fl s = Some (v, t)"
  have le: "length (dropWhile P xs) \<le> length xs" for P and xs :: string by (rule length_dropWhile_le)
  have lt: "takeWhile P xs \<noteq> [] \<Longrightarrow> length (dropWhile P xs) < length xs" for P and xs :: string
    using arg_cong [OF takeWhile_dropWhile_id [of P xs], of length] by (cases "takeWhile P xs") auto
  let ?s1 = "dropWhile is_digit s"
  let ?s2 = "if ?s1 \<noteq> [] \<and> hd ?s1 = CHR ''.'' then dropWhile is_digit (tl ?s1) else ?s1"
  have "t = dropWhile is_unit_char ?s2" "takeWhile is_unit_char ?s2 \<noteq> []"
    using a by (auto simp: duration_term_def Let_def split: if_splits option.splits prod.splits)
  then have "length t < length ?s2" using lt by simp
  also have "length ?s2 \<le> length ?s1" using le [of is_digit "tl ?s1"] by (cases ?s1) auto
  also have "\<dots> \<le> length s" by (rule le)
  finally show ?thesis .
qed

function duration_sum :: "(rat \<Rightarrow> rat) \<Rightarrow> string \<Rightarrow> nat \<Rightarrow> nat option" where
  "duration_sum fl s d =
     (if s = [] then Some d
      else case duration_term fl s of
             None \<Rightarrow> None
           | Some (v, t) \<Rightarrow>
               let d = (d + v) mod 2 ^ 64 in if 2 ^ 63 < d then None else duration_sum fl t d)"
  by pat_completeness auto
termination
  by (relation "measure (\<lambda>(fl, s, d). length s)") (auto intro: duration_term_shorter)

declare duration_sum.simps [simp del]

definition ParseDuration :: "(rat \<Rightarrow> rat) \<Rightarrow> string \<Rightarrow> int option" where
  "ParseDuration fl s =
     (let neg = (s \<noteq> [] \<and> hd s = CHR ''-'');
          s = (if s \<noteq> [] \<and> (hd s = CHR ''-'' \<or> hd s = CHR ''+'') then tl s else s)
      in if s = ''0'' then Some 0
         else if s = [] then None
         else case duration_sum fl s 0 of
                None \<Rightarrow> None
              | Some d \<Rightarrow> if neg then Some (- int d) else if 2 ^ 63 \<le> d then None else Some (int d))"

text \<open>\<^verbatim>\<open>fmtFrac\<close>: the last \<open>prec\<close> digits behind a point, without trailing zeros.\<close>

definition frac_string :: "nat \<Rightarrow> nat \<Rightarrow> string" where
  "frac_string v prec =
     (let ds = map (\<lambda>i. digit_char (v div 10 ^ (prec - 1 - i) mod 10)) [0..<prec];
          ds = rev (dropWhile (\<lambda>c. c = CHR ''0'') (rev ds))
      in if ds = [] then [] else CHR ''.'' # ds)"

definition abs_string :: "nat \<Rightarrow> string" where
  "abs_string u =
     (let part = (\<lambda>prec. digits 10 (u div 10 ^ prec) @ frac_string (u mod 10 ^ prec) prec)
      in if u = 0 then ''0s''
         else if u < 1000 then part 0 @ ''ns''
         else if u < 1000000 then part 3 @ [char_of (0xC2 :: nat), char_of (0xB5 :: nat), CHR ''s'']
         else if u < 1000000000 then part 6 @ ''ms''
         else let sec = u div 10 ^ 9; min = sec div 60; hour = min div 60
              in (if 0 < hour then digits 10 hour @ ''h'' else [])
                 @ (if 0 < min then digits 10 (min mod 60) @ ''m'' else [])
                 @ digits 10 (sec mod 60) @ frac_string (u mod 10 ^ 9) 9 @ ''s'')"

definition Duration_String :: "int \<Rightarrow> string" where
  "Duration_String d = (if d < 0 then CHR ''-'' # abs_string (nat \<bar>d\<bar>) else abs_string (nat \<bar>d\<bar>))"

section \<open>The durations of the configuration\<close>

definition parseDuration :: "(rat \<Rightarrow> rat) \<Rightarrow> string \<Rightarrow> int option" where
  "parseDuration fl s =
     (let s = TrimSpace s
      in if HasSuffix s ''m'' then ParseDuration fl (TrimSuffix s ''m'' @ ''m'')
         else if HasSuffix s ''s'' then ParseDuration fl (TrimSuffix s ''s'' @ ''s'')
         else ParseDuration fl s)"

definition parseSwitchTime :: "(rat \<Rightarrow> rat) \<Rightarrow> string \<Rightarrow> int \<times> int" where
  "parseSwitchTime fl timeRange =
     (case Split timeRange CHR ''-'' of
        [a, b] \<Rightarrow>
          ((case parseDuration fl a of Some d \<Rightarrow> d | None \<Rightarrow> 60 * second),
           (case parseDuration fl b of Some d \<Rightarrow> d | None \<Rightarrow> 300 * second))
      | _ \<Rightarrow> (60 * second, 300 * second))"

section \<open>Lemmas\<close>

lemma number_snoc: "number (s @ [c]) = number s * 10 + digit_value c"
  by (simp add: number_def)

lemma number_zeros: "number (s @ replicate z CHR ''0'') = number s * 10 ^ z"
proof (induction z)
  case (Suc z)
  have "s @ replicate (Suc z) CHR ''0'' = (s @ replicate z CHR ''0'') @ [CHR ''0'']"
    by (simp add: replicate_append_same)
  then show ?case using Suc by (simp add: number_snoc digit_value_def del: append_assoc)
qed simp

definition padded :: "nat \<Rightarrow> nat \<Rightarrow> string" where
  "padded v p = map (\<lambda>i. digit_char (v div 10 ^ (p - 1 - i) mod 10)) [0..<p]"

lemma padded_Suc: "padded v (Suc p) = padded (v div 10) p @ [digit_char (v mod 10)]"
  by (auto simp: padded_def div_mult2_eq [symmetric] Suc_diff_Suc intro!: arg_cong [of _ _ digit_char]
      simp flip: power_Suc)

lemma number_padded: "number (padded v p) = v mod 10 ^ p"
proof (induction p arbitrary: v)
  case (Suc p)
  have "v mod (10 * 10 ^ p) = 10 * (v div 10 mod 10 ^ p) + v mod 10" by (rule mod_mult2_eq)
  then show ?case using Suc by (simp add: padded_Suc number_snoc text_simps)
qed (simp add: padded_def number_def)

lemma padded_digits: "list_all is_digit (padded v p)"
  by (simp add: padded_def list_all_iff text_simps)

text \<open>The printed fraction is the padded number without its trailing zeros.\<close>

lemma trailing_zeros:
  "\<exists>ds z. frac_string v p = (if ds = [] then [] else CHR ''.'' # ds) \<and> padded v p = ds @ replicate z CHR ''0''"
proof -
  let ?r = "rev (padded v p)"
  have "?r = takeWhile (\<lambda>c. c = CHR ''0'') ?r @ dropWhile (\<lambda>c. c = CHR ''0'') ?r" by simp
  moreover have "takeWhile (\<lambda>c. c = CHR ''0'') ?r = replicate (length (takeWhile (\<lambda>c. c = CHR ''0'') ?r)) CHR ''0''"
    by (rule replicate_eqI) (auto dest: set_takeWhileD)
  ultimately have "padded v p = rev (dropWhile (\<lambda>c. c = CHR ''0'') ?r)
      @ replicate (length (takeWhile (\<lambda>c. c = CHR ''0'') ?r)) CHR ''0''"
    by (metis rev_append rev_replicate rev_rev_ident)
  then show ?thesis unfolding frac_string_def padded_def Let_def by blast
qed

lemma leadingFraction_number:
  "list_all is_digit ds \<Longrightarrow> foldl (\<lambda>v c. v * 10 + digit_value c) x ds < 10 ^ 18 \<Longrightarrow>
     leadingFraction ds x scale False = (foldl (\<lambda>v c. v * 10 + digit_value c) x ds, scale * 10 ^ length ds)"
proof (induction ds arbitrary: x scale)
  case (Cons c ds)
  let ?y = "x * 10 + digit_value c"
  have "?y \<le> foldl (\<lambda>v c. v * 10 + digit_value c) ?y ds"
    by (induction ds rule: rev_induct) auto
  then have "?y < 10 ^ 18" using Cons.prems(2) by simp
  then have "\<not> (2 ^ 63 - 1) div 10 < x" "\<not> 2 ^ 63 < ?y" by simp_all
  then have "leadingFraction (c # ds) x scale False = leadingFraction ds ?y (scale * 10) False"
    by (simp add: Let_def)
  then show ?case using Cons.IH [of ?y "scale * 10"] Cons.prems by simp
qed simp

lemma fl_nat: "float_rounding fl \<Longrightarrow> n \<le> 2 ^ 53 \<Longrightarrow> fl (of_nat n) = of_nat n"
  using fl_int [of fl "int n"] by simp

lemma go_int_of_nat: "go_int (of_nat n) = int n"
  using go_int_of_int [of "int n"] by simp

lemma frac_string_zero: "frac_string 0 p = []"
proof -
  have "padded 0 p = replicate p CHR ''0''"
    using digit_char_zero [of 0] by (simp add: padded_def map_replicate_const)
  then show ?thesis unfolding frac_string_def padded_def by (simp add: Let_def dropWhile_replicate)
qed

lemma unit_chars: "list_all is_unit_char u \<Longrightarrow> u \<noteq> [] \<Longrightarrow> \<not> is_digit (hd u) \<and> hd u \<noteq> CHR ''.''"
  by (cases u) (auto simp: is_unit_char_def)

lemma take_digits:
  assumes "list_all is_digit ds" "s = [] \<or> \<not> is_digit (hd s)"
  shows "takeWhile is_digit (ds @ s) = ds" "dropWhile is_digit (ds @ s) = s"
  using assms by (cases s; force simp: list_all_iff takeWhile_append dropWhile_append)+

lemma take_unit:
  assumes "list_all is_unit_char u" "rest = [] \<or> is_digit (hd rest)"
  shows "takeWhile is_unit_char (u @ rest) = u" "dropWhile is_unit_char (u @ rest) = rest"
  using assms by (cases rest; force simp: list_all_iff takeWhile_append dropWhile_append is_unit_char_def)+

lemma fraction_value:
  assumes "float_rounding fl" "list_all is_digit ds" "p \<le> 9" "v < 10 ^ p" "padded v p = ds @ replicate z CHR ''0''"
  shows "leadingFraction ds 0 1 False = (number ds, 10 ^ length ds)"
    and "nat (go_int (fl (of_nat (number ds) * fl (of_nat (10 ^ p) / of_nat (10 ^ length ds))))) = v"
proof -
  have p: "p = length ds + z" using arg_cong [OF assms(5), of length] by (simp add: padded_def)
  have v: "v = number ds * 10 ^ z"
    using arg_cong [OF assms(5), of number] assms(4) by (simp add: number_padded number_zeros)
  have small: "(10 :: nat) ^ p \<le> 10 ^ 9" by (rule power_increasing [OF assms(3)]) simp
  note small
  moreover have "number ds \<le> v" by (simp add: v)
  ultimately have "number ds < 10 ^ 18" using assms(4) by simp
  then show "leadingFraction ds 0 1 False = (number ds, 10 ^ length ds)"
    using leadingFraction_number [OF assms(2), of 0 1] by (simp add: number_def)
  have "(of_nat (10 ^ p) :: rat) / of_nat (10 ^ length ds) = of_nat (10 ^ z)" by (simp add: p power_add)
  moreover have "(10 :: nat) ^ z \<le> 10 ^ p" by (rule power_increasing) (simp_all add: p)
  then have "(10 :: nat) ^ z \<le> 10 ^ 9" using small by (rule order_trans)
  then have "fl (of_nat (10 ^ z)) = of_nat (10 ^ z)" by (intro fl_nat [OF assms(1)]) (erule order_trans, simp)
  moreover have "fl (of_nat v) = of_nat v" using small assms(4) by (intro fl_nat [OF assms(1)]) simp
  ultimately show "nat (go_int (fl (of_nat (number ds) * fl (of_nat (10 ^ p) / of_nat (10 ^ length ds))))) = v"
    using go_int_of_nat [of "number ds * 10 ^ z"] nat_int [of "number ds * 10 ^ z"] by (simp add: v)
qed

lemma duration_term_print:
  assumes "float_rounding fl" "duration_unit u = Some k" "list_all is_unit_char u" "u \<noteq> []"
    and "rest = [] \<or> is_digit (hd rest)" "v = 0 \<or> k = 10 ^ p" "p \<le> 9" "v < 10 ^ p" "n * k + v \<le> 2 ^ 63" "0 < k"
  shows "duration_term fl (digits 10 n @ frac_string v p @ u @ rest) = Some (n * k + v, rest)"
proof -
  have big: "\<not> 2 ^ 63 < n" "\<not> 2 ^ 63 div k < n" "\<not> 2 ^ 63 < n * k + v"
    using assms(9,10) by (auto simp: not_less less_eq_div_iff_mult_less_eq intro: order_trans [of n "n * k"])
  note u = take_unit [OF assms(3,5)] unit_chars [OF assms(3,4)]
  obtain ds z where ds: "frac_string v p = (if ds = [] then [] else CHR ''.'' # ds)"
    "padded v p = ds @ replicate z CHR ''0''" using trailing_zeros by blast
  have dd: "list_all is_digit ds" using padded_digits [of v p] ds(2) by (simp add: list_all_iff)
  show ?thesis
  proof (cases "ds = []")
    case True
    have "number (padded v p) = 0" using number_zeros [of "[]" z] True ds(2) by (simp add: number_def)
    then have "v = 0" using assms(8) by (simp add: number_padded)
    moreover have "takeWhile is_digit (digits 10 n @ u @ rest) = digits 10 n"
      "dropWhile is_digit (digits 10 n @ u @ rest) = u @ rest"
      by (rule take_digits; use u assms(4) digits_facts(2) in simp)+
    ultimately show ?thesis
      using True ds(1) u assms(2,4) digits_facts(1,3) big by (simp add: duration_term_def Let_def)
  next
    case False
    then have k: "k = 10 ^ p" using assms(6) ds(1) frac_string_zero by auto
    have "takeWhile is_digit (digits 10 n @ CHR ''.'' # ds @ u @ rest) = digits 10 n"
      "dropWhile is_digit (digits 10 n @ CHR ''.'' # ds @ u @ rest) = CHR ''.'' # ds @ u @ rest"
      by (rule take_digits; use digits_facts(2) is_digit_not [of "CHR ''.''"] in auto)+
    moreover have "takeWhile is_digit (ds @ u @ rest) = ds" "dropWhile is_digit (ds @ u @ rest) = u @ rest"
      by (rule take_digits; use u assms(4) dd in simp)+
    moreover note fraction_value [OF assms(1) dd assms(7,8) ds(2)]
    moreover have "0 < number ds \<or> v = 0"
      using arg_cong [OF ds(2), of number] assms(8) by (cases "number ds") (simp_all add: number_padded number_zeros)
    ultimately show ?thesis
      using False ds(1) u assms(2,4) digits_facts(1,3) big k by (auto simp: duration_term_def Let_def)
  qed
qed

lemma duration_sum_step:
  "duration_term fl s = Some (v, t) \<Longrightarrow> d + v \<le> 2 ^ 63 \<Longrightarrow> s \<noteq> [] \<Longrightarrow>
     duration_sum fl s d = duration_sum fl t (d + v)"
  by (subst duration_sum.simps) (simp add: Let_def)

lemma duration_sum_Nil: "duration_sum fl [] d = Some d"
  by (subst duration_sum.simps) simp

text \<open>The first number of what \<open>Duration_String\<close> prints starts the string.\<close>

lemma digit_starts: "digits 10 n @ s \<noteq> []" "is_digit (hd (digits 10 n @ s))"
  using digits_facts(1,2) [of n] by (auto simp: list_all_iff)

lemma duration_sum_print:
  assumes "float_rounding fl" "duration_unit u = Some k" "list_all is_unit_char u" "u \<noteq> []"
    and "rest = [] \<or> is_digit (hd rest)" "v = 0 \<or> k = 10 ^ p" "p \<le> 9" "v < 10 ^ p"
    and "d + (n * k + v) \<le> 2 ^ 63" "0 < k"
  shows "duration_sum fl (digits 10 n @ frac_string v p @ u @ rest) d = duration_sum fl rest (d + (n * k + v))"
  by (rule duration_sum_step [OF duration_term_print [OF assms(1-8) _ assms(10)] assms(9)])
    (use assms(9) digit_starts in auto)

lemma micro_chars: "char_of (0xC2 :: nat) \<noteq> CHR ''.''" "char_of (0xB5 :: nat) \<noteq> CHR ''.''"
  by (simp_all flip: of_char_eq_iff [where ?'a = nat])

lemma unit_facts:
  "duration_unit ''ns'' = Some (10 ^ 0)" "duration_unit ''ms'' = Some (10 ^ 6)" "duration_unit ''s'' = Some (10 ^ 9)"
  "duration_unit ''m'' = Some 60000000000" "duration_unit ''h'' = Some 3600000000000"
  "duration_unit [char_of (0xC2 :: nat), char_of (0xB5 :: nat), CHR ''s''] = Some (10 ^ 3)"
  "list_all is_unit_char ''ns''" "list_all is_unit_char ''ms''" "list_all is_unit_char ''s''"
  "list_all is_unit_char ''m''" "list_all is_unit_char ''h''"
  "list_all is_unit_char [char_of (0xC2 :: nat), char_of (0xB5 :: nat), CHR ''s'']"
  using micro_chars by (simp_all add: duration_unit_def is_unit_char_def is_digit_def)

lemma abs_string_zero: "abs_string 0 = digits 10 0 @ frac_string 0 9 @ ''s''"
  using digit_char_zero [of 0] by (simp add: abs_string_def frac_string_zero digits_ten)

lemma sum_whole:
  assumes "float_rounding fl" "duration_unit u = Some k" "list_all is_unit_char u" "u \<noteq> []" "0 < k"
    and "rest = [] \<or> is_digit (hd rest)" "d + n * k \<le> 2 ^ 63"
  shows "duration_sum fl (digits 10 n @ u @ rest) d = duration_sum fl rest (d + n * k)"
  using duration_sum_print [OF assms(1-4,6) _ _ _ _ assms(5), where v = 0 and p = 0 and d = d and n = n] assms(7)
  by (simp add: frac_string_zero)

lemma small_string_sum:
  assumes "float_rounding fl" "duration_unit s = Some (10 ^ p)" "list_all is_unit_char s" "s \<noteq> []" "p \<le> 9" "u \<le> 2 ^ 63"
  shows "duration_sum fl (digits 10 (u div 10 ^ p) @ frac_string (u mod 10 ^ p) p @ s) 0 = Some u"
  using duration_sum_print [OF assms(1-4) _ _ assms(5), where rest = "[]" and v = "u mod 10 ^ p" and d = 0 and n = "u div 10 ^ p"]
    assms(6) by (simp add: duration_sum_Nil div_mult_mod_eq)

lemma abs_string_sum:
  assumes "float_rounding fl" "u \<le> 2 ^ 63"
  shows "duration_sum fl (abs_string u) 0 = Some u"
proof (cases "10 ^ 9 \<le> u")
  case False
  have "duration_sum fl (abs_string 0) 0 = Some 0"
    using small_string_sum [OF assms(1) unit_facts(3,9), of 0] by (simp add: abs_string_zero frac_string_zero)
  then show ?thesis
    using small_string_sum [OF assms(1) unit_facts(1,7) _ _ assms(2)] False
      small_string_sum [OF assms(1) unit_facts(6,12) _ _ assms(2)] small_string_sum [OF assms(1) unit_facts(2,8) _ _ assms(2)]
    by (cases "u = 0") (auto simp: abs_string_def Let_def)
next
  case True
  define sec where "sec = u div 10 ^ 9"
  define min where "min = sec div 60"
  define hour where "hour = min div 60"
  have u: "u = sec * 1000000000 + u mod 1000000000" "sec = min * 60 + sec mod 60" "min = hour * 60 + min mod 60"
    by (simp_all add: sec_def min_def hour_def)
  let ?s = "digits 10 (sec mod 60) @ frac_string (u mod 10 ^ 9) 9 @ ''s''"
  let ?m = "if 0 < min then digits 10 (min mod 60) @ ''m'' @ ?s else ?s"
  have s: "duration_sum fl ?s d = Some (d + (sec mod 60 * 10 ^ 9 + u mod 10 ^ 9))"
    if "d + (sec mod 60 * 10 ^ 9 + u mod 10 ^ 9) \<le> 2 ^ 63" for d
    using duration_sum_print [OF assms(1) unit_facts(3,9) _ _ _ _ _ that, where rest = "[]" and p = 9]
    by (simp add: duration_sum_Nil)
  have m: "duration_sum fl ?m d = Some (d + (min mod 60 * 60000000000 + (sec mod 60 * 10 ^ 9 + u mod 10 ^ 9)))"
    if d: "d + (min mod 60 * 60000000000 + (sec mod 60 * 10 ^ 9 + u mod 10 ^ 9)) \<le> 2 ^ 63" for d
    using sum_whole [OF assms(1) unit_facts(4,10), where rest = ?s and d = d and n = "min mod 60"]
      s [of "d + min mod 60 * 60000000000"] s [of d] d digit_starts by (cases "0 < min") simp_all
  have total: "hour * 3600000000000 + (min mod 60 * 60000000000 + (sec mod 60 * 1000000000 + u mod 1000000000)) = u"
    using u by linarith
  have "abs_string u = (if 0 < hour then digits 10 hour @ ''h'' @ ?m else ?m)"
    using True by (auto simp: abs_string_def Let_def sec_def min_def hour_def)
  moreover have "is_digit (hd ?m)" "?m \<noteq> []" using digit_starts by auto
  ultimately show ?thesis
    using sum_whole [OF assms(1) unit_facts(5,11), where rest = ?m and d = 0 and n = hour] m [of 0] m [of "hour * 3600000000000"]
      total assms(2) by (cases "0 < hour") simp_all
qed

lemma abs_string_head: "abs_string u \<noteq> []" "is_digit (hd (abs_string u))" "length (abs_string u) \<noteq> 1"
proof -
  have digits: "\<exists>n s. digits 10 m @ X = digits 10 n @ s \<and> s \<noteq> []" if "X \<noteq> []" for m X using that by blast
  have "\<exists>n s. abs_string u = digits 10 n @ s \<and> s \<noteq> []"
  proof (cases "u = 0")
    case True
    then have "abs_string u = digits 10 0 @ ''s''" by (simp add: abs_string_zero frac_string_zero)
    then show ?thesis by blast
  next
    case False
    then show ?thesis by (auto simp: abs_string_def Let_def intro!: digits)
  qed
  then obtain n s where "abs_string u = digits 10 n @ s" "s \<noteq> []" by blast
  then show "abs_string u \<noteq> []" "is_digit (hd (abs_string u))" "length (abs_string u) \<noteq> 1"
    using digit_starts [of n s] digits_facts(1) [of n] by (cases "digits 10 n"; cases s; simp)+
qed

lemma ParseDuration_String:
  assumes "float_rounding fl" "- (2 ^ 63) \<le> d" "d < 2 ^ 63"
  shows "ParseDuration fl (Duration_String d) = Some d"
proof -
  let ?s = "abs_string (nat \<bar>d\<bar>)"
  have "duration_sum fl ?s 0 = Some (nat \<bar>d\<bar>)" using assms(2,3) by (intro abs_string_sum [OF assms(1)]) simp
  moreover have "hd ?s \<noteq> CHR ''-''" "hd ?s \<noteq> CHR ''+''" "?s \<noteq> ''0''"
    using abs_string_head [of "nat \<bar>d\<bar>"] by (auto simp: is_digit_def)
  ultimately show ?thesis
    using assms(2,3) abs_string_head(1) [of "nat \<bar>d\<bar>"] by (auto simp: ParseDuration_def Duration_String_def Let_def)
qed

subsection \<open>The switch time\<close>

lemma unit_end: "HasSuffix (t @ ''s'') ''m'' = False" "HasSuffix (t @ ''s'') ''s'' = True"
  "TrimSuffix (t @ ''s'') ''s'' = t"
  by (simp_all add: HasSuffix_def HasPrefix_def TrimSuffix_def)

lemma abs_string_end: "\<exists>t. abs_string u = t @ ''s''"
proof -
  have "\<exists>t. x @ y @ ''ns'' = t @ ''s''" "\<exists>t. x @ y @ ''ms'' = t @ ''s''"
    "\<exists>t. x @ y @ [a, b, CHR ''s''] = t @ ''s''" "\<exists>t. x @ y @ z @ w @ ''s'' = t @ ''s''" for x y z w and a b
    by (metis append_assoc append_Cons append_Nil)+
  then show ?thesis unfolding abs_string_def Let_def by auto
qed

lemma frac_string_chars: "c \<in> set (frac_string v p) \<Longrightarrow> is_digit c \<or> c = CHR ''.''"
proof -
  obtain ds z where ds: "frac_string v p = (if ds = [] then [] else CHR ''.'' # ds)"
    "padded v p = ds @ replicate z CHR ''0''" using trailing_zeros by blast
  then have "list_all is_digit ds" using padded_digits [of v p] by simp
  then show "c \<in> set (frac_string v p) \<Longrightarrow> ?thesis" using ds(1) by (auto simp: list_all_iff split: if_splits)
qed

lemma abs_string_no_minus: "CHR ''-'' \<notin> set (abs_string u)"
proof -
  have "CHR ''-'' \<notin> set (digits 10 n)" "CHR ''-'' \<notin> set (frac_string v p)" for n v p
    using digits_not [of "CHR ''-''"] frac_string_chars [of "CHR ''-''"] by (auto simp: is_digit_def)
  moreover have "char_of (0xC2 :: nat) \<noteq> CHR ''-''" "char_of (0xB5 :: nat) \<noteq> CHR ''-''"
    by (simp_all flip: of_char_eq_iff [where ?'a = nat])
  ultimately show ?thesis by (auto simp: abs_string_def Let_def)
qed

lemma TrimSpace_id:
  assumes "s \<noteq> []" "\<not> is_space (hd s)" "\<not> is_space (last s)"
  shows "TrimSpace s = s"
proof -
  have "dropWhile is_space s = s" "dropWhile is_space (rev s) = rev s"
    using assms by (simp_all add: dropWhile_eq_self_iff hd_rev)
  then show ?thesis by (simp add: TrimSpace_def)
qed

lemma parseDuration_abs:
  assumes "float_rounding fl" "u < 2 ^ 63"
  shows "parseDuration fl (abs_string u) = Some (int u)"
proof -
  obtain t where t: "abs_string u = t @ ''s''" using abs_string_end by blast
  have "TrimSpace (abs_string u) = abs_string u"
    using abs_string_head [of u] t by (intro TrimSpace_id) (auto simp: is_space_def is_digit_def)
  moreover have "ParseDuration fl (abs_string u) = Some (int u)"
    using ParseDuration_String [OF assms(1), of "int u"] assms(2) by (simp add: Duration_String_def)
  ultimately show ?thesis using t unit_end [of t] by (simp add: parseDuration_def)
qed

lemma parseSwitchTime_print:
  assumes "float_rounding fl" "0 \<le> a" "a < 2 ^ 63" "0 \<le> b" "b < 2 ^ 63"
  shows "parseSwitchTime fl (Duration_String a @ ''-'' @ Duration_String b) = (a, b)"
proof -
  let ?a = "abs_string (nat a)" and ?b = "abs_string (nat b)"
  have "Split (?a @ CHR ''-'' # ?b) CHR ''-'' = [?a, ?b]"
    using Split_append [OF abs_string_no_minus] Split_single [OF abs_string_no_minus] by simp
  then show ?thesis
    using assms parseDuration_abs [OF assms(1), of "nat a"] parseDuration_abs [OF assms(1), of "nat b"]
    by (simp add: parseSwitchTime_def Duration_String_def)
qed

section \<open>Properties\<close>

text \<open>C32. A switch interval survives its text: \<^verbatim>\<open>parseSwitchTime\<close> reads back the two durations that
  \<^verbatim>\<open>%s-%s\<close> prints, to the nanosecond, whatever their size and units, and through the
  floating-point arithmetic of \<^verbatim>\<open>time.ParseDuration\<close>. A negative duration does not: its sign
  splits the text into too many parts, and the defaults are taken for both.\<close>

theorem switch_time_roundtrip:
  assumes "float_rounding fl" "0 \<le> b" "b < 2 ^ 63" "a < 2 ^ 63"
  shows "parseSwitchTime fl (Duration_String a @ ''-'' @ Duration_String b)
    = (if 0 \<le> a then (a, b) else (60 * second, 300 * second))"
proof (cases "0 \<le> a")
  case False
  let ?a = "abs_string (nat (- a))" and ?b = "abs_string (nat b)"
  have "Split (CHR ''-'' # ?a @ CHR ''-'' # ?b) CHR ''-'' = [[], ?a, ?b]"
    using Split_append [OF abs_string_no_minus] Split_single [OF abs_string_no_minus] by simp
  then show ?thesis using False assms(2) by (simp add: parseSwitchTime_def Duration_String_def)
qed (use parseSwitchTime_print [OF assms(1) _ assms(4,2,3)] in simp)

theorem switch_time_roundtrip_witness:
  "parseSwitchTime (\<lambda>r. r) (Duration_String 1500000000 @ ''-'' @ Duration_String 300000000000)
     = (1500000000, 300000000000)"
  using switch_time_roundtrip [of "\<lambda>r. r" 300000000000 1500000000] by simp

end
