(* ===== verification/Config.thy ===== *)
theory Config
  imports Duration
begin

text \<open>
  The configuration (\<^verbatim>\<open>pkg/config/config.go\<close>): its types, the defaults, and the two loaders. What
  reading and unmarshalling the file gives, a \<^verbatim>\<open>clientYAMLConfig\<close> or an error, is an argument.
  An \<^verbatim>\<open>int\<close> is 64 bits wide and only compared and copied here.
\<close>

section \<open>Types\<close>

record DomainEntry =
  Domain :: string
  Preset :: string

record ProxyConfig =
  proxy_type :: string
  proxy_port :: int

record ClientSettings =
  SwitchTimeRangeStr :: string
  set_SwitchMin :: int
  set_SwitchMax :: int
  set_Randomize :: bool

record RoutingRule =
  rr_type :: string
  rr_value :: string
  rr_policy :: string

record RoutingConfig =
  DefaultPolicy :: string
  Rules :: "RoutingRule list"

record RangeInt =
  Min :: int
  Max :: int

record CustomTrafficPattern =
  pat_type :: string
  pat_duration :: string
  pat_interval :: string

record CustomPresetConfig =
  cp_name :: string
  cp_type :: string
  cp_packet_size :: RangeInt
  cp_packets_per_second :: RangeInt
  cp_ratio :: rat
  cp_session :: string
  cp_patterns :: "CustomTrafficPattern list"

record AndroidConfig =
  EnableTUN :: bool
  TUNFD :: int
  MTU :: int
  UseProtectedSockets :: bool

record CompressionSettings =
  Enable :: bool
  Level :: int
  comp_MinSize :: int

record BufferConfig =
  RelayBufferSize :: int
  ReadBufferSize :: int
  EnableOptimizedBuffers :: bool

record WebSocketSettings =
  ws_Path :: string
  ws_Host :: string
  ws_TLS :: bool

record ClientConfig =
  Server :: string
  UUID :: string
  Domains :: "DomainEntry list"
  Transport :: string
  Proxies :: "ProxyConfig list"
  DNS :: string
  Settings :: ClientSettings
  Routing_cfg :: RoutingConfig
  ServerName :: string
  LocalPort :: int
  Android :: AndroidConfig
  Compression_set :: CompressionSettings
  CustomPresets :: "(string, CustomPresetConfig) gomap"
  WebSocket :: WebSocketSettings
  Buffer :: BufferConfig

record ServerConfig =
  Port :: int
  MaxClients :: int
  srv_UUID :: string
  DomainList :: "DomainEntry list"
  srv_Transport :: string
  srv_DNS :: string
  srv_Name :: string
  srv_Compression :: CompressionSettings
  srv_WebSocket :: WebSocketSettings
  srv_Buffer :: BufferConfig

definition DefaultCompressionConfig :: CompressionSettings where
  "DefaultCompressionConfig = \<lparr> Enable = False, Level = 2, comp_MinSize = 64 \<rparr>"

definition DefaultBufferConfig :: BufferConfig where
  "DefaultBufferConfig = \<lparr> RelayBufferSize = 4 * 1024 * 1024, ReadBufferSize = 1 * 1024 * 1024,
     EnableOptimizedBuffers = True \<rparr>"

definition DefaultWebSocketConfig :: WebSocketSettings where
  "DefaultWebSocketConfig = \<lparr> ws_Path = ''/ws'', ws_Host = [], ws_TLS = False \<rparr>"

text \<open>The zero values of Go.\<close>

definition no_settings :: ClientSettings where
  "no_settings = \<lparr> SwitchTimeRangeStr = [], set_SwitchMin = 0, set_SwitchMax = 0, set_Randomize = False \<rparr>"

definition no_routing :: RoutingConfig where
  "no_routing = \<lparr> DefaultPolicy = [], Rules = [] \<rparr>"

definition no_android :: AndroidConfig where
  "no_android = \<lparr> EnableTUN = False, TUNFD = 0, MTU = 0, UseProtectedSockets = False \<rparr>"

definition no_compression :: CompressionSettings where
  "no_compression = \<lparr> Enable = False, Level = 0, comp_MinSize = 0 \<rparr>"

definition no_buffer :: BufferConfig where
  "no_buffer = \<lparr> RelayBufferSize = 0, ReadBufferSize = 0, EnableOptimizedBuffers = False \<rparr>"

definition no_websocket :: WebSocketSettings where
  "no_websocket = \<lparr> ws_Path = [], ws_Host = [], ws_TLS = False \<rparr>"

definition no_client :: ClientConfig where
  "no_client = \<lparr> Server = [], UUID = [], Domains = [], Transport = [], Proxies = [], DNS = [],
     Settings = no_settings, Routing_cfg = no_routing, ServerName = [], LocalPort = 0, Android = no_android,
     Compression_set = no_compression, CustomPresets = [], WebSocket = no_websocket, Buffer = no_buffer \<rparr>"

section \<open>The parsed files\<close>

record yamlPreset =
  yp_name :: string
  yp_type :: string
  yp_size_min :: int
  yp_size_max :: int
  yp_pps_min :: int
  yp_pps_max :: int
  yp_ratio :: rat
  yp_session :: string
  yp_patterns :: "CustomTrafficPattern list"

record clientYAMLConfig =
  y_server :: string
  y_uuid :: string
  y_transport :: string
  y_local_port :: int
  y_dns :: string
  y_domains :: "DomainEntry list"
  y_proxies :: "ProxyConfig list"
  y_switch_time :: string
  y_randomize :: bool
  y_default_policy :: string
  y_rules :: "RoutingRule list"
  y_enable_tun :: bool
  y_use_protected_sockets :: bool
  y_mtu :: int
  y_compression :: CompressionSettings
  y_websocket :: WebSocketSettings
  y_buffer :: BufferConfig
  y_custom_presets :: "(string, yamlPreset) gomap"

record serverYAMLConfig =
  ys_port :: int
  ys_uuid :: string
  ys_transport :: string
  ys_dns :: string
  ys_max_clients :: int
  ys_domain_list :: "DomainEntry list"
  ys_name :: string
  ys_compression :: CompressionSettings
  ys_websocket :: WebSocketSettings
  ys_buffer :: BufferConfig

section \<open>Loading\<close>

definition load_compression :: "CompressionSettings \<Rightarrow> CompressionSettings" where
  "load_compression y =
     (let c = DefaultCompressionConfig;
          c = (if Level y > 0 then c\<lparr>Level := Level y\<rparr> else c);
          c = (if comp_MinSize y > 0 then c\<lparr>comp_MinSize := comp_MinSize y\<rparr> else c)
      in c\<lparr>Enable := Enable y\<rparr>)"

definition load_buffer :: "BufferConfig \<Rightarrow> BufferConfig" where
  "load_buffer y =
     (let b = DefaultBufferConfig;
          b = (if RelayBufferSize y > 0 then b\<lparr>RelayBufferSize := RelayBufferSize y\<rparr> else b);
          b = (if ReadBufferSize y > 0 then b\<lparr>ReadBufferSize := ReadBufferSize y\<rparr> else b)
      in b\<lparr>EnableOptimizedBuffers := EnableOptimizedBuffers y\<rparr>)"

definition load_websocket :: "WebSocketSettings \<Rightarrow> WebSocketSettings" where
  "load_websocket y =
     (let w = DefaultWebSocketConfig;
          w = (if ws_Path y \<noteq> [] then w\<lparr>ws_Path := ws_Path y\<rparr> else w);
          w = (if ws_Host y \<noteq> [] then w\<lparr>ws_Host := ws_Host y\<rparr> else w)
      in w\<lparr>ws_TLS := ws_TLS y\<rparr>)"

definition load_preset :: "yamlPreset \<Rightarrow> CustomPresetConfig" where
  "load_preset p =
     \<lparr> cp_name = yp_name p, cp_type = yp_type p,
       cp_packet_size = \<lparr> Min = yp_size_min p, Max = yp_size_max p \<rparr>,
       cp_packets_per_second = \<lparr> Min = yp_pps_min p, Max = yp_pps_max p \<rparr>,
       cp_ratio = yp_ratio p, cp_session = yp_session p, cp_patterns = yp_patterns p \<rparr>"

text \<open>\<open>None\<close> would be the index of an empty \<^verbatim>\<open>cfg.Proxies\<close> out of range.\<close>

definition default_proxy_port :: "ProxyConfig list \<Rightarrow> ProxyConfig list option" where
  "default_proxy_port ps =
     (case ps of
        [] \<Rightarrow> None
      | p # rest \<Rightarrow> Some (if proxy_port p = 0 then p\<lparr>proxy_port := 1080\<rparr> # rest else ps))"

definition LoadClientConfig :: "(rat \<Rightarrow> rat) \<Rightarrow> ('e + clientYAMLConfig) \<Rightarrow> ('e + ClientConfig) option" where
  "LoadClientConfig fl parsed =
     (case parsed of
        Inl e \<Rightarrow> Some (Inl e)
      | Inr y \<Rightarrow>
          let settings = no_settings\<lparr> SwitchTimeRangeStr := y_switch_time y, set_Randomize := y_randomize y \<rparr>;
              proxies = (if y_proxies y \<noteq> [] then y_proxies y
                         else [\<lparr> proxy_type = ''socks5'', proxy_port = 1080 \<rparr>]);
              policy = (if y_default_policy y \<noteq> [] then y_default_policy y else ''proxy'')
          in (case default_proxy_port proxies of
                None \<Rightarrow> None
              | Some proxies \<Rightarrow>
                  let settings = (if y_switch_time y \<noteq> []
                        then (case parseSwitchTime fl (y_switch_time y) of
                                (lo, hi) \<Rightarrow> settings\<lparr>set_SwitchMin := lo, set_SwitchMax := hi\<rparr>)
                        else settings)
                  in Some (Inr \<lparr> Server = y_server y, UUID = y_uuid y, Domains = y_domains y,
                       Transport = (if y_transport y = [] then ''mtp'' else y_transport y),
                       Proxies = proxies, DNS = y_dns y, Settings = settings,
                       Routing_cfg = \<lparr> DefaultPolicy = policy, Rules = y_rules y \<rparr>,
                       ServerName = [],
                       LocalPort = (if y_local_port y = 0 then 1080 else y_local_port y),
                       Android = \<lparr> EnableTUN = y_enable_tun y, TUNFD = 0,
                         MTU = (if y_mtu y \<le> 0 then 1500 else y_mtu y),
                         UseProtectedSockets = y_use_protected_sockets y \<rparr>,
                       Compression_set = load_compression (y_compression y),
                       CustomPresets = map (apsnd load_preset) (y_custom_presets y),
                       WebSocket = load_websocket (y_websocket y),
                       Buffer = load_buffer (y_buffer y) \<rparr>)))"

definition LoadServerConfig :: "('e + serverYAMLConfig) \<Rightarrow> 'e + ServerConfig" where
  "LoadServerConfig parsed =
     (case parsed of
        Inl e \<Rightarrow> Inl e
      | Inr y \<Rightarrow>
          Inr \<lparr> Port = (if ys_port y = 0 then 8080 else ys_port y),
                MaxClients = (if ys_max_clients y = 0 then 100 else ys_max_clients y),
                srv_UUID = ys_uuid y, DomainList = ys_domain_list y,
                srv_Transport = (if ys_transport y = [] then ''mtp'' else ys_transport y),
                srv_DNS = ys_dns y, srv_Name = ys_name y,
                srv_Compression = load_compression (ys_compression y),
                srv_WebSocket = load_websocket (ys_websocket y),
                srv_Buffer = load_buffer (ys_buffer y) \<rparr>)"

section \<open>Properties\<close>

text \<open>What the rest of the client takes for granted of a loaded configuration.\<close>

definition client_config_wf :: "ClientConfig \<Rightarrow> bool" where
  "client_config_wf cfg \<longleftrightarrow>
     Transport cfg \<noteq> [] \<and> Proxies cfg \<noteq> [] \<and> proxy_port (hd (Proxies cfg)) \<noteq> 0 \<and> LocalPort cfg \<noteq> 0
     \<and> DefaultPolicy (Routing_cfg cfg) \<noteq> [] \<and> 0 < MTU (Android cfg)
     \<and> 0 < Level (Compression_set cfg) \<and> 0 < comp_MinSize (Compression_set cfg)
     \<and> 0 < RelayBufferSize (Buffer cfg) \<and> 0 < ReadBufferSize (Buffer cfg) \<and> ws_Path (WebSocket cfg) \<noteq> []"


end
