(* ===== verification/Socks.thy ===== *)
theory Socks
  imports Routing Config
begin

text \<open>
  The local SOCKS5 proxy (\<^verbatim>\<open>pkg/proxy/socks5.go\<close> and \<^verbatim>\<open>udp.go\<close>). A connection is handled as a
  function from what the client, the dialler and the yamux stream do to the list of what the
  handler does in turn. The UDP relay keeps the receive buffer that its goroutines share.
\<close>

section \<open>Addresses\<close>

text \<open>\<^verbatim>\<open>IP.String\<close>: dotted where \<^verbatim>\<open>To4\<close> is possible, else the groups of IPv6 with the longest run of
  zeros (of two or more, the first one) left out.\<close>

fun groups :: "bytes \<Rightarrow> nat list" where
  "groups (a # b # ip) = (unat a * 256 + unat b) # groups ip"
| "groups _ = []"

definition zero_run :: "nat list \<Rightarrow> nat \<times> nat" where
  "zero_run gs = foldl (\<lambda>(s, e) i. let l = length (takeWhile (\<lambda>g. g = 0) (drop i gs))
     in if 2 \<le> l \<and> e - s < l then (i, i + l) else (s, e)) (255, 255) [0..<length gs]"

definition ipv6_string :: "bytes \<Rightarrow> string" where
  "ipv6_string ip =
     (let gs = groups ip; (s, e) = zero_run gs; hex = map (digits 16)
      in if s = 255 then Join (hex gs) '':''
         else Join (hex (take s gs)) '':'' @ ''::'' @ Join (hex (drop e gs)) '':'')"

definition ip_string :: "bytes \<Rightarrow> string" where
  "ip_string ip = (case To4 ip of Some q \<Rightarrow> ipv4_string q | None \<Rightarrow> ipv6_string ip)"

definition port_at :: "nat \<Rightarrow> bytes \<Rightarrow> string" where
  "port_at i buf = digits 10 (unat (get_be16 (drop i buf)))"

section \<open>The server\<close>

definition socks5RelayBufferSize :: int where
  "socks5RelayBufferSize = 128 * 1024"

record Stats =
  BytesUp :: int
  BytesDown :: int
  ActiveConns :: int
  TotalConns :: int

record SOCKS5Server =
  router :: "Router option"
  bufferConfig :: "BufferConfig option"

definition relay_buffer :: "BufferConfig option \<Rightarrow> int" where
  "relay_buffer cfg =
     (case cfg of
        Some b \<Rightarrow> if EnableOptimizedBuffers b then RelayBufferSize b else socks5RelayBufferSize
      | None \<Rightarrow> socks5RelayBufferSize)"

text \<open>The counters: one accepted connection, one that ends, and a write of \<^verbatim>\<open>trackingWriter\<close>.\<close>

definition accepted :: "Stats \<Rightarrow> Stats" where
  "accepted s = s\<lparr>TotalConns := TotalConns s + 1, ActiveConns := ActiveConns s + 1\<rparr>"

definition finished :: "Stats \<Rightarrow> Stats" where
  "finished s = s\<lparr>ActiveConns := ActiveConns s - 1\<rparr>"

definition tracking_Write :: "int \<Rightarrow> int \<Rightarrow> int" where
  "tracking_Write n counter = (if n > 0 then counter + n else counter)"

section \<open>One connection\<close>

datatype socks_step =
  ToClient bytes | Dial string | Open | ToStream bytes | CloseStream | Relay int | UdpAssociate

datatype stream_open = Opened | OpenFailed | OpenTimeout

record socks_env =
  greeting :: "bytes option" \<comment> \<open>None: the read fails\<close>
  method_ok :: bool
  request :: "bytes option"
  dial_ok :: bool
  stream_result :: stream_open
  header_ok :: bool
  response :: "u8 option"
  udp_port :: "u16 option" \<comment> \<open>of the local socket; None: it cannot be bound\<close>
  reply_ok :: bool

definition socks_reply :: "u8 \<Rightarrow> bytes" where
  "socks_reply code = [5, code, 0, 1, 0, 0, 0, 0, 0, 0]"

text \<open>Stream type, length of the address in one byte, address.\<close>

definition proxy_header :: "string \<Rightarrow> bytes" where
  "proxy_header addr = [1, of_nat (length addr)] @ bytes_of_string addr"

text \<open>\<open>UdpAssociate\<close> is the loop of \<^verbatim>\<open>relayUDP\<close>, below.\<close>

definition handleUDPAssociate :: "socks_env \<Rightarrow> socks_step list" where
  "handleUDPAssociate env =
     (case udp_port env of
        None \<Rightarrow> [ToClient (socks_reply 1)]
      | Some p \<Rightarrow> ToClient ([5, 0, 0, 1, 127, 0, 0, 1] @ put_be16 p) # (if reply_ok env then [UdpAssociate] else []))"

datatype parsed_target = Malformed | Unsupported | Target string

definition socks_target :: "bytes \<Rightarrow> nat \<Rightarrow> parsed_target" where
  "socks_target buf n =
     (let t = buf ! 3
      in if t = 1 then
           (if n < 10 then Malformed
            else Target (ipv4_string (take 4 (drop 4 buf)) @ '':'' @ port_at 8 buf))
         else if t = 3 then
           (let l = unat (buf ! 4)
            in if n < 5 + l + 2 then Malformed
               else Target (string_of_bytes (take l (drop 5 buf)) @ '':'' @ port_at (5 + l) buf))
         else if t = 4 then
           (if n < 22 then Malformed
            else Target (''['' @ ip_string (take 16 (drop 4 buf)) @ '']:'' @ port_at 20 buf))
         else Unsupported)"

definition connect :: "SOCKS5Server \<Rightarrow> socks_env \<Rightarrow> string \<Rightarrow> socks_step list" where
  "connect srv env addr =
     (let policy = (case router srv of None \<Rightarrow> Proxy | Some r \<Rightarrow> Route r addr)
      in if policy = Block then [ToClient (socks_reply 2)]
         else if policy = Direct then
           Dial addr # (if dial_ok env then [ToClient (socks_reply 0), Relay (relay_buffer (bufferConfig srv))]
                        else [ToClient (socks_reply 5)])
         else Open #
           (if stream_result env \<noteq> Opened then [ToClient (socks_reply 5)]
            else ToStream (proxy_header addr) #
              (if \<not> header_ok env then [CloseStream, ToClient (socks_reply 5)]
               else if response env \<noteq> Some 1 then [CloseStream, ToClient (socks_reply 4)]
               else [ToClient (socks_reply 0), Relay (relay_buffer (bufferConfig srv))])))"

definition handleConn :: "SOCKS5Server \<Rightarrow> socks_env \<Rightarrow> socks_step list" where
  "handleConn srv env =
     (case greeting env of
        None \<Rightarrow> []
      | Some g \<Rightarrow>
          let buf = go_copy (replicate 258 0) g; n = min 258 (length g)
          in if n < 2 \<or> buf ! 0 \<noteq> 5 then []
             else ToClient [5, 0] #
               (if \<not> method_ok env then []
                else case request env of
                       None \<Rightarrow> []
                     | Some r \<Rightarrow>
                         let buf = go_copy buf r; n = min 258 (length r)
                         in if n < 7 then []
                            else if buf ! 0 \<noteq> 5 \<or> (buf ! 1 \<noteq> 1 \<and> buf ! 1 \<noteq> 3) then [ToClient (socks_reply 7)]
                            else (case socks_target buf n of
                                    Malformed \<Rightarrow> []
                                  | Unsupported \<Rightarrow> [ToClient (socks_reply 8)]
                                  | Target addr \<Rightarrow> if buf ! 1 = 3 then handleUDPAssociate env else connect srv env addr)))"

section \<open>The UDP relay\<close>

text \<open>The target of a datagram in the buffer and the length of its header; \<open>None\<close> where it is dropped.\<close>

definition udp_target :: "bytes \<Rightarrow> nat \<Rightarrow> (string \<times> nat) option" where
  "udp_target buf n =
     (if n < 10 \<or> buf ! 2 \<noteq> 0 then None
      else let t = buf ! 3
           in if t = 1 then Some (ipv4_string (take 4 (drop 4 buf)) @ '':'' @ port_at 8 buf, 10)
              else if t = 3 then
                (let l = unat (buf ! 4)
                 in if n < 5 + l + 2 then None
                    else Some (string_of_bytes (take l (drop 5 buf)) @ '':'' @ port_at (5 + l) buf, 5 + l + 2))
              else if t = 4 then
                (if n < 22 then None
                 else Some (''['' @ ip_string (take 16 (drop 4 buf)) @ '']:'' @ port_at 20 buf, 22))
              else None)"

text \<open>A goroutine keeps slices of the buffer, not their bytes: the header's length and the end.\<close>

record udp_job =
  job_target :: string
  job_header :: nat
  job_end :: nat
  job_direct :: bool

record udp_relay =
  udp_buf :: bytes
  jobs :: "udp_job list"

definition udp_init :: udp_relay where
  "udp_init = \<lparr> udp_buf = replicate 65535 0, jobs = [] \<rparr>"

text \<open>One turn of \<^verbatim>\<open>relayUDP\<close>.\<close>

definition relayUDP :: "Router option \<Rightarrow> bytes \<Rightarrow> udp_relay \<Rightarrow> udp_relay" where
  "relayUDP rt data s =
     (let buf = go_copy (udp_buf s) data; n = min 65535 (length data); s = s\<lparr>udp_buf := buf\<rparr>
      in case udp_target buf n of
           None \<Rightarrow> s
         | Some (addr, hl) \<Rightarrow>
             let policy = (case rt of None \<Rightarrow> Proxy | Some r \<Rightarrow> Route r addr)
             in if policy = Block then s
                else s\<lparr>jobs := jobs s @ [\<lparr> job_target = addr, job_header = hl, job_end = n,
                                          job_direct = (policy = Direct) \<rparr>]\<rparr>)"

text \<open>\<^verbatim>\<open>relayUDPProxy\<close> of one job: what it writes to the stream, and with the reply what it sends to the
  client; appending to the header writes into the buffer while that is long enough.\<close>

definition payload_of :: "udp_job \<Rightarrow> udp_relay \<Rightarrow> bytes" where
  "payload_of j s = take (job_end j - job_header j) (drop (job_header j) (udp_buf s))"

definition relayUDPProxy_frame :: "udp_job \<Rightarrow> udp_relay \<Rightarrow> bytes" where
  "relayUDPProxy_frame j s =
     [3, of_nat (length (job_target j))] @ bytes_of_string (job_target j)
     @ put_be16 (of_nat (length (payload_of j s))) @ payload_of j s"

definition relay_reply :: "udp_job \<Rightarrow> bytes \<Rightarrow> udp_relay \<Rightarrow> bytes \<times> udp_relay" where
  "relay_reply j resp s =
     (let reply = take (job_header j) (udp_buf s) @ resp
      in (reply, if length reply \<le> 65535 then s\<lparr>udp_buf := go_copy (udp_buf s) reply\<rparr> else s))"

definition relayUDPDirect_payload :: "udp_job \<Rightarrow> udp_relay \<Rightarrow> bytes" where
  "relayUDPDirect_payload j s = payload_of j s"

end
