(* ===== verification/Server.thy ===== *)
theory Server
  imports Socks
begin

text \<open>
  The streams of the server (\<^verbatim>\<open>cmd/server/main.go\<close>): what \<^verbatim>\<open>handleStream\<close> does with the bytes a
  client sends on a yamux stream. The answers of the dialler and of the target are arguments.
\<close>

section \<open>Streams\<close>

datatype server_step =
  DialTCP string | DialUDP string | SendTarget bytes | ToPeer bytes | RelayRest bytes

record server_env =
  tcp_ok :: bool
  udp_ok :: bool \<comment> \<open>resolved and dialled\<close>
  udp_write_ok :: bool
  udp_response :: "bytes option"

text \<open>\<^verbatim>\<open>io.ReadFull\<close>: the bytes and the rest of the stream; \<open>None\<close> when it ends before.\<close>

definition ReadFull :: "nat \<Rightarrow> bytes \<Rightarrow> (bytes \<times> bytes) option" where
  "ReadFull n s = (if length s < n then None else Some (take n s, drop n s))"

text \<open>The address both handlers read first.\<close>

definition read_address :: "bytes \<Rightarrow> (string \<times> bytes) option" where
  "read_address s =
     (case ReadFull 1 s of
        None \<Rightarrow> None
      | Some (h, s) \<Rightarrow>
          let addrLen = unat (hd h)
          in if addrLen = 0 \<or> 253 < addrLen then None
             else case ReadFull addrLen s of None \<Rightarrow> None | Some (a, s) \<Rightarrow> Some (string_of_bytes a, s))"

definition handleProxyStream :: "server_env \<Rightarrow> bytes \<Rightarrow> server_step list" where
  "handleProxyStream env s =
     (case read_address s of
        None \<Rightarrow> []
      | Some (addr, rest) \<Rightarrow>
          DialTCP addr # (if tcp_ok env then [ToPeer [1], RelayRest rest] else [ToPeer [0]]))"

definition handleUDPStream :: "server_env \<Rightarrow> bytes \<Rightarrow> server_step list" where
  "handleUDPStream env s =
     (case read_address s of
        None \<Rightarrow> []
      | Some (addr, s) \<Rightarrow>
          (case ReadFull 2 s of
             None \<Rightarrow> []
           | Some (l, s) \<Rightarrow>
               (case ReadFull (unat (get_be16 l)) s of
                  None \<Rightarrow> []
                | Some (data, _) \<Rightarrow>
                    DialUDP addr #
                    (if \<not> udp_ok env then []
                     else SendTarget data #
                       (if \<not> udp_write_ok env then []
                        else case udp_response env of
                               None \<Rightarrow> []
                             | Some r \<Rightarrow> [ToPeer (put_be16 (of_nat (length r))), ToPeer r])))))"

text \<open>The echo of mimic traffic, in reads of at most 4096 bytes.\<close>

definition handleMimicStream :: "bytes list \<Rightarrow> server_step list" where
  "handleMimicStream reads = map ToPeer reads"

definition handleStream :: "server_env \<Rightarrow> bytes list \<Rightarrow> bytes \<Rightarrow> server_step list" where
  "handleStream env reads s =
     (case ReadFull 1 s of
        None \<Rightarrow> []
      | Some (t, rest) \<Rightarrow>
          if t = [1] then handleProxyStream env rest
          else if t = [2] then handleMimicStream reads
          else if t = [3] then handleUDPStream env rest
          else [])"

section \<open>Lemmas\<close>

lemma ReadFull_append: "ReadFull (length a) (a @ b) = Some (a, b)"
  by (simp add: ReadFull_def)

lemma ReadFull_one [simp]: "ReadFull (Suc 0) (c # s) = Some ([c], s)"
  by (simp add: ReadFull_def)

lemma unat_length8: "unat (of_nat n :: u8) = n mod 256"
  by (simp add: unat_of_nat)

lemma read_address_header:
  "read_address ((of_nat (length addr) :: u8) # bytes_of_string addr @ rest)
     = (let l = length addr mod 256 in if l = 0 \<or> 253 < l then None
        else Some (take l addr, bytes_of_string (drop l addr) @ rest))"
proof -
  let ?l = "length addr mod 256"
  have "bytes_of_string addr @ rest = bytes_of_string (take ?l addr) @ bytes_of_string (drop ?l addr) @ rest"
    by (metis append_take_drop_id append_assoc bytes_of_string_append)
  then have "ReadFull ?l (bytes_of_string addr @ rest)
      = Some (bytes_of_string (take ?l addr), bytes_of_string (drop ?l addr) @ rest)"
    using ReadFull_append [of "bytes_of_string (take ?l addr)"] mod_less_eq_dividend [of "length addr" 256]
    by (simp add: min_absorb2)
  then show ?thesis by (simp add: read_address_def unat_length8 Let_def)
qed

lemma proxy_stream:
  "handleStream env reads (proxy_header addr @ rest)
     = (let l = length addr mod 256 in if l = 0 \<or> 253 < l then []
        else DialTCP (take l addr) #
          (if tcp_ok env then [ToPeer [1], RelayRest (bytes_of_string (drop l addr) @ rest)] else [ToPeer [0]]))"
  by (simp add: handleStream_def proxy_header_def handleProxyStream_def read_address_header Let_def)

subsection \<open>Requests\<close>

text \<open>What a client that follows RFC 1928 sends for a target: address type, address, port.\<close>

fun socks_address :: "target \<Rightarrow> u16 \<Rightarrow> bytes" where
  "socks_address (Address q) p = 1 # q @ put_be16 p"
| "socks_address (Host h) p = [3, of_nat (length h)] @ bytes_of_string h @ put_be16 p"

definition target_port :: "target \<Rightarrow> u16 \<Rightarrow> string" where
  "target_port t p = target_text t @ '':'' @ digits 10 (unat p)"

fun fits :: "nat \<Rightarrow> target \<Rightarrow> bool" where
  "fits n (Host h) \<longleftrightarrow> length h \<le> n"
| "fits n (Address q) \<longleftrightarrow> length q = 4"

lemma length_socks_address: "fits n t \<Longrightarrow> length (socks_address t p) \<le> n + 4 \<or> length (socks_address t p) = 7"
  by (cases t) auto

text \<open>Both parsers read the buffer, whatever follows the address.\<close>

lemma address_fields:
  assumes "a = [x, y, z] @ socks_address t p @ rest" "fits 255 t"
  shows "socks_target a n = (if length (socks_address t p) + 3 \<le> n then Target (target_port t p) else Malformed)"
    and "udp_target a n = (if 10 \<le> n \<and> z = 0 \<and> length (socks_address t p) + 3 \<le> n
      then Some (target_port t p, length (socks_address t p) + 3) else None)"
proof -
  have "socks_target a n = (if length (socks_address t p) + 3 \<le> n then Target (target_port t p) else Malformed)
    \<and> udp_target a n = (if 10 \<le> n \<and> z = 0 \<and> length (socks_address t p) + 3 \<le> n
      then Some (target_port t p, length (socks_address t p) + 3) else None)"
  proof (cases t)
    case (Host h)
    have "unat (of_nat (length h) :: u8) = length h" using assms(2) Host by (simp add: unat_length8)
    moreover have "a ! 3 = 3" "a ! 4 = of_nat (length h)" "a ! 2 = z"
      and five: "drop 5 a = bytes_of_string h @ put_be16 p @ rest" using assms(1) Host by simp_all
    moreover have "drop (5 + length h) a = put_be16 p @ rest"
      using drop_drop [of "length h" 5 a] by (simp add: five add.commute)
    ultimately show ?thesis using Host by (auto simp: socks_target_def udp_target_def port_at_def target_port_def)
  next
    case (Address q)
    then have "length q = 4" using assms(2) by simp
    then have "a ! 3 = 1" "a ! 2 = z" "take 4 (drop 4 a) = q" "drop 8 a = put_be16 p @ rest"
      using assms(1) Address by simp_all
    then show ?thesis using Address \<open>length q = 4\<close>
      by (auto simp: socks_target_def udp_target_def port_at_def target_port_def)
  qed
  then show "socks_target a n = (if length (socks_address t p) + 3 \<le> n then Target (target_port t p) else Malformed)"
    and "udp_target a n = (if 10 \<le> n \<and> z = 0 \<and> length (socks_address t p) + 3 \<le> n
      then Some (target_port t p, length (socks_address t p) + 3) else None)" by blast+
qed

section \<open>From request to dial\<close>

lemma go_copy_short: "length src \<le> length dst \<Longrightarrow> go_copy dst src = src @ drop (length src) dst"
  by (simp add: go_copy_def)

lemma handleConn_request:
  assumes "greeting env = Some g" "2 \<le> length g" "hd g = 5" "method_ok env"
    and "request env = Some ([5, 1, 0] @ socks_address t p)" "fits 251 t"
  shows "handleConn srv env = ToClient [5, 0] # connect srv env (target_port t p)"
proof -
  define r where "r = [5, 1, 0] @ socks_address t p"
  define B where "B = go_copy (replicate 258 0) g"
  define B' where "B' = go_copy B r"
  have len: "7 \<le> length r" "length r \<le> 258" using assms(6) by (cases t; simp add: r_def)+
  have "length B = 258" by (simp add: B_def go_copy_def)
  then have b: "B' = [5, 1, 0] @ socks_address t p @ drop (length r) B"
    using go_copy_short [of r B] len by (simp add: B'_def r_def)
  have "fits 255 t" using assms(6) by (cases t) simp_all
  note target = address_fields(1) [OF b this, of "length r"]
  have "B ! 0 = 5" using assms(2,3) by (cases g) (auto simp: go_copy_def B_def)
  moreover have "B' ! 0 = 5" "B' ! 1 = 1" by (simp_all add: b)
  moreover have "socks_target B' (length r) = Target (target_port t p)"
    using target by (simp add: r_def)
  moreover have "\<not> min 258 (length g) < 2" "min 258 (length r) = length r" "\<not> length r < 7"
    using len assms(2) by simp_all
  moreover have "request env = Some r" using assms(5) by (simp add: r_def)
  ultimately show ?thesis
    by (simp add: handleConn_def assms(1,4) flip: B_def B'_def del: min_less_iff_conj)
qed

lemma length_digits_le: "n < 10 ^ Suc k \<Longrightarrow> length (digits 10 n) \<le> Suc k"
proof (induction k arbitrary: n)
  case 0
  then show ?case using digits_facts(5) [of n] by simp
next
  case (Suc k)
  show ?case
  proof (cases "n < 10")
    case True
    then show ?thesis using digits_facts(5) [of n] by simp
  next
    case False
    have "n div 10 < 10 ^ Suc k" using Suc.prems by (simp add: less_mult_imp_div_less mult.commute)
    then show ?thesis using Suc.IH digits_ten(2) [of n] False by simp
  qed
qed

lemma target_port_length:
  assumes "fits n t" "15 \<le> n"
  shows "0 < length (target_port t p)" "length (target_port t p) \<le> n + 6"
proof -
  have "unat p < 65536" using unsigned_less [of p] by simp
  then have port: "length (digits 10 (unat p)) \<le> 5" using length_digits_le [of "unat p" 4] by simp
  have "length (target_text t) \<le> n"
  proof (cases t)
    case (Host h)
    then show ?thesis using assms(1) by simp
  next
    case (Address q)
    then obtain a b c d where q: "q = [a, b, c, d]" using assms(1) length_4 by fastforce
    have "length (digits 10 (unat w)) \<le> 3" for w :: u8
    proof -
      have "unat w < 256" using unsigned_less [of w] by simp
      then show ?thesis using length_digits_le [of "unat w" 2] by simp
    qed
    from this [of a] this [of b] this [of c] this [of d] show ?thesis
      using assms(2) by (simp add: Address q ipv4_string_def)
  qed
  then show "0 < length (target_port t p)" "length (target_port t p) \<le> n + 6"
    using port by (simp_all add: target_port_def)
qed

text \<open>What the handler dials itself, and what it writes to the yamux stream.\<close>

fun dialled :: "socks_step list \<Rightarrow> string list" where
  "dialled [] = []"
| "dialled (Dial a # ss) = a # dialled ss"
| "dialled (_ # ss) = dialled ss"

fun sent :: "socks_step list \<Rightarrow> bytes" where
  "sent [] = []"
| "sent (ToStream b # ss) = b @ sent ss"
| "sent (_ # ss) = sent ss"

definition policy_of :: "SOCKS5Server \<Rightarrow> string \<Rightarrow> Policy" where
  "policy_of srv addr = (case router srv of None \<Rightarrow> Proxy | Some r \<Rightarrow> Route r addr)"

abbreviation proxied :: "Policy \<Rightarrow> bool" where
  "proxied p \<equiv> p \<noteq> Block \<and> p \<noteq> Direct"

lemma bytes_of_string_Nil: "bytes_of_string [] = []"
  by (simp add: bytes_of_string_def)

lemma Block_Direct [simp]: "Block \<noteq> Direct" "Direct \<noteq> Block"
  by (simp_all add: Block_def Direct_def)

lemma proxied_Proxy: "proxied Proxy"
  by (simp add: Block_def Direct_def Proxy_def)

lemma connect_policy:
  "dialled (connect srv env addr) = (if policy_of srv addr = Direct then [addr] else [])"
  "sent (connect srv env addr)
     = (if proxied (policy_of srv addr) \<and> stream_result env = Opened then proxy_header addr else [])"
  "ToClient (socks_reply 0) \<in> set (connect srv env addr) \<longleftrightarrow>
     (if policy_of srv addr = Direct then dial_ok env
      else policy_of srv addr \<noteq> Block \<and> stream_result env = Opened \<and> header_ok env \<and> response env = Some 1)"
  unfolding connect_def policy_of_def [symmetric] by (simp_all add: Let_def socks_reply_def)

text \<open>C9. A SOCKS client that greets the proxy and asks for a target (a host of at most 247 characters or
  an IPv4 address) is served according to the router's policy for that target: a blocked target
  is neither dialled nor sent anywhere, a direct one is dialled by the proxy and nothing goes to the
  server, a proxied one is not dialled here and the bytes on the stream make the server dial exactly
  that \<^verbatim>\<open>host:port\<close> and relay what follows them. Success is reported exactly when the connection stands.\<close>

theorem socks_routes:
  assumes "greeting env = Some g" "2 \<le> length g" "hd g = 5" "method_ok env"
    and "request env = Some ([5, 1, 0] @ socks_address t p)" "fits 247 t"
  shows "\<exists>steps. handleConn srv env = ToClient [5, 0] # steps
    \<and> (let policy = policy_of srv (target_port t p)
       in dialled steps = (if policy = Direct then [target_port t p] else [])
        \<and> (if proxied policy \<and> stream_result env = Opened
           then handleStream senv reads (sent steps @ rest) = DialTCP (target_port t p) #
             (if tcp_ok senv then [ToPeer [1], RelayRest rest] else [ToPeer [0]])
           else sent steps = [])
        \<and> (ToClient (socks_reply 0) \<in> set steps \<longleftrightarrow>
            (if policy = Direct then dial_ok env
             else policy \<noteq> Block \<and> stream_result env = Opened \<and> header_ok env \<and> response env = Some 1)))"
proof -
  let ?a = "target_port t p"
  have "fits 251 t" using assms(6) by (cases t) simp_all
  note request = handleConn_request [OF assms(1-5) this, of srv]
  have "handleStream senv reads (proxy_header ?a @ rest)
      = DialTCP ?a # (if tcp_ok senv then [ToPeer [1], RelayRest rest] else [ToPeer [0]])"
    using proxy_stream [of senv reads ?a rest] target_port_length [OF assms(6), of p]
    by (simp add: Let_def bytes_of_string_Nil)
  then show ?thesis
    by (intro exI [of _ "connect srv env ?a"]) (simp add: request connect_policy Let_def del: append_Cons)
qed

theorem socks_routes_witness:
  "\<exists>steps. handleConn \<lparr> router = None, bufferConfig = None \<rparr>
      \<lparr> greeting = Some [5, 1, 0], method_ok = True,
        request = Some ([5, 1, 0] @ socks_address (Host ''b'') 80), dial_ok = True,
        stream_result = Opened, header_ok = True, response = Some 1,
        udp_port = None, reply_ok = True \<rparr> = ToClient [5, 0] # steps
      \<and> dialled steps = [] \<and> ToClient (socks_reply 0) \<in> set steps"
  using socks_routes [of "\<lparr> greeting = Some [5, 1, 0], method_ok = True,
        request = Some ([5, 1, 0] @ socks_address (Host ''b'') 80), dial_ok = True,
        stream_result = Opened, header_ok = True, response = Some 1,
        udp_port = None, reply_ok = True \<rparr>" "[5, 1, 0]" "Host ''b''" 80
      "\<lparr> router = None, bufferConfig = None \<rparr>"]
  by (simp add: Let_def policy_of_def proxied_Proxy) blast

text \<open>The header of a proxied stream holds the length of the address in one byte, written without a
  check: an address whose length is 0 modulo 256, or above 253 modulo 256, is refused by the server, and
  a longer one is cut: the server dials its first characters and hands the remaining ones to the target as
  the first bytes of the connection. Host names of up to 255 characters pass the SOCKS parser, so
  addresses of up to 261 do occur.\<close>

theorem proxy_framing:
  "handleStream env reads (proxy_header addr @ rest)
     = (let l = length addr mod 256 in if l = 0 \<or> 253 < l then []
        else DialTCP (take l addr) #
          (if tcp_ok env then [ToPeer [1], RelayRest (bytes_of_string (drop l addr) @ rest)] else [ToPeer [0]]))"
  by (rule proxy_stream)

subsection \<open>Datagrams\<close>

lemma relayUDP_job:
  assumes "d = [0, 0, 0] @ socks_address t p @ m" "fits 246 t" "10 \<le> length d" "length d \<le> 65535"
    and "length (udp_buf s) = 65535"
    and "(case rt of None \<Rightarrow> Proxy | Some r \<Rightarrow> Route r (target_port t p)) \<noteq> Block"
  shows "relayUDP rt d s = s\<lparr> udp_buf := d @ drop (length d) (udp_buf s),
      jobs := jobs s @ [\<lparr> job_target = target_port t p, job_header = length (socks_address t p) + 3,
        job_end = length d,
        job_direct = ((case rt of None \<Rightarrow> Proxy | Some r \<Rightarrow> Route r (target_port t p)) = Direct) \<rparr>] \<rparr>"
proof -
  have "fits 255 t" using assms(2) by (cases t) simp_all
  have buf: "go_copy (udp_buf s) d = d @ drop (length d) (udp_buf s)"
    using go_copy_short [of d "udp_buf s"] assms(4,5) by simp
  then have "go_copy (udp_buf s) d = [0, 0, 0] @ socks_address t p @ (m @ drop (length d) (udp_buf s))"
    using assms(1) by simp
  from address_fields(2) [OF this \<open>fits 255 t\<close>, of "length d"]
  have "udp_target (d @ drop (length d) (udp_buf s)) (length d) = Some (target_port t p, length (socks_address t p) + 3)"
    using assms(1,3) buf by simp
  then show ?thesis
    using assms(4,6) by (simp add: relayUDP_def buf min_absorb2 Let_def)
qed

lemma udp_frame:
  assumes "fits 246 t" "job_target j = target_port t p" "length (payload_of j s) \<le> 65535"
  shows "handleStream env reads (relayUDPProxy_frame j s)
     = DialUDP (target_port t p) # (if \<not> udp_ok env then [] else SendTarget (payload_of j s) #
         (if \<not> udp_write_ok env then [] else case udp_response env of None \<Rightarrow> []
            | Some r \<Rightarrow> [ToPeer (put_be16 (of_nat (length r))), ToPeer r]))"
proof -
  let ?a = "target_port t p" and ?m = "payload_of j s"
  let ?rest = "put_be16 (of_nat (length ?m)) @ ?m"
  have len: "0 < length ?a" "length ?a \<le> 252" using target_port_length [OF assms(1), of p] by simp_all
  have "read_address ((of_nat (length ?a) :: u8) # bytes_of_string ?a @ ?rest) = Some (?a, ?rest)"
    using read_address_header [of ?a ?rest] len by (simp add: Let_def bytes_of_string_Nil)
  moreover have "ReadFull 2 ?rest = Some (put_be16 (of_nat (length ?m)), ?m)"
    using ReadFull_append [of "put_be16 (of_nat (length ?m))" ?m] by simp
  moreover have "get_be16 (put_be16 (of_nat (length ?m))) = of_nat (length ?m)"
    using get_put_be16 [of _ "[]"] by simp
  moreover have "unat (of_nat (length ?m) :: u16) = length ?m"
    using assms(3) by (simp add: unat_of_nat)
  moreover have "ReadFull (length ?m) ?m = Some (?m, [])" using ReadFull_append [of ?m "[]"] by simp
  ultimately show ?thesis
    by (simp add: handleStream_def relayUDPProxy_frame_def assms(2) handleUDPStream_def)
qed

text \<open>C36. A datagram for a target that is not blocked starts a job that keeps the target's address and slices
  of the receive buffer. Run before the next datagram arrives, a proxied job makes the server send
  exactly the datagram's payload to that target, and a reply goes back behind the datagram's own SOCKS
  header. Run after a next datagram of at least the same length has been read, it sends bytes of that
  datagram to the first one's target, and answers with the second one's header.\<close>

theorem udp_shared_buffer:
  assumes "d1 = [0, 0, 0] @ socks_address t p @ m" "fits 246 t" "10 \<le> length d1" "length d1 \<le> length d2"
    and "length d2 \<le> 65535"
    and "(case rt of None \<Rightarrow> Proxy | Some r \<Rightarrow> Route r (target_port t p)) \<noteq> Block"
    and "udp_ok env"
  shows "\<exists>j. jobs (relayUDP rt d1 udp_init) = [j] \<and> j \<in> set (jobs (relayUDP rt d2 (relayUDP rt d1 udp_init)))
    \<and> take 2 (handleStream env reads (relayUDPProxy_frame j (relayUDP rt d1 udp_init)))
        = [DialUDP (target_port t p), SendTarget m]
    \<and> fst (relay_reply j resp (relayUDP rt d1 udp_init)) = [0, 0, 0] @ socks_address t p @ resp
    \<and> take 2 (handleStream env reads (relayUDPProxy_frame j (relayUDP rt d2 (relayUDP rt d1 udp_init))))
        = [DialUDP (target_port t p),
           SendTarget (take (length m) (drop (length (socks_address t p) + 3) d2))]
    \<and> fst (relay_reply j resp (relayUDP rt d2 (relayUDP rt d1 udp_init)))
        = take (length (socks_address t p) + 3) d2 @ resp"
proof -
  let ?s1 = "relayUDP rt d1 udp_init" and ?l = "length (socks_address t p) + 3"
  let ?s2 = "relayUDP rt d2 ?s1"
  have d1: "length d1 \<le> 65535" "length d1 = ?l + length m" using assms(1,4,5) by simp_all
  obtain j where s1: "jobs ?s1 = [j]" "udp_buf ?s1 = d1 @ drop (length d1) (udp_buf udp_init)"
    and j: "job_target j = target_port t p" "job_header j = ?l" "job_end j = length d1"
    using relayUDP_job [OF assms(1,2,3) d1(1) _ assms(6), of udp_init] by (auto simp: udp_init_def)
  have buf1: "length (udp_buf ?s1) = 65535" using d1(1) by (simp add: s1(2)) (simp add: udp_init_def)
  have "udp_buf ?s2 = go_copy (udp_buf ?s1) d2"
    by (simp add: relayUDP_def [of rt d2] Let_def split: option.split prod.split)
  then have s2: "udp_buf ?s2 = d2 @ drop (length d2) (udp_buf ?s1)"
    using go_copy_short [of d2 "udp_buf ?s1"] assms(5) buf1 by simp
  have j2: "j \<in> set (jobs ?s2)"
    by (simp add: relayUDP_def [of rt d2] Let_def s1(1) split: option.split prod.split)
  have m1: "payload_of j ?s1 = m" unfolding payload_of_def s1(2) j by (simp add: assms(1) numeral_3_eq_3)
  have m2: "payload_of j ?s2 = take (length m) (drop ?l d2)"
    using assms(4) d1(2) by (simp add: payload_of_def s2 j)
  have "length m \<le> 65535" using d1 by simp
  then have len: "length (payload_of j ?s1) \<le> 65535" "length (payload_of j ?s2) \<le> 65535"
    unfolding m1 m2 by simp_all
  have r1: "fst (relay_reply j resp ?s1) = [0, 0, 0] @ socks_address t p @ resp"
    unfolding relay_reply_def Let_def s1(2) j by (simp add: assms(1) numeral_3_eq_3)
  have r2: "fst (relay_reply j resp ?s2) = take ?l d2 @ resp"
    using assms(4) d1(2) by (simp add: relay_reply_def Let_def s2 j)
  have "take 2 (handleStream env reads (relayUDPProxy_frame j ?s1)) = [DialUDP (target_port t p), SendTarget m]"
    using udp_frame [OF assms(2) j(1) len(1)] assms(7) by (simp add: m1)
  moreover have "take 2 (handleStream env reads (relayUDPProxy_frame j ?s2))
      = [DialUDP (target_port t p), SendTarget (take (length m) (drop ?l d2))]"
    using udp_frame [OF assms(2) j(1) len(2)] assms(7) by (simp add: m2)
  ultimately show ?thesis using s1(1) j2 r1 r2 by blast
qed

theorem udp_shared_buffer_witness:
  "\<exists>j. jobs (relayUDP None ([0, 0, 0] @ socks_address (Address [1, 2, 3, 4]) 53 @ [7]) udp_init) = [j]
    \<and> take 2 (handleStream \<lparr> tcp_ok = True, udp_ok = True, udp_write_ok = True, udp_response = None \<rparr> []
        (relayUDPProxy_frame j (relayUDP None ([0, 0, 0] @ socks_address (Address [5, 6, 7, 8]) 53 @ [9])
          (relayUDP None ([0, 0, 0] @ socks_address (Address [1, 2, 3, 4]) 53 @ [7]) udp_init))))
      = [DialUDP (target_port (Address [1, 2, 3, 4]) 53), SendTarget [9]]"
proof -
  let ?d2 = "[0, 0, 0] @ socks_address (Address [5, 6, 7, 8]) 53 @ [9]"
  have eq: "take (length [7 :: u8]) (drop (length (socks_address (Address [1, 2, 3, 4]) 53) + 3) ?d2) = [9]"
    by (simp add: put_be16_def)
  have ok: "fits 246 (Address [1, 2, 3, 4])" "10 \<le> length ([0, 0, 0] @ socks_address (Address [1, 2, 3, 4]) 53 @ [7])"
    "length ([0, 0, 0] @ socks_address (Address [1, 2, 3, 4]) 53 @ [7]) \<le> length ?d2" "length ?d2 \<le> 65535"
    "(case None of None \<Rightarrow> Proxy | Some r \<Rightarrow> Route r (target_port (Address [1, 2, 3, 4]) 53)) \<noteq> Block"
    using proxied_Proxy by simp_all
  show ?thesis
    using udp_shared_buffer [OF refl ok, of "\<lparr> tcp_ok = True, udp_ok = True, udp_write_ok = True, udp_response = None \<rparr>" "[]" "[]",
        unfolded eq] by (metis server_env.select_convs(2))
qed

end
