(* ===== verification/Http.thy ===== *)
theory Http
  imports Server
begin

text \<open>
  The local HTTP proxy (\<^verbatim>\<open>pkg/proxy/http.go\<close>). The bytes of a client come in chunks, one for each
  \<^verbatim>\<open>Read\<close> of its connection; what \<^verbatim>\<open>net/http\<close> makes of them, a request, an error or the need for
  more, is an argument. The buffered reader keeps what it has read beyond a request.
\<close>

section \<open>Requests\<close>

record http_request =
  Method :: string
  URL_Host :: string
  req_Close :: bool
  Header :: "(string \<times> string) list"

datatype 'a parse = More | Bad | Parsed 'a bytes

record http_lib =
  parse_request :: "bytes \<Rightarrow> http_request parse"
  parse_body :: "http_request \<Rightarrow> bytes \<Rightarrow> bytes parse"

text \<open>Reading from the buffered reader: its buffer, then further chunks.\<close>

fun read_from :: "(bytes \<Rightarrow> 'a parse) \<Rightarrow> bytes \<Rightarrow> bytes list \<Rightarrow> ('a \<times> bytes \<times> bytes list) option" where
  "read_from p buf [] = (case p buf of Parsed a rest \<Rightarrow> Some (a, rest, []) | _ \<Rightarrow> None)"
| "read_from p buf (c # cs) =
     (case p buf of
        Parsed a rest \<Rightarrow> Some (a, rest, c # cs)
      | Bad \<Rightarrow> None
      | More \<Rightarrow> read_from p (buf @ c) cs)"

section \<open>The server\<close>

definition relayBufferSize :: int where
  "relayBufferSize = 128 * 1024"

definition readBufferSize :: int where
  "readBufferSize = 64 * 1024"

record HTTPProxyServer =
  h_router :: "Router option"
  h_bufferConfig :: "BufferConfig option"

definition http_read_buffer :: "BufferConfig option \<Rightarrow> int" where
  "http_read_buffer cfg =
     (case cfg of
        Some b \<Rightarrow> if EnableOptimizedBuffers b then ReadBufferSize b else readBufferSize
      | None \<Rightarrow> readBufferSize)"

definition http_relay_buffer :: "BufferConfig option \<Rightarrow> int" where
  "http_relay_buffer cfg =
     (case cfg of
        Some b \<Rightarrow> if EnableOptimizedBuffers b then RelayBufferSize b else relayBufferSize
      | None \<Rightarrow> relayBufferSize)"

text \<open>What the handler does: answers by hand or through \<^verbatim>\<open>http.Response\<close>, the way to the target, and
  the relay, with the buffer's size and the chunks it will copy from the client.\<close>

datatype http_step =
  Reply string | Respond nat | HDial string | HOpen | HToStream bytes | HCloseStream
  | HRelay int "bytes list" | ForwardRequest http_request bytes | ForwardResponse int | HCloseTarget

text \<open>What one request finds.\<close>

record http_env =
  he_closing :: bool
  he_dial_ok :: bool
  he_stream :: stream_open
  he_header_ok :: bool
  he_response :: "u8 option"
  he_reply_ok :: bool
  he_forward_ok :: bool

definition is_connect :: "http_request \<Rightarrow> bool" where
  "is_connect r \<longleftrightarrow> Method r = ''CONNECT''"

definition http_target :: "http_request \<Rightarrow> string" where
  "http_target r =
     (if Contains (URL_Host r) '':'' then URL_Host r
      else URL_Host r @ (if is_connect r then '':443'' else '':80''))"

definition bad_gateway :: "http_request \<Rightarrow> http_step" where
  "bad_gateway r = (if is_connect r then Reply ''HTTP/1.1 502 Bad Gateway'' else Respond 502)"

definition forbidden :: "http_request \<Rightarrow> http_step" where
  "forbidden r = (if is_connect r then Reply ''HTTP/1.1 403 Forbidden'' else Respond 403)"

text \<open>The routing decision and the connection to the target; the flag says that there is one.\<close>

definition open_target :: "HTTPProxyServer \<Rightarrow> http_env \<Rightarrow> http_request \<Rightarrow> http_step list \<times> bool" where
  "open_target srv env r =
     (let addr = http_target r;
          policy = (case h_router srv of None \<Rightarrow> Proxy | Some rt \<Rightarrow> Route rt addr)
      in if policy = Block then ([forbidden r], False)
         else if policy = Direct then
           (if he_dial_ok env then ([HDial addr], True) else ([HDial addr, bad_gateway r], False))
         else if he_stream env \<noteq> Opened then ([HOpen, bad_gateway r], False)
         else if \<not> he_header_ok env then
           ([HOpen, HToStream (proxy_header addr), HCloseStream] @ (if is_connect r then [bad_gateway r] else []), False)
         else if he_response env \<noteq> Some 1 then
           ([HOpen, HToStream (proxy_header addr), HCloseStream, bad_gateway r], False)
         else ([HOpen, HToStream (proxy_header addr)], True))"

definition strip_proxy_connection :: "http_request \<Rightarrow> http_request" where
  "strip_proxy_connection r = r\<lparr>Header := filter (\<lambda>(k, _). k \<noteq> ''Proxy-Connection'') (Header r)\<rparr>"

definition forwardHTTPResponse :: "HTTPProxyServer \<Rightarrow> http_step" where
  "forwardHTTPResponse srv = ForwardResponse (http_read_buffer (h_bufferConfig srv))"

text \<open>CONNECT: the answer and the relay, which copies from the connection.\<close>

definition answer_connect :: "HTTPProxyServer \<Rightarrow> http_env \<Rightarrow> bytes list \<Rightarrow> http_step list" where
  "answer_connect srv env cs = Reply ''HTTP/1.1 200 Connection established'' #
     (if he_reply_ok env then [HRelay (http_relay_buffer (h_bufferConfig srv)) cs] else [HCloseTarget])"

text \<open>Any other method: the request, whose body is read while it is forwarded, and the response; then
  the reader's state if the connection is kept.\<close>

definition forward_request :: "http_lib \<Rightarrow> HTTPProxyServer \<Rightarrow> http_env \<Rightarrow> http_request \<Rightarrow> bytes \<Rightarrow> bytes list
    \<Rightarrow> http_step list \<times> (bytes \<times> bytes list) option" where
  "forward_request lib srv env r buf cs =
     (case read_from (parse_body lib r) buf cs of
        None \<Rightarrow> ([HCloseTarget], None)
      | Some (body, buf, cs) \<Rightarrow>
          let sent = ForwardRequest (strip_proxy_connection r) body
          in if \<not> he_forward_ok env then ([sent, HCloseTarget], None)
             else ([sent, forwardHTTPResponse srv, HCloseTarget], if req_Close r then None else Some (buf, cs)))"

text \<open>\<^verbatim>\<open>handleConn\<close>, an environment for each request.\<close>

fun http_handleConn :: "http_lib \<Rightarrow> HTTPProxyServer \<Rightarrow> http_env list \<Rightarrow> bytes \<Rightarrow> bytes list \<Rightarrow> http_step list" where
  "http_handleConn lib srv [] buf cs = []"
| "http_handleConn lib srv (env # envs) buf cs =
     (if he_closing env then []
      else case read_from (parse_request lib) buf cs of
             None \<Rightarrow> []
           | Some (r, buf, cs) \<Rightarrow>
               if URL_Host r = [] then []
               else case open_target srv env r of
                      (steps, False) \<Rightarrow> steps
                    | (steps, True) \<Rightarrow> steps @
                        (if is_connect r then answer_connect srv env cs
                         else case forward_request lib srv env r buf cs of
                                (ss, None) \<Rightarrow> ss
                              | (ss, Some (buf, cs)) \<Rightarrow> ss @ http_handleConn lib srv envs buf cs))"

section \<open>Lemmas\<close>

fun http_dialled :: "http_step list \<Rightarrow> string list" where
  "http_dialled [] = []"
| "http_dialled (HDial a # ss) = a # http_dialled ss"
| "http_dialled (_ # ss) = http_dialled ss"

fun http_sent :: "http_step list \<Rightarrow> bytes" where
  "http_sent [] = []"
| "http_sent (HToStream b # ss) = b @ http_sent ss"
| "http_sent (_ # ss) = http_sent ss"

text \<open>The same surroundings for the SOCKS proxy.\<close>

definition as_socks :: "HTTPProxyServer \<Rightarrow> SOCKS5Server" where
  "as_socks srv = \<lparr> router = h_router srv, bufferConfig = h_bufferConfig srv \<rparr>"

definition as_socks_env :: "http_env \<Rightarrow> socks_env" where
  "as_socks_env env = \<lparr> greeting = None, method_ok = True, request = None, dial_ok = he_dial_ok env,
     stream_result = he_stream env, header_ok = he_header_ok env, response = he_response env,
     udp_port = None, reply_ok = True \<rparr>"

lemma open_target_socks:
  "http_dialled (fst (open_target srv env r)) = dialled (connect (as_socks srv) (as_socks_env env) (http_target r))"
  "http_sent (fst (open_target srv env r)) = sent (connect (as_socks srv) (as_socks_env env) (http_target r))"
  "snd (open_target srv env r)
     \<longleftrightarrow> ToClient (socks_reply 0) \<in> set (connect (as_socks srv) (as_socks_env env) (http_target r))"
  by (simp_all add: connect_policy policy_of_def)
    (auto simp: open_target_def as_socks_def as_socks_env_def Let_def forbidden_def bad_gateway_def)

lemma read_from_stream:
  "read_from p buf cs = Some (a, rest, cs') \<Longrightarrow> \<exists>ds. cs = ds @ cs' \<and> p (buf @ concat ds) = Parsed a rest"
proof (induction cs arbitrary: buf)
  case Nil
  then show ?case by (auto split: parse.splits)
next
  case (Cons c cs)
  then show ?case
  proof (cases "p buf")
    case More
    then obtain ds where "cs = ds @ cs'" "p ((buf @ c) @ concat ds) = Parsed a rest"
      using Cons.IH [of "buf @ c"] Cons.prems by auto
    then show ?thesis by (intro exI [of _ "c # ds"]) simp
  qed (auto intro: exI [of _ "[]"])
qed

lemma http_dialled_sent_append [simp]:
  "http_dialled (a @ b) = http_dialled a @ http_dialled b" "http_sent (a @ b) = http_sent a @ http_sent b"
  by (induction a rule: http_dialled.induct; simp) (induction a rule: http_sent.induct; simp)

lemma open_target_steps:
  "Reply ''HTTP/1.1 200 Connection established'' \<notin> set (fst (open_target srv env r))"
  "HRelay n cs \<notin> set (fst (open_target srv env r))"
  by (auto simp: open_target_def Let_def forbidden_def bad_gateway_def)

section \<open>Properties\<close>

text \<open>C20. A CONNECT request is served like the SOCKS request for the same target: the same addresses are
  dialled here, the same header goes to the server, and the client is told of success exactly when the
  SOCKS client would be. But the relay copies from the connection, not from the buffered reader:
  what the client sent in one segment with its request never reaches the target.\<close>

theorem http_connect:
  assumes "\<not> he_closing env" "read_from (parse_request lib) [] cs = Some (r, early, later)"
    and "is_connect r" "URL_Host r \<noteq> []"
    and "steps = http_handleConn lib srv (env # envs) [] cs"
    and "socks = connect (as_socks srv) (as_socks_env env) (http_target r)"
  shows "http_dialled steps = dialled socks \<and> http_sent steps = sent socks
    \<and> (Reply ''HTTP/1.1 200 Connection established'' \<in> set steps \<longleftrightarrow> ToClient (socks_reply 0) \<in> set socks)
    \<and> (ToClient (socks_reply 0) \<in> set socks \<and> he_reply_ok env \<longrightarrow>
        last steps = HRelay (http_relay_buffer (h_bufferConfig srv)) later)
    \<and> (\<exists>first. cs = first @ later \<and> parse_request lib (concat first) = Parsed r early)"
proof -
  obtain ss ok where o: "open_target srv env r = (ss, ok)" by fastforce
  note socks = open_target_socks [of srv env r, folded assms(6), unfolded o fst_conv snd_conv]
  have steps: "steps = (if ok then ss @ Reply ''HTTP/1.1 200 Connection established'' #
      (if he_reply_ok env then [HRelay (http_relay_buffer (h_bufferConfig srv)) later] else [HCloseTarget]) else ss)"
    using assms(1-5) o by (cases ok) (simp_all add: answer_connect_def)
  have "Reply ''HTTP/1.1 200 Connection established'' \<notin> set ss"
    using open_target_steps(1) [of srv env r] o by simp
  then show ?thesis using socks steps read_from_stream [OF assms(2)] by simp
qed

definition demo_http :: http_lib where
  "demo_http = \<lparr> parse_request = (\<lambda>b. if length b < 2 then More
       else Parsed \<lparr> Method = ''CONNECT'', URL_Host = ''h'', req_Close = False, Header = [] \<rparr> (drop 2 b)),
     parse_body = (\<lambda>r b. Parsed [] b) \<rparr>"

theorem http_connect_witness:
  "last (http_handleConn demo_http \<lparr> h_router = None, h_bufferConfig = None \<rparr>
      [\<lparr> he_closing = False, he_dial_ok = True, he_stream = Opened, he_header_ok = True, he_response = Some 1,
        he_reply_ok = True, he_forward_ok = True \<rparr>] [] [[1], [2, 3], [4]]) = HRelay (128 * 1024) [[4]]"
proof -
  let ?srv = "\<lparr> h_router = None, h_bufferConfig = None \<rparr>"
  let ?env = "\<lparr> he_closing = False, he_dial_ok = True, he_stream = Opened, he_header_ok = True, he_response = Some 1,
        he_reply_ok = True, he_forward_ok = True \<rparr>"
  let ?r = "\<lparr> Method = ''CONNECT'', URL_Host = ''h'', req_Close = False, Header = [] \<rparr>"
  have read: "read_from (parse_request demo_http) [] [[1], [2, 3], [4]] = Some (?r, [3], [[4]])"
    by (simp add: demo_http_def)
  have "ToClient (socks_reply 0) \<in> set (connect (as_socks ?srv) (as_socks_env ?env) (http_target ?r))"
    using proxied_Proxy by (simp add: connect_policy policy_of_def as_socks_def as_socks_env_def)
  with http_connect [OF _ read _ _ refl refl, of ?env ?srv "[]"] show ?thesis
    by (simp add: is_connect_def http_relay_buffer_def relayBufferSize_def)
qed

end
