(* ===== verification/Presets.thy ===== *)
theory Presets
  imports Config
begin

text \<open>
  Traffic profiles (\<^verbatim>\<open>pkg/presets/presets.go\<close>) and the generator that follows one
  (\<^verbatim>\<open>pkg/mimic/mimic.go\<close>). \<^verbatim>\<open>RangeInt\<close> is the type of the configuration package, which has the same
  fields. The order in which Go runs through a map is an argument; ratios are rational.
\<close>

section \<open>Presets\<close>

type_synonym PresetType = string

definition TypeCustom :: PresetType where
  "TypeCustom = ''custom''"

record RangeDuration =
  dur_Min :: int
  dur_Max :: int

record TrafficPattern =
  tp_Type :: string
  tp_Duration :: RangeDuration
  tp_Interval :: RangeDuration

record Preset =
  Name :: string
  preset_Type :: PresetType
  PacketSize :: RangeInt
  PacketsPerSecond :: RangeInt
  UploadDownloadRatio :: rat
  SessionDuration :: RangeDuration
  Patterns :: "TrafficPattern list"

definition seconds :: "int \<Rightarrow> int \<Rightarrow> RangeDuration" where
  "seconds a b = \<lparr> dur_Min = a * second, dur_Max = b * second \<rparr>"

definition ints :: "int \<Rightarrow> int \<Rightarrow> RangeInt" where
  "ints a b = \<lparr> Min = a, Max = b \<rparr>"

definition builtin :: "string \<Rightarrow> PresetType \<Rightarrow> RangeInt \<Rightarrow> RangeInt \<Rightarrow> rat \<Rightarrow> RangeDuration \<Rightarrow> string
    \<Rightarrow> RangeDuration \<Rightarrow> RangeDuration \<Rightarrow> string \<times> Preset" where
  "builtin n t sz pps ratio session pattern dur interval =
     (n, \<lparr> Name = n, preset_Type = t, PacketSize = sz, PacketsPerSecond = pps, UploadDownloadRatio = ratio,
           SessionDuration = session,
           Patterns = [\<lparr> tp_Type = pattern, tp_Duration = dur, tp_Interval = interval \<rparr>] \<rparr>)"

definition DefaultPresets :: "(string, Preset) gomap" where
  "DefaultPresets =
     [builtin ''web_generic'' ''web'' (ints 500 1420) (ints 10 150) (1 / 10) (seconds 30 300)
        ''burst'' (seconds 1 5) (seconds 2 10),
      builtin ''social'' ''social'' (ints 500 1400) (ints 5 50) (3 / 10) (seconds 60 300)
        ''burst'' (seconds 3 10) (seconds 15 60),
      builtin ''video'' ''video'' (ints 1000 1450) (ints 50 200) (5 / 100) (seconds 300 3600)
        ''constant'' (seconds 60 300) (seconds 5 30),
      builtin ''messenger'' ''messenger'' (ints 50 400) (ints 1 10) 1 (seconds 300 3600)
        ''idle'' (seconds 30 120) (seconds 5 30),
      builtin ''gaming'' ''gaming'' (ints 64 512) (ints 30 120) (8 / 10) (seconds 600 7200)
        ''constant'' (seconds 10 60) (seconds 1 5),
      builtin ''voip'' ''voip'' (ints 80 300) (ints 20 50) 1 (seconds 300 7200)
        ''constant'' (seconds 30 300) (seconds 5 30)]"

text \<open>A missing key of a Go map gives the zero value.\<close>

definition no_preset :: Preset where
  "no_preset = \<lparr> Name = [], preset_Type = [], PacketSize = ints 0 0, PacketsPerSecond = ints 0 0,
     UploadDownloadRatio = 0, SessionDuration = seconds 0 0, Patterns = [] \<rparr>"

definition default_preset :: "string \<Rightarrow> Preset" where
  "default_preset n = (case map_of DefaultPresets n of Some p \<Rightarrow> p | None \<Rightarrow> no_preset)"

section \<open>The registry\<close>

type_synonym CustomPresetRegistry = "(string, Preset) gomap"

definition NewCustomPresetRegistry :: CustomPresetRegistry where
  "NewCustomPresetRegistry = []"

definition AddPreset :: "string \<Rightarrow> Preset \<Rightarrow> CustomPresetRegistry \<Rightarrow> CustomPresetRegistry" where
  "AddPreset n p r = AList.update n (p\<lparr>Name := n, preset_Type := TypeCustom\<rparr>) r"

definition GetPreset :: "CustomPresetRegistry \<Rightarrow> string \<Rightarrow> Preset option" where
  "GetPreset r n = map_of r n"

definition GetAllPresets :: "CustomPresetRegistry \<Rightarrow> CustomPresetRegistry" where
  "GetAllPresets r = foldl (\<lambda>m (k, v). AList.update k v m) [] r"

section \<open>Detection\<close>

definition containsAny :: "string \<Rightarrow> string list \<Rightarrow> bool" where
  "containsAny domain subs \<longleftrightarrow> list_ex (Contains domain) subs"

text \<open>\<open>order\<close> is the order in which the keys of the registry are visited.\<close>

definition keyword_match :: "string list \<Rightarrow> string \<Rightarrow> CustomPresetRegistry \<Rightarrow> Preset option" where
  "keyword_match order domain r =
     (case find (\<lambda>n. n \<in> amap_keys r \<and> Contains domain n) order of
        Some n \<Rightarrow> map_of r n | None \<Rightarrow> None)"

definition service_preset :: "string \<Rightarrow> Preset" where
  "service_preset domain =
     (if containsAny domain [''vk.com'', ''instagram.com'', ''facebook.com'', ''twitter.com'', ''tiktok.com'',
           ''reddit.com''] then default_preset ''social''
      else if containsAny domain [''youtube.com'', ''youtu.be'', ''twitch.tv'', ''netflix.com'', ''rutube.ru'',
           ''vimeo.com''] then default_preset ''video''
      else if containsAny domain [''telegram.org'', ''telegram.me'', ''whatsapp.com'', ''signal.org'', ''viber.com'']
      then default_preset ''messenger''
      else if containsAny domain [''steampowered.com'', ''steamcommunity.com'', ''epicgames.com'', ''origin.com'',
           ''xbox.com'', ''playstation.com''] then default_preset ''gaming''
      else if containsAny domain [''discord.com'', ''discord.gg'', ''zoom.us'', ''skype.com'', ''meet.google.com'',
           ''teams.microsoft.com''] then default_preset ''voip''
      else default_preset ''web_generic'')"

definition normal_domain :: "string \<Rightarrow> string" where
  "normal_domain domain = TrimPrefix (ToLower domain) ''www.''"

definition DetectPreset :: "string list \<Rightarrow> string \<Rightarrow> CustomPresetRegistry option \<Rightarrow> Preset" where
  "DetectPreset order domain registry =
     (let domain = normal_domain domain
      in case registry of
           None \<Rightarrow> service_preset domain
         | Some r \<Rightarrow>
             (case GetPreset r domain of
                Some p \<Rightarrow> p
              | None \<Rightarrow>
                  (case keyword_match order domain (GetAllPresets r) of
                     Some p \<Rightarrow> p | None \<Rightarrow> service_preset domain)))"

definition DetectPresetByService :: "string \<Rightarrow> CustomPresetRegistry option \<Rightarrow> Preset" where
  "DetectPresetByService serviceName registry =
     (let n = ToLower serviceName;
          dflt = (case map_of DefaultPresets n of Some p \<Rightarrow> p | None \<Rightarrow> default_preset ''web_generic'')
      in case registry of
           None \<Rightarrow> dflt
         | Some r \<Rightarrow> (case GetPreset r n of Some p \<Rightarrow> p | None \<Rightarrow> dflt))"

datatype preset_error =
  InvalidPacketSize | PacketSizeOrder | InvalidPps | PpsOrder | InvalidRatio | InvalidSession | SessionOrder

definition ValidatePreset :: "Preset \<Rightarrow> preset_error + unit" where
  "ValidatePreset p =
     (if Min (PacketSize p) \<le> 0 \<or> Max (PacketSize p) \<le> 0 then Inl InvalidPacketSize
      else if Min (PacketSize p) > Max (PacketSize p) then Inl PacketSizeOrder
      else if Min (PacketsPerSecond p) < 0 \<or> Max (PacketsPerSecond p) < 0 then Inl InvalidPps
      else if Min (PacketsPerSecond p) > Max (PacketsPerSecond p) then Inl PpsOrder
      else if UploadDownloadRatio p < 0 \<or> UploadDownloadRatio p > 1 then Inl InvalidRatio
      else if dur_Min (SessionDuration p) < 0 \<or> dur_Max (SessionDuration p) < 0 then Inl InvalidSession
      else if dur_Min (SessionDuration p) > dur_Max (SessionDuration p) then Inl SessionOrder
      else Inr ())"

definition GetOptimalPacketSize :: "rat \<Rightarrow> RangeInt" where
  "GetOptimalPacketSize mbps =
     (if mbps \<ge> 100 then ints 1200 1450 else if mbps \<ge> 50 then ints 900 1350
      else if mbps \<ge> 10 then ints 600 1200 else ints 400 900)"

definition GetOptimalPPS :: "int \<Rightarrow> RangeInt" where
  "GetOptimalPPS latencyMs =
     (if latencyMs \<le> 20 then ints 50 200 else if latencyMs \<le> 50 then ints 30 120
      else if latencyMs \<le> 100 then ints 20 80 else ints 10 50)"

definition RangeInt_String :: "RangeInt \<Rightarrow> string" where
  "RangeInt_String r = itoa (Min r) @ ''-'' @ itoa (Max r)"

definition RangeDuration_String :: "RangeDuration \<Rightarrow> string" where
  "RangeDuration_String r = Duration_String (dur_Min r) @ ''-'' @ Duration_String (dur_Max r)"

section \<open>The generator\<close>

text \<open>\<open>rnd n\<close> is what \<^verbatim>\<open>Intn\<close> returns for \<open>n\<close>.\<close>

record Generator =
  currentPreset :: Preset
  gen_rnd :: "int \<Rightarrow> int"

definition NewGenerator :: "Preset \<Rightarrow> (int \<Rightarrow> int) \<Rightarrow> Generator" where
  "NewGenerator p rnd = \<lparr> currentPreset = p, gen_rnd = rnd \<rparr>"

definition SetPreset :: "Preset \<Rightarrow> Generator \<Rightarrow> Generator" where
  "SetPreset p g = g\<lparr>currentPreset := p\<rparr>"

definition randomInt :: "Generator \<Rightarrow> int \<Rightarrow> int \<Rightarrow> int" where
  "randomInt g lo hi = (if lo \<ge> hi then lo else gen_rnd g (hi - lo + 1) + lo)"

definition NextPacketDelay :: "Generator \<Rightarrow> int" where
  "NextPacketDelay g =
     (let minPPS = Min (PacketsPerSecond (currentPreset g));
          maxPPS = Max (PacketsPerSecond (currentPreset g));
          minPPS = (if minPPS \<le> 0 then 1 else minPPS);
          maxPPS = (if maxPPS \<le> 0 then 1 else maxPPS);
          pps = randomInt g minPPS maxPPS
      in if pps = 0 then second else second div pps)"

definition NextPacketSize :: "Generator \<Rightarrow> int" where
  "NextPacketSize g = randomInt g (Min (PacketSize (currentPreset g))) (Max (PacketSize (currentPreset g)))"

section \<open>Lemmas\<close>

definition preset_ok :: "Preset \<Rightarrow> bool" where
  "preset_ok p \<longleftrightarrow> ValidatePreset p = Inr ()"

lemma ValidatePreset_ok:
  "ValidatePreset p = Inr () \<longleftrightarrow>
     0 < Min (PacketSize p) \<and> Min (PacketSize p) \<le> Max (PacketSize p)
     \<and> 0 \<le> Min (PacketsPerSecond p) \<and> Min (PacketsPerSecond p) \<le> Max (PacketsPerSecond p)
     \<and> 0 \<le> UploadDownloadRatio p \<and> UploadDownloadRatio p \<le> 1
     \<and> 0 \<le> dur_Min (SessionDuration p) \<and> dur_Min (SessionDuration p) \<le> dur_Max (SessionDuration p)"
  by (auto simp: ValidatePreset_def)

lemma DefaultPresets_ok: "list_all (\<lambda>(n, p). Name p = n \<and> preset_ok p) DefaultPresets"
  by (simp add: DefaultPresets_def builtin_def preset_ok_def ValidatePreset_ok ints_def seconds_def second_def)

lemma default_preset_ok:
  assumes "map_of DefaultPresets n \<noteq> None"
  shows "preset_ok (default_preset n)" "Name (default_preset n) = n"
proof -
  obtain p where p: "map_of DefaultPresets n = Some p" using assms by blast
  then have "(n, p) \<in> set DefaultPresets" by (rule map_of_SomeD)
  then have "Name p = n \<and> preset_ok p" using DefaultPresets_ok by (auto simp: list_all_iff)
  then show "preset_ok (default_preset n)" "Name (default_preset n) = n" using p by (simp_all add: default_preset_def)
qed

lemma service_preset_ok: "preset_ok (service_preset d)"
  by (simp add: service_preset_def default_preset_ok DefaultPresets_def builtin_def)

text \<open>A registry all of whose presets were validated.\<close>

definition registry_ok :: "CustomPresetRegistry option \<Rightarrow> bool" where
  "registry_ok registry \<longleftrightarrow> (case registry of None \<Rightarrow> True | Some r \<Rightarrow> amap_wf r \<and> (\<forall>n p. map_of r n = Some p \<longrightarrow> preset_ok p))"

lemma GetAllPresets_copy: "amap_wf r \<Longrightarrow> map_of (GetAllPresets r) = map_of r"
proof -
  have "map_of (foldl (\<lambda>m (k, v). AList.update k v m) a r) = map_of a ++ map_of (rev r)" for a
    by (induction r arbitrary: a) (auto simp: amap_get_update)
  moreover have "map_of (rev r) = map_of r" if "amap_wf r"
    using that map_of_inject_set [of "rev r" r] by (simp add: amap_wf_def rev_map [symmetric])
  ultimately show "amap_wf r \<Longrightarrow> ?thesis" by (simp add: GetAllPresets_def)
qed

lemma registry_ok_AddPreset:
  "registry_ok (Some r) \<Longrightarrow> preset_ok p \<Longrightarrow> registry_ok (Some (AddPreset n p r))"
  by (auto simp: registry_ok_def AddPreset_def amap_simps preset_ok_def ValidatePreset_ok split: if_splits)

lemma DetectPreset_ok: "registry_ok registry \<Longrightarrow> preset_ok (DetectPreset order domain registry)"
  by (auto simp: DetectPreset_def keyword_match_def registry_ok_def GetPreset_def service_preset_ok
      GetAllPresets_copy Let_def split: option.splits)

lemma randomInt_bounds:
  "rand_ok (gen_rnd g) \<Longrightarrow> a \<le> b \<Longrightarrow> a \<le> randomInt g a b \<and> randomInt g a b \<le> b"
  by (cases "a < b") (auto simp: randomInt_def rand_ok_def dest!: spec [of _ "b - a + 1"])

section \<open>Properties\<close>



text \<open>A preset registered for exactly the domain is always taken. When only keywords match, the map's
  order decides: of two matching presets either one may be taken, so that a client and a server, or two
  runs, can disagree.\<close>

lemma custom_preset_choice:
  assumes "amap_wf r"
  shows "(\<forall>p. map_of r (normal_domain d) = Some p \<longrightarrow> DetectPreset order d (Some r) = p)
    \<and> (map_of r (normal_domain d) = None \<and> map_of r a = Some p \<and> map_of r b = Some q
        \<and> Contains (normal_domain d) a \<and> Contains (normal_domain d) b \<longrightarrow>
        DetectPreset (a # b # order) d (Some r) = p \<and> DetectPreset (b # a # order) d (Some r) = q)"
  using assms by (simp add: DetectPreset_def GetPreset_def keyword_match_def GetAllPresets_copy amap_keys_iff Let_def)

end
