(* ===== verification/Resolver.thy ===== *)
theory Resolver
  imports Routing
begin

text \<open>
  The caching resolver (\<^verbatim>\<open>pkg/network/dns.go\<close>). What the name server answers at a time, the lookup of
  a port's name and the protected dialler are arguments. Addresses are the bytes of an IP, times are
  nanoseconds. A panic is \<open>None\<close>: \<^verbatim>\<open>ips[0]\<close> is only read from a non-empty list.
\<close>

section \<open>The cache\<close>

record cacheEntry =
  ips :: "bytes list"
  expiresAt :: int

record CachedResolver =
  cache :: "(string, cacheEntry) gomap"
  ttl :: int

datatype resolve_error = ErrLookup string | ErrNoIPs string | ErrAddress | ErrPort | ErrDialAll

definition NewCachedResolver :: "int \<Rightarrow> CachedResolver" where
  "NewCachedResolver t = \<lparr> cache = [], ttl = t \<rparr>"

text \<open>One tick of \<^verbatim>\<open>cleanupLoop\<close>.\<close>

definition cleanup :: "int \<Rightarrow> CachedResolver \<Rightarrow> CachedResolver" where
  "cleanup now r = r\<lparr>cache := filter (\<lambda>(h, e). \<not> expiresAt e < now) (cache r)\<rparr>"

text \<open>\<open>lookup\<close> is what the name server answers; \<open>stored\<close> the clock when the answer is stored.\<close>

definition ResolveIPAddr :: "(string \<Rightarrow> bytes list option) \<Rightarrow> int \<Rightarrow> int \<Rightarrow> string \<Rightarrow> CachedResolver
    \<Rightarrow> (resolve_error + bytes list) \<times> CachedResolver" where
  "ResolveIPAddr lookup now stored host r =
     (let query = (case lookup host of
                     None \<Rightarrow> (Inl (ErrLookup host), r)
                   | Some as \<Rightarrow>
                       if as = [] then (Inl (ErrNoIPs host), r)
                       else (Inr as, r\<lparr>cache := AList.update host \<lparr> ips = as, expiresAt = stored + ttl r \<rparr> (cache r)\<rparr>))
      in if host = ''localhost'' then (Inr [v4_prefix @ [127, 0, 0, 1]], r)
         else case map_of (cache r) host of
                Some e \<Rightarrow> if now < expiresAt e then (Inr (ips e), r) else query
              | None \<Rightarrow> query)"

definition ResolveUDPAddr :: "(string \<Rightarrow> bytes list option) \<Rightarrow> (string \<Rightarrow> int option) \<Rightarrow> int \<Rightarrow> int
    \<Rightarrow> string \<Rightarrow> CachedResolver \<Rightarrow> (resolve_error + bytes \<times> int) option \<times> CachedResolver" where
  "ResolveUDPAddr lookup port_of now stored address r =
     (case SplitHostPort address of
        None \<Rightarrow> (Some (Inl ErrAddress), r)
      | Some (host, port) \<Rightarrow>
          (case ParseIP host of
             Some ip \<Rightarrow> (Some (Inr (ip, case port_of port of Some n \<Rightarrow> n | None \<Rightarrow> 0)), r)
           | None \<Rightarrow>
               (case ResolveIPAddr lookup now stored host r of
                  (Inl e, r) \<Rightarrow> (Some (Inl e), r)
                | (Inr as, r) \<Rightarrow>
                    (case port_of port of
                       None \<Rightarrow> (Some (Inl ErrPort), r)
                     | Some n \<Rightarrow> ((case as of [] \<Rightarrow> None | a # _ \<Rightarrow> Some (Inr (a, n))), r)))))"

text \<open>The addresses are dialled in turn: \<open>dial\<close> says which of them answers. \<open>show_ip\<close> and
  \<open>join\<close> are \<^verbatim>\<open>IP.String\<close> and \<^verbatim>\<open>JoinHostPort\<close>.\<close>

fun dial_first :: "(string \<Rightarrow> 'c option) \<Rightarrow> string list \<Rightarrow> 'c option \<times> string list" where
  "dial_first dial [] = (None, [])"
| "dial_first dial (a # as) =
     (case dial a of
        Some c \<Rightarrow> (Some c, [a])
      | None \<Rightarrow> (case dial_first dial as of (r, tried) \<Rightarrow> (r, a # tried)))"

definition JoinHostPort :: "string \<Rightarrow> string \<Rightarrow> string" where
  "JoinHostPort host port =
     (if Contains host '':'' then ''['' @ host @ '']:'' @ port else host @ '':'' @ port)"

definition DialContext :: "(bytes \<Rightarrow> string) \<Rightarrow> (string \<Rightarrow> bytes list option) \<Rightarrow> (string \<Rightarrow> 'c option) \<Rightarrow> int \<Rightarrow> int
    \<Rightarrow> string \<Rightarrow> CachedResolver \<Rightarrow> (resolve_error + 'c) \<times> string list \<times> CachedResolver" where
  "DialContext show_ip lookup dial now stored address r =
     (case SplitHostPort address of
        None \<Rightarrow> (Inl ErrAddress, [], r)
      | Some (host, port) \<Rightarrow>
          if ParseIP host \<noteq> None then
            ((case dial address of Some c \<Rightarrow> Inr c | None \<Rightarrow> Inl ErrDialAll), [address], r)
          else case ResolveIPAddr lookup now stored host r of
                 (Inl e, r) \<Rightarrow> (Inl e, [], r)
               | (Inr as, r) \<Rightarrow>
                   (case dial_first dial (map (\<lambda>ip. JoinHostPort (show_ip ip) port) as) of
                      (Some c, tried) \<Rightarrow> (Inr c, tried, r)
                    | (None, tried) \<Rightarrow> (Inl ErrDialAll, tried, r)))"

section \<open>A run of the resolver\<close>

text \<open>Calls and clean-ups, each with its time; a call also with the answer the name server would give.\<close>

datatype dns_event = Query "bytes list option" int int string | Clean int

fun dns_step :: "CachedResolver \<times> (resolve_error + bytes list) list \<Rightarrow> dns_event
    \<Rightarrow> CachedResolver \<times> (resolve_error + bytes list) list" where
  "dns_step (r, out) (Query answer now stored host) =
     (case ResolveIPAddr (\<lambda>_. answer) now stored host r of (res, r) \<Rightarrow> (r, out @ [res]))"
| "dns_step (r, out) (Clean now) = (cleanup now r, out)"

fun event_time :: "dns_event \<Rightarrow> int" where
  "event_time (Query _ now _ _) = now"
| "event_time (Clean now) = now"

fun is_query :: "dns_event \<Rightarrow> bool" where
  "is_query (Query _ _ _ _) = True"
| "is_query _ = False"

section \<open>Lemmas\<close>

definition resolver_wf :: "CachedResolver \<Rightarrow> bool" where
  "resolver_wf r \<longleftrightarrow> amap_wf (cache r) \<and> (\<forall>h e. map_of (cache r) h = Some e \<longrightarrow> ips e \<noteq> [])"

text \<open>Two resolvers that no call at or after a time can tell apart: expired entries may be there or not.\<close>

definition live :: "int \<Rightarrow> CachedResolver \<Rightarrow> string \<Rightarrow> cacheEntry option" where
  "live now r h = (case map_of (cache r) h of
     Some e \<Rightarrow> if now < expiresAt e then Some e else None | None \<Rightarrow> None)"

definition same_answers :: "int \<Rightarrow> CachedResolver \<Rightarrow> CachedResolver \<Rightarrow> bool" where
  "same_answers now r s \<longleftrightarrow> ttl r = ttl s \<and> live now r = live now s"

lemma same_answers_later: "same_answers t r s \<Longrightarrow> t \<le> u \<Longrightarrow> same_answers u r s"
proof -
  assume h: "same_answers t r s" "t \<le> u"
  have "live u r h = live u s h" for h
  proof -
    have "live t r h = live t s h" using h(1) by (simp add: same_answers_def)
    then show ?thesis using h(2) by (auto simp: live_def split: option.splits if_splits)
  qed
  then show ?thesis using h(1) by (auto simp: same_answers_def)
qed

lemma resolve_wf: "resolver_wf r \<Longrightarrow> resolver_wf (snd (ResolveIPAddr lookup now stored host r))"
  by (auto simp: ResolveIPAddr_def resolver_wf_def Let_def amap_simps split: option.splits if_splits)

lemma filter_lookup:
  "amap_wf m \<Longrightarrow> map_of (filter (\<lambda>(h, e). P e) m) h
     = (case map_of m h of Some e \<Rightarrow> if P e then Some e else None | None \<Rightarrow> None)"
proof (induction m)
  case (Cons x m)
  obtain k e where x: "x = (k, e)" by fastforce
  have "map_of m k = None" "amap_wf m" using Cons.prems by (auto simp: x amap_wf_def map_of_eq_None_iff)
  moreover have "map_of (filter (\<lambda>(h, e). P e) m) k = None"
    using Cons.prems by (auto simp: x amap_wf_def map_of_eq_None_iff)
  ultimately show ?case using Cons.IH by (simp add: x)
qed simp

lemma cleanup_facts:
  assumes "resolver_wf r"
  shows "resolver_wf (cleanup t r)" "same_answers t (cleanup t r) r" "ttl (cleanup t r) = ttl r"
proof -
  have w: "amap_wf (cache r)" using assms by (simp add: resolver_wf_def)
  have "amap_wf (cache (cleanup t r))"
    using w by (simp add: amap_wf_def cleanup_def distinct_map_filter)
  then show "resolver_wf (cleanup t r)"
    using assms by (auto simp: resolver_wf_def cleanup_def filter_lookup [OF w] split: option.splits if_splits)
  have "live t (cleanup t r) = live t r"
    by (rule ext) (simp add: live_def cleanup_def filter_lookup [OF w] split: option.splits)
  then show "same_answers t (cleanup t r) r" by (simp add: same_answers_def cleanup_def)
qed (simp add: cleanup_def)

lemma resolve_same:
  assumes "same_answers now r s"
  shows "fst (ResolveIPAddr lookup now stored host r) = fst (ResolveIPAddr lookup now stored host s)"
    and "same_answers now (snd (ResolveIPAddr lookup now stored host r)) (snd (ResolveIPAddr lookup now stored host s))"
proof -
  have l: "live now r host = live now s host" "ttl r = ttl s" using assms by (simp_all add: same_answers_def)
  let ?q = "\<lambda>r. (case lookup host of None \<Rightarrow> (Inl (ErrLookup host), r)
    | Some as \<Rightarrow> if as = [] then (Inl (ErrNoIPs host), r)
        else (Inr as, r\<lparr>cache := AList.update host \<lparr> ips = as, expiresAt = stored + ttl r \<rparr> (cache r)\<rparr>))"
  have R: "ResolveIPAddr lookup now stored host r = (if host = ''localhost'' then (Inr [v4_prefix @ [127, 0, 0, 1]], r)
      else case live now r host of Some e \<Rightarrow> (Inr (ips e), r) | None \<Rightarrow> ?q r)" for r
    by (auto simp: ResolveIPAddr_def live_def Let_def split: option.splits)
  have "same_answers now (snd (?q r)) (snd (?q s))"
    using assms by (auto simp: same_answers_def live_def amap_simps fun_eq_iff split: option.splits)
  then show "fst (ResolveIPAddr lookup now stored host r) = fst (ResolveIPAddr lookup now stored host s)"
    "same_answers now (snd (ResolveIPAddr lookup now stored host r)) (snd (ResolveIPAddr lookup now stored host s))"
    using assms l by (auto simp: R split: option.splits)
qed

lemma dns_out: "snd (dns_step (r, out) e) = out @ snd (dns_step (r, []) e)"
  "fst (dns_step (r, out) e) = fst (dns_step (r, []) e)"
  by (cases e; simp split: prod.split)+

lemma dns_run_out: "foldl dns_step (r, out) es
    = (fst (foldl dns_step (r, []) es), out @ snd (foldl dns_step (r, []) es))"
proof (induction es arbitrary: r out)
  case (Cons e es)
  obtain q o1 where q: "dns_step (r, []) e = (q, o1)" by fastforce
  then have "dns_step (r, out) e = (q, out @ o1)" using dns_out [of r out e] by (simp add: prod_eq_iff)
  then show ?case using Cons.IH [of q "out @ o1"] Cons.IH [of q o1] q by simp
qed simp

lemma clean_unobservable:
  assumes "same_answers t r s" "resolver_wf r" "resolver_wf s" "sorted (map event_time es)" "\<forall>e\<in>set es. t \<le> event_time e"
  shows "snd (foldl dns_step (r, out) es) = snd (foldl dns_step (s, out) (filter is_query es))"
  using assms
proof (induction es arbitrary: r s t out)
  case (Cons e es)
  have later: "\<forall>f\<in>set es. event_time e \<le> event_time f" "sorted (map event_time es)" "t \<le> event_time e"
    using Cons.prems by auto
  have same: "same_answers (event_time e) r s" by (rule same_answers_later [OF Cons.prems(1) later(3)])
  show ?case
  proof (cases e)
    case (Query answer now stored host)
    let ?r = "ResolveIPAddr (\<lambda>_. answer) now stored host r" and ?s = "ResolveIPAddr (\<lambda>_. answer) now stored host s"
    have "same_answers (event_time e) (snd ?r) (snd ?s)" "fst ?r = fst ?s"
      using resolve_same [of now r s] same by (simp_all add: Query)
    then show ?thesis
      using Cons.IH [of "event_time e" "snd ?r" "snd ?s" "out @ [fst ?r]"] resolve_wf Cons.prems(2,3) later
      by (simp add: Query split_beta)
  next
    case (Clean now)
    have "same_answers (event_time e) (cleanup now r) s"
      using cleanup_facts(2) [OF Cons.prems(2), of now] same by (simp add: Clean same_answers_def)
    then show ?thesis
      using Cons.IH [of "event_time e" "cleanup now r" s] cleanup_facts(1) [OF Cons.prems(2)] Cons.prems(3) later
      by (simp add: Clean)
  qed
qed simp

text \<open>Every entry is the stored answer of an earlier query.\<close>

definition from_queries :: "dns_event list \<Rightarrow> CachedResolver \<Rightarrow> bool" where
  "from_queries es r \<longleftrightarrow> (\<forall>h e. map_of (cache r) h = Some e \<longrightarrow>
     (\<exists>now. Query (Some (ips e)) now (expiresAt e - ttl r) h \<in> set es))"

lemma dns_step_from:
  assumes "resolver_wf r" "from_queries es r"
  shows "resolver_wf (fst (dns_step (r, out) e)) \<and> from_queries (es @ [e]) (fst (dns_step (r, out) e))
    \<and> ttl (fst (dns_step (r, out) e)) = ttl r"
proof (cases e)
  case (Query answer now stored host)
  have "ttl (snd (ResolveIPAddr l n st h r)) = ttl r" for l n st h
    by (auto simp: ResolveIPAddr_def Let_def split: option.splits)
  moreover have "from_queries (es @ [e]) (snd (ResolveIPAddr (\<lambda>_. answer) now stored host r))"
    using assms(2) Query unfolding from_queries_def
    by (auto simp: ResolveIPAddr_def Let_def amap_simps split: option.splits if_splits)
  ultimately show ?thesis using resolve_wf [OF assms(1)] by (simp add: Query split_beta)
next
  case (Clean now)
  have w: "amap_wf (cache r)" using assms(1) by (simp add: resolver_wf_def)
  have "from_queries (es @ [e]) (cleanup now r)"
    using assms(2) by (auto simp: from_queries_def cleanup_def filter_lookup [OF w] split: option.splits if_splits)
  then show ?thesis using cleanup_facts [OF assms(1)] by (simp add: Clean)
qed

lemma dns_run_from:
  "resolver_wf (fst (foldl dns_step (NewCachedResolver t, []) es))
   \<and> from_queries es (fst (foldl dns_step (NewCachedResolver t, []) es))
   \<and> ttl (fst (foldl dns_step (NewCachedResolver t, []) es)) = t"
proof (induction es rule: rev_induct)
  case Nil
  show ?case by (simp add: NewCachedResolver_def resolver_wf_def from_queries_def amap_wf_def)
next
  case (snoc e es)
  obtain r out where "foldl dns_step (NewCachedResolver t, []) es = (r, out)" by fastforce
  then show ?case using dns_step_from [of r es out e] snoc by simp
qed

section \<open>Properties\<close>

text \<open>C22. The cache in any run of calls and clean-ups whose times do not go back. The clean-ups that run
  every 100 ms beside the calls cannot be observed: the answers are those of the run without them. And no
  answer is stale: what a call returns for a host other than \<^verbatim>\<open>localhost\<close> is the answer the name server
  gives now, or one it gave to an earlier call for that host that has not outlived the time to live.\<close>

theorem dns_cache:
  assumes "sorted (map event_time es)"
    and "foldl dns_step (NewCachedResolver t, []) es = (r, out)"
    and "host \<noteq> ''localhost''"
  shows "out = snd (foldl dns_step (NewCachedResolver t, []) (filter is_query es))
    \<and> (\<forall>answer now stored addrs. fst (ResolveIPAddr (\<lambda>_. answer) now stored host r) = Inr addrs \<longrightarrow>
        addrs \<noteq> [] \<and> (answer = Some addrs
          \<or> (\<exists>n st. Query (Some addrs) n st host \<in> set es \<and> now < st + t)))"
proof -
  let ?n = "NewCachedResolver t"
  have w: "resolver_wf ?n" "same_answers m ?n ?n" for m
    by (simp_all add: NewCachedResolver_def resolver_wf_def amap_wf_def same_answers_def)
  have "\<exists>m. \<forall>e\<in>set es. m \<le> event_time e"
    by (cases "es = []") (auto intro!: exI [of _ "Min (event_time ` set es)"])
  then obtain m where "\<forall>e\<in>set es. m \<le> event_time e" by blast
  then have "out = snd (foldl dns_step (?n, []) (filter is_query es))"
    using clean_unobservable [OF w(2,1,1) assms(1), of m "[]"] assms(2) by simp
  moreover have "addrs \<noteq> [] \<and> (answer = Some addrs \<or> (\<exists>n st. Query (Some addrs) n st host \<in> set es \<and> now < st + t))"
    if "fst (ResolveIPAddr (\<lambda>_. answer) now stored host r) = Inr addrs" for answer now stored addrs
  proof -
    have f: "resolver_wf r" "from_queries es r" "ttl r = t"
      using dns_run_from [of t es] assms(2) by simp_all
    show ?thesis
    proof (cases "\<exists>e. map_of (cache r) host = Some e \<and> now < expiresAt e")
      case True
      then obtain e where e: "map_of (cache r) host = Some e" "now < expiresAt e" by blast
      then have a: "addrs = ips e" using that assms(3) by (simp add: ResolveIPAddr_def Let_def)
      obtain n where n: "Query (Some addrs) n (expiresAt e - t) host \<in> set es"
        using f(2,3) e(1) a by (auto simp: from_queries_def)
      have "addrs \<noteq> []" using f(1) e(1) a by (simp add: resolver_wf_def)
      moreover have "now < (expiresAt e - t) + t" using e(2) by simp
      ultimately show ?thesis using n by metis
    next
      case False
      then show ?thesis using that assms(3)
        by (auto simp: ResolveIPAddr_def Let_def split: option.splits if_splits)
    qed
  qed
  ultimately show ?thesis by blast
qed

theorem dns_cache_witness:
  "\<exists>r out. foldl dns_step (NewCachedResolver 10, [])
       [Query (Some [[1, 2, 3, 4]]) 0 0 ''h'', Clean 5, Query None 6 6 ''h'', Clean 11] = (r, out)
     \<and> out = [Inr [[1, 2, 3, 4]], Inr [[1, 2, 3, 4]]] \<and> cache r = []"
proof -
  let ?es = "[Query (Some [[1, 2, 3, 4]]) 0 0 ''h'', Clean 5, Query None 6 6 ''h'', Clean 11]"
  obtain r out where r: "foldl dns_step (NewCachedResolver 10, []) ?es = (r, out)" by fastforce
  have "sorted (map event_time ?es)" by simp
  from dns_cache [OF this r, of "''h''"]
  have "out = snd (foldl dns_step (NewCachedResolver 10, []) (filter is_query ?es))" by simp
  then have "out = [Inr [[1, 2, 3, 4]], Inr [[1, 2, 3, 4]]]"
    by (simp add: ResolveIPAddr_def NewCachedResolver_def)
  moreover have "cache r = []" using r by (auto simp: ResolveIPAddr_def NewCachedResolver_def cleanup_def)
  ultimately show ?thesis using r by blast
qed

end
