(* ===== verification/Externals.thy ===== *)
theory Externals
  imports Prelude
begin

text \<open>
  The code the repository calls and does not contain, as one record of functions that the
  definitions take as an argument: SHA-256 and HMAC-SHA256, XChaCha20-Poly1305
  (\<^verbatim>\<open>chacha20poly1305.NewX\<close>), zstd (\<^verbatim>\<open>klauspost/compress\<close>) and Reed-Solomon
  (\<^verbatim>\<open>klauspost/reedsolomon\<close>). Below them, the documented behaviour of each that some
  theorem relies on, as predicates a theorem names as a hypothesis, and a concrete
  instance on which the witnesses evaluate.
\<close>

record externals =
  sha256 :: "bytes \<Rightarrow> bytes"
  hmac_sha256 :: "bytes \<Rightarrow> bytes \<Rightarrow> bytes"
    \<comment> \<open>key, then everything written to the MAC\<close>
  aead_seal :: "bytes \<Rightarrow> bytes \<Rightarrow> bytes \<Rightarrow> bytes"
    \<comment> \<open>key, nonce, plaintext; no additional data\<close>
  aead_open :: "bytes \<Rightarrow> bytes \<Rightarrow> bytes \<Rightarrow> bytes option"
  zstd_new_writer :: "int \<Rightarrow> bool" \<comment> \<open>NewWriter at this level succeeds\<close>
  zstd_new_reader :: bool
  zstd_encode :: "int \<Rightarrow> bytes \<Rightarrow> bytes" \<comment> \<open>EncodeAll of an encoder of this level\<close>
  zstd_decode :: "bytes \<Rightarrow> bytes option" \<comment> \<open>DecodeAll\<close>
  rs_new :: "int \<Rightarrow> int \<Rightarrow> bool" \<comment> \<open>New(data, parity) succeeds\<close>
  rs_parity :: "nat \<Rightarrow> nat \<Rightarrow> bytes list \<Rightarrow> bytes list option"
    \<comment> \<open>Encode: the parity shards of the data shards\<close>
  rs_reconstruct :: "nat \<Rightarrow> nat \<Rightarrow> bytes option list \<Rightarrow> bytes option list option"

section \<open>Documented behaviour\<close>

text \<open>Opening what was sealed under the same key and nonce gives the plaintext; the
  ciphertext is the 16-byte tag longer.\<close>

definition aead_correct :: "externals \<Rightarrow> bool" where
  "aead_correct x \<longleftrightarrow>
     (\<forall>k n p. aead_open x k n (aead_seal x k n p) = Some p
        \<and> length (aead_seal x k n p) = length p + 16)"

text \<open>zstd is lossless at every level, for what its encoder produced.\<close>

definition zstd_correct :: "externals \<Rightarrow> bool" where
  "zstd_correct x \<longleftrightarrow> (\<forall>l d. zstd_decode x (zstd_encode x l d) = Some d)"

text \<open>SHA-256 and HMAC-SHA256 digests have 32 bytes.\<close>

definition digests_correct :: "externals \<Rightarrow> bool" where
  "digests_correct x \<longleftrightarrow>
     (\<forall>m. length (sha256 x m) = 32) \<and> (\<forall>k m. length (hmac_sha256 x k m) = 32)"

text \<open>
  Reed-Solomon: \<^verbatim>\<open>New\<close> wants at least one data shard and no negative count;
  \<^verbatim>\<open>Reconstruct\<close> wants the non-empty shards to have one size and fills every shard with
  that size. With \<open>d\<close> data and \<open>p\<close> parity shards, any \<open>d\<close> of the shards give all of them back.
\<close>

definition rs_valid :: "externals \<Rightarrow> bool" where
  "rs_valid x \<longleftrightarrow>
     (\<forall>d p. rs_new x d p \<longrightarrow> 0 < d \<and> 0 \<le> p)
     \<and> (\<forall>d p data par. rs_parity x d p data = Some par \<longrightarrow> length par = p)
     \<and> (\<forall>d p s s'. rs_reconstruct x d p s = Some s' \<longrightarrow> length s' = length s
          \<and> (\<exists>L. (\<forall>a. Some a \<in> set s \<and> a \<noteq> [] \<longrightarrow> length a = L)
                \<and> (\<forall>a. Some a \<in> set s' \<longrightarrow> length a = L)))"

text \<open>The parity shards have the size of the data shards.\<close>

definition rs_sizes :: "externals \<Rightarrow> bool" where
  "rs_sizes x \<longleftrightarrow> (\<forall>d p data par L. data \<noteq> [] \<and> (\<forall>s\<in>set data. length s = L)
     \<and> rs_parity x d p data = Some par \<longrightarrow> (\<forall>s\<in>set par. length s = L))"

definition erasure_of :: "'a list \<Rightarrow> 'a option list \<Rightarrow> bool" where
  "erasure_of word s \<longleftrightarrow> length s = length word
     \<and> (\<forall>i<length word. s ! i = None \<or> s ! i = Some (word ! i))"

definition rs_correct :: "externals \<Rightarrow> nat \<Rightarrow> nat \<Rightarrow> bool" where
  "rs_correct x d p \<longleftrightarrow>
     (\<forall>data L. length data = d \<and> 0 < L \<and> (\<forall>s\<in>set data. length s = L) \<longrightarrow>
        (\<exists>par. rs_parity x d p data = Some par \<and> length par = p
           \<and> (\<forall>s. erasure_of (data @ par) s \<and> d \<le> length (filter (\<lambda>q. q \<noteq> None) s) \<longrightarrow>
                rs_reconstruct x d p s = Some (map Some (data @ par)))))"

lemma aead_open_seal [simp]: "aead_correct x \<Longrightarrow> aead_open x k n (aead_seal x k n p) = Some p"
  by (simp add: aead_correct_def)

lemma length_aead_seal [simp]:
  "aead_correct x \<Longrightarrow> length (aead_seal x k n p) = length p + 16"
  by (simp add: aead_correct_def)

lemma zstd_decode_encode [simp]:
  "zstd_correct x \<Longrightarrow> zstd_decode x (zstd_encode x l d) = Some d"
  by (simp add: zstd_correct_def)

lemma length_hmac [simp]: "digests_correct x \<Longrightarrow> length (hmac_sha256 x k m) = 32"
  by (simp add: digests_correct_def)

lemma length_sha256 [simp]: "digests_correct x \<Longrightarrow> length (sha256 x m) = 32"
  by (simp add: digests_correct_def)

section \<open>A concrete instance\<close>

text \<open>
  Functions with the behaviour above, simple enough to evaluate: the digest keeps the first
  bytes, the tag is sixteen 0xAA bytes, zstd run-length encodes a constant slice
  (marker, byte, 32-bit length) and stores any other, the parity shard is the exclusive or of
  the data shards, which gives back one missing shard.
\<close>

definition demo_digest :: "bytes \<Rightarrow> bytes" where
  "demo_digest m = take 32 (rev m @ replicate 32 0)"

definition demo_tag :: bytes where
  "demo_tag = replicate 16 0xAA"

definition demo_zstd_encode :: "bytes \<Rightarrow> bytes" where
  "demo_zstd_encode d =
     (case d of [] \<Rightarrow> [0]
      | b # _ \<Rightarrow> if length d < 2 ^ 32 \<and> d = replicate (length d) b
          then 1 # b # put_be32 (of_nat (length d)) else 0 # d)"

definition demo_zstd_decode :: "bytes \<Rightarrow> bytes option" where
  "demo_zstd_decode e =
     (case e of [] \<Rightarrow> None
      | m # r \<Rightarrow> if m = 0 then Some r
          else (case r of [] \<Rightarrow> None
                | b # n \<Rightarrow> Some (replicate (unat (get_be32 n)) b)))"

definition xor_shards :: "bytes list \<Rightarrow> bytes" where
  "xor_shards ss = (case ss of [] \<Rightarrow> [] | s # r \<Rightarrow> foldl (map2 (XOR)) s r)"

definition demo_parity :: "nat \<Rightarrow> nat \<Rightarrow> bytes list \<Rightarrow> bytes list option" where
  "demo_parity d p shards =
     (if p = 1 \<and> length shards = d then Some [xor_shards shards] else None)"

definition demo_reconstruct :: "nat \<Rightarrow> nat \<Rightarrow> bytes option list \<Rightarrow> bytes option list option" where
  "demo_reconstruct d p shards =
     (let have = map the (filter (\<lambda>q. q \<noteq> None) shards)
      in if have = [] \<or> (\<exists>s\<in>set have. length s \<noteq> length (hd have)) then None
         else if length have = length shards then Some shards
         else if Suc (length have) = length shards
         then Some (map (\<lambda>q. Some (case q of None \<Rightarrow> xor_shards have | Some s \<Rightarrow> s)) shards)
         else None)"

definition demo :: externals where
  "demo = \<lparr> sha256 = demo_digest, hmac_sha256 = (\<lambda>k m. demo_digest (k @ m)),
     aead_seal = (\<lambda>k n p. demo_tag @ p),
     aead_open = (\<lambda>k n c. if take 16 c = demo_tag then Some (drop 16 c) else None),
     zstd_new_writer = (\<lambda>l. 1 \<le> l), zstd_new_reader = True,
     zstd_encode = (\<lambda>l. demo_zstd_encode), zstd_decode = demo_zstd_decode,
     rs_new = (\<lambda>d p. 0 < d \<and> 0 \<le> p),
     rs_parity = demo_parity, rs_reconstruct = demo_reconstruct \<rparr>"

lemma demo_aead_correct [simp, intro]: "aead_correct demo"
  by (simp add: aead_correct_def demo_def demo_tag_def)

lemma demo_zstd_correct [simp, intro]: "zstd_correct demo"
proof -
  have "demo_zstd_decode (demo_zstd_encode d) = Some d" for d
  proof (cases d)
    case Nil
    then show ?thesis by (simp add: demo_zstd_encode_def demo_zstd_decode_def)
  next
    case (Cons b r)
    show ?thesis
    proof (cases "length d < 2 ^ 32 \<and> d = replicate (length d) b")
      case True
      then have "unat (get_be32 (put_be32 (of_nat (length d)))) = length d"
        using get_put_be32 [of "of_nat (length d)" "[]"] by (simp add: unat_of_nat_small)
      with Cons True show ?thesis
        by (simp add: demo_zstd_encode_def demo_zstd_decode_def)
    next
      case False
      with Cons show ?thesis
        by (auto simp: demo_zstd_encode_def demo_zstd_decode_def)
    qed
  qed
  then show ?thesis by (simp add: zstd_correct_def demo_def)
qed

lemma demo_digests_correct [simp, intro]: "digests_correct demo"
  by (auto simp: digests_correct_def demo_def demo_digest_def min_def)

lemma length_foldl_xor [simp]:
  "\<forall>t\<in>set ss. length t = length s \<Longrightarrow> length (foldl (map2 (XOR)) s ss) = length (s :: bytes)"
  by (induction ss arbitrary: s) simp_all

lemma length_xor_shards:
  "ss \<noteq> [] \<Longrightarrow> \<forall>t\<in>set ss. length t = L \<Longrightarrow> length (xor_shards ss) = L"
  by (cases ss) (simp_all add: xor_shards_def)

lemma demo_rs_valid [simp, intro]: "rs_valid demo"
proof -
  have "length s' = length s \<and> (\<exists>L. (\<forall>a. Some a \<in> set s \<and> a \<noteq> [] \<longrightarrow> length a = L)
      \<and> (\<forall>a. Some a \<in> set s' \<longrightarrow> length a = L))"
    if r: "demo_reconstruct d p s = Some s'" for d p s s'
  proof -
    let ?have = "map the (filter (\<lambda>q. q \<noteq> None) s)"
    have h: "?have \<noteq> []" "\<forall>t\<in>set ?have. length t = length (hd ?have)"
      "s' = s \<and> length ?have = length s
        \<or> s' = map (\<lambda>q. Some (case q of None \<Rightarrow> xor_shards ?have | Some t \<Rightarrow> t)) s"
      using r unfolding demo_reconstruct_def Let_def by (auto split: if_splits)
    have x: "length (xor_shards ?have) = length (hd ?have)"
      using h by (intro length_xor_shards) auto
    have a: "length a = length (hd ?have)" if "Some a \<in> set s" for a
      using h(2) that by (force simp: image_iff)
    have "length a = length (hd ?have)" if "Some a \<in> set s'" for a
      using h(3) that a x by (auto split: option.splits)
    moreover have "length s' = length s" using h(3) by auto
    ultimately show ?thesis using a by blast
  qed
  then show ?thesis
    by (auto simp: rs_valid_def demo_def demo_parity_def split: if_splits)
qed

lemma demo_rs_sizes [simp, intro]: "rs_sizes demo"
  by (auto simp: rs_sizes_def demo_def demo_parity_def length_xor_shards split: if_splits)

end
