(* ===== verification/Tls.thy ===== *)
theory Tls
  imports Externals
begin

text \<open>
  The TLS connection of the protocol package (\<^verbatim>\<open>pkg/protocol/connection.go\<close>) and its cipher
  (\<^verbatim>\<open>pkg/protocol/crypto.go\<close>). A \<^verbatim>\<open>net.Conn\<close> is the chunks its reads will give and the chunks that
  were written to it; the handshakes of uTLS and of \<^verbatim>\<open>crypto/tls\<close> and ChaCha20-Poly1305 are
  arguments. Deadlines only decide when a read without data fails.
\<close>

section \<open>Byte streams\<close>

record stream =
  incoming :: "bytes list"
  outgoing :: "bytes list"
  write_ok :: bool
  stream_closed :: bool

definition stream_read :: "nat \<Rightarrow> stream \<Rightarrow> (bytes \<times> stream) option" where
  "stream_read n s =
     (if stream_closed s then None
      else case dropWhile (\<lambda>c. c = []) (incoming s) of
             [] \<Rightarrow> None
           | c # cs \<Rightarrow> if length c \<le> n then Some (c, s\<lparr>incoming := cs\<rparr>)
                      else Some (take n c, s\<lparr>incoming := drop n c # cs\<rparr>))"

definition stream_write :: "bytes \<Rightarrow> stream \<Rightarrow> stream option" where
  "stream_write b s = (if stream_closed s \<or> \<not> write_ok s then None else Some (s\<lparr>outgoing := outgoing s @ [b]\<rparr>))"

text \<open>\<^verbatim>\<open>io.ReadFull\<close> over any \<^verbatim>\<open>Read\<close>; the first number bounds the reads.\<close>

fun io_ReadFull :: "(nat \<Rightarrow> 's \<Rightarrow> (bytes \<times> 's) option) \<Rightarrow> nat \<Rightarrow> nat \<Rightarrow> 's \<Rightarrow> bytes option \<times> 's" where
  "io_ReadFull rd f 0 s = (Some [], s)"
| "io_ReadFull rd 0 (Suc n) s = (None, s)"
| "io_ReadFull rd (Suc f) (Suc n) s =
     (case rd (Suc n) s of
        None \<Rightarrow> (None, s)
      | Some (b, t) \<Rightarrow> (case io_ReadFull rd f (Suc n - length b) t of (r, u) \<Rightarrow> (map_option ((@) b) r, u)))"

text \<open>What \<^verbatim>\<open>io.Reader\<close> promises here: a read gives some of the next bytes, and fails only at the end.\<close>

locale byte_reader =
  fixes rd :: "nat \<Rightarrow> 's \<Rightarrow> (bytes \<times> 's) option"
    and pending :: "'s \<Rightarrow> bytes"
  assumes rd_some: "0 < n \<Longrightarrow> rd n s = Some (b, t) \<Longrightarrow> b \<noteq> [] \<and> length b \<le> n \<and> pending s = b @ pending t"
    and rd_none: "rd n s = None \<Longrightarrow> pending s = []"
begin

lemma ReadFull_enough:
  "n \<le> f \<Longrightarrow> n \<le> length (pending s)
   \<Longrightarrow> \<exists>t. io_ReadFull rd f n s = (Some (take n (pending s)), t) \<and> pending t = drop n (pending s)"
proof (induction f arbitrary: n s)
  case (Suc f)
  show ?case
  proof (cases n)
    case (Suc m)
    obtain b t where b: "rd (Suc m) s = Some (b, t)" using Suc.prems rd_none [of "Suc m" s] Suc by fastforce
    have p: "b \<noteq> []" "length b \<le> Suc m" "pending s = b @ pending t" using rd_some [OF _ b] by simp_all
    obtain l where "length b = Suc l" using p(1) by (cases b) simp_all
    then have "Suc m - length b \<le> f" "Suc m - length b \<le> length (pending t)"
      using Suc.prems p(2,3) Suc by simp_all
    from Suc.IH [OF this] obtain u where
      "io_ReadFull rd f (Suc m - length b) t = (Some (take (Suc m - length b) (pending t)), u)"
      "pending u = drop (Suc m - length b) (pending t)" by blast
    then show ?thesis using p Suc by (simp add: b)
  qed simp
qed simp

lemma ReadFull_short: "length (pending s) < n \<Longrightarrow> fst (io_ReadFull rd f n s) = None"
proof (induction f arbitrary: n s)
  case 0
  then show ?case by (cases n) simp_all
next
  case (Suc f)
  obtain m where n: "n = Suc m" using Suc.prems by (cases n) simp_all
  show ?case
  proof (cases "rd (Suc m) s")
    case (Some x)
    obtain b t where b: "rd (Suc m) s = Some (b, t)" using Some by (cases x) simp
    have p: "b \<noteq> []" "pending s = b @ pending t" using rd_some [OF _ b] by simp_all
    have "0 < length b" using p(1) by simp
    then have "length (pending t) < Suc m - length b" using Suc.prems p(2) n by simp
    from Suc.IH [OF this] show ?thesis by (simp add: n b split_beta)
  qed (simp add: n)
qed

end

definition stream_pending :: "stream \<Rightarrow> bytes" where
  "stream_pending s = (if stream_closed s then [] else concat (incoming s))"

lemma concat_dropWhile_Nil: "concat (dropWhile (\<lambda>c. c = []) cs) = concat cs"
  by (induction cs) simp_all

interpretation net_conn: byte_reader stream_read stream_pending
proof
  fix n s b t
  assume n: "0 < n" and r: "stream_read n s = Some (b, t)"
  then obtain c cs where c: "dropWhile (\<lambda>c. c = []) (incoming s) = c # cs" "\<not> stream_closed s"
    by (auto simp: stream_read_def split: if_splits list.splits)
  then have "c \<noteq> []" by (metis (mono_tags) hd_dropWhile list.distinct(1) list.sel(1))
  moreover have "concat (incoming s) = c @ concat cs"
    using concat_dropWhile_Nil [of "incoming s"] c(1) by simp
  ultimately show "b \<noteq> [] \<and> length b \<le> n \<and> stream_pending s = b @ stream_pending t"
    using n r c by (auto simp: stream_read_def stream_pending_def append_assoc [symmetric] simp del: append_assoc split: if_splits)
next
  fix n s
  assume "stream_read n s = None"
  then show "stream_pending s = []"
    using concat_dropWhile_Nil [of "incoming s"]
    by (auto simp: stream_read_def stream_pending_def split: if_splits list.splits)
qed

section \<open>The cipher\<close>

text \<open>\<^verbatim>\<open>chacha20poly1305.New\<close>: key, nonce of 12 bytes, data.\<close>

record tls_externals = externals +
  chacha_seal :: "bytes \<Rightarrow> bytes \<Rightarrow> bytes \<Rightarrow> bytes"
  chacha_open :: "bytes \<Rightarrow> bytes \<Rightarrow> bytes \<Rightarrow> bytes option"

definition chacha_correct :: "tls_externals \<Rightarrow> bool" where
  "chacha_correct x \<longleftrightarrow> (\<forall>k n p. chacha_open x k n (chacha_seal x k n p) = Some p
     \<and> length (chacha_seal x k n p) = length p + 16)"

datatype tls_error = ErrCipher | ErrNonce | ErrTooShort | ErrDecrypt | ErrRead | ErrWrite | ErrRecordType
  | ErrHandshake | ErrSendAuth | ErrAuthRead | ErrRejected bytes | ErrAuthFormat string | ErrSendOK
  | ErrHello | ErrTarget

definition NonceSize :: nat where
  "NonceSize = 12"

definition DeriveKey :: "tls_externals \<Rightarrow> string \<Rightarrow> bytes" where
  "DeriveKey x secret = sha256 x (bytes_of_string secret)"

text \<open>The nonce is what the random source gives.\<close>

definition EncryptChaCha20Poly1305 :: "tls_externals \<Rightarrow> bytes option \<Rightarrow> bytes \<Rightarrow> bytes \<Rightarrow> tls_error + bytes" where
  "EncryptChaCha20Poly1305 x rand key plaintext =
     (if length key \<noteq> 32 then Inl ErrCipher
      else case rand of
             None \<Rightarrow> Inl ErrNonce
           | Some nonce \<Rightarrow> Inr (nonce @ chacha_seal x key nonce plaintext))"

definition DecryptChaCha20Poly1305 :: "tls_externals \<Rightarrow> bytes \<Rightarrow> bytes \<Rightarrow> tls_error + bytes" where
  "DecryptChaCha20Poly1305 x key ciphertext =
     (if length key \<noteq> 32 then Inl ErrCipher
      else if length ciphertext < NonceSize then Inl ErrTooShort
      else case chacha_open x key (take NonceSize ciphertext) (drop NonceSize ciphertext) of
             None \<Rightarrow> Inl ErrDecrypt
           | Some plaintext \<Rightarrow> Inr plaintext)"

definition EncryptAESGCM :: "tls_externals \<Rightarrow> bytes option \<Rightarrow> bytes \<Rightarrow> bytes \<Rightarrow> tls_error + bytes" where
  "EncryptAESGCM x rand key plaintext = EncryptChaCha20Poly1305 x rand key plaintext"

definition DecryptAESGCM :: "tls_externals \<Rightarrow> bytes \<Rightarrow> bytes \<Rightarrow> tls_error + bytes" where
  "DecryptAESGCM x key ciphertext = DecryptChaCha20Poly1305 x key ciphertext"

section \<open>The connection\<close>

record Connection =
  conn :: stream
  sessionKey :: bytes
  tlsConn :: "stream option"

definition NewConnection :: "tls_externals \<Rightarrow> stream \<Rightarrow> string \<Rightarrow> Connection" where
  "NewConnection x c secret = \<lparr> conn = c, sessionKey = DeriveKey x secret, tlsConn = None \<rparr>"

text \<open>\<^verbatim>\<open>Dial\<close>, given what the protected dialler returns.\<close>

definition Dial :: "tls_externals \<Rightarrow> stream option \<Rightarrow> string \<Rightarrow> Connection option" where
  "Dial x dialed secret = map_option (\<lambda>c. NewConnection x c secret) dialed"

definition Connection_Close :: "Connection \<Rightarrow> Connection" where
  "Connection_Close c =
     (case tlsConn c of
        Some t \<Rightarrow> c\<lparr>tlsConn := Some (t\<lparr>stream_closed := True\<rparr>), conn := (conn c)\<lparr>stream_closed := True\<rparr>\<rparr>
      | None \<Rightarrow> c\<lparr>conn := (conn c)\<lparr>stream_closed := True\<rparr>\<rparr>)"

definition Connection_Read :: "nat \<Rightarrow> Connection \<Rightarrow> (bytes \<times> Connection) option" where
  "Connection_Read n c =
     (case tlsConn c of
        Some t \<Rightarrow> map_option (\<lambda>(b, t). (b, c\<lparr>tlsConn := Some t\<rparr>)) (stream_read n t)
      | None \<Rightarrow> map_option (\<lambda>(b, t). (b, c\<lparr>conn := t\<rparr>)) (stream_read n (conn c)))"

definition Connection_Write :: "bytes \<Rightarrow> Connection \<Rightarrow> Connection option" where
  "Connection_Write b c =
     (case tlsConn c of
        Some t \<Rightarrow> map_option (\<lambda>t. c\<lparr>tlsConn := Some t\<rparr>) (stream_write b t)
      | None \<Rightarrow> map_option (\<lambda>t. c\<lparr>conn := t\<rparr>) (stream_write b (conn c)))"

text \<open>Both record functions use the inner connection, whatever \<^verbatim>\<open>tlsConn\<close> holds.\<close>

definition WriteTLSRecord :: "tls_externals \<Rightarrow> bytes option \<Rightarrow> bytes \<Rightarrow> Connection \<Rightarrow> (tls_error + unit) \<times> Connection" where
  "WriteTLSRecord x rand payload c =
     (case EncryptChaCha20Poly1305 x rand (sessionKey c) payload of
        Inl e \<Rightarrow> (Inl e, c)
      | Inr encPayload \<Rightarrow>
          let record = [0x17, 0x03, 0x03] @ put_be16 (of_nat (length encPayload)) @ encPayload
          in case stream_write record (conn c) of
               None \<Rightarrow> (Inl ErrWrite, c)
             | Some s \<Rightarrow> (Inr (), c\<lparr>conn := s\<rparr>))"

definition ReadTLSRecord :: "tls_externals \<Rightarrow> Connection \<Rightarrow> (tls_error + bytes) \<times> Connection" where
  "ReadTLSRecord x c =
     (case io_ReadFull stream_read 5 5 (conn c) of
        (None, s) \<Rightarrow> (Inl ErrRead, c\<lparr>conn := s\<rparr>)
      | (Some header, s) \<Rightarrow>
          if hd header \<noteq> 0x17 then (Inl ErrRecordType, c\<lparr>conn := s\<rparr>)
          else let length = unat (get_be16 (drop 3 header))
               in case io_ReadFull stream_read length length s of
                    (None, s) \<Rightarrow> (Inl ErrRead, c\<lparr>conn := s\<rparr>)
                  | (Some payload, s) \<Rightarrow> (DecryptChaCha20Poly1305 x (sessionKey c) payload, c\<lparr>conn := s\<rparr>))"

section \<open>Handshakes\<close>

text \<open>\<open>utls sni\<close> is the stream inside the TLS session, \<open>None\<close> when the handshake fails.\<close>

definition HandshakeClientReality :: "tls_externals \<Rightarrow> (string \<Rightarrow> stream \<Rightarrow> stream option) \<Rightarrow> bytes option
    \<Rightarrow> string \<Rightarrow> string \<Rightarrow> Connection \<Rightarrow> (tls_error + unit) \<times> Connection" where
  "HandshakeClientReality x utls rand sni sessionID c =
     (case utls sni (conn c) of
        None \<Rightarrow> (Inl ErrHandshake, c\<lparr>conn := (conn c)\<lparr>stream_closed := True\<rparr>\<rparr>)
      | Some uConn \<Rightarrow>
          (case WriteTLSRecord x rand (bytes_of_string (''AUTH:'' @ sessionID)) (c\<lparr>conn := uConn\<rparr>) of
             (Inl e, c) \<Rightarrow> (Inl ErrSendAuth, c)
           | (Inr _, c) \<Rightarrow>
               (case stream_read 256 (conn c) of
                  None \<Rightarrow> (Inl ErrAuthRead, c)
                | Some (resp, s) \<Rightarrow>
                    (if resp = bytes_of_string ''OK'' then Inr () else Inl (ErrRejected resp), c\<lparr>conn := s\<rparr>))))"

definition HandshakeClient :: "tls_externals \<Rightarrow> (string \<Rightarrow> stream \<Rightarrow> stream option) \<Rightarrow> bytes option
    \<Rightarrow> string \<Rightarrow> string \<Rightarrow> Connection \<Rightarrow> (tls_error + unit) \<times> Connection" where
  "HandshakeClient x utls rand sni sessionID c = HandshakeClientReality x utls rand sni sessionID c"

text \<open>The server's TLS handshake gives the server name and the stream inside.\<close>

definition HandshakeServerTLS :: "(stream \<Rightarrow> (string \<times> stream) option) \<Rightarrow> Connection
    \<Rightarrow> (tls_error + string) \<times> Connection" where
  "HandshakeServerTLS tls c =
     (case tls (conn c) of
        None \<Rightarrow> (Inl ErrHandshake, c\<lparr>conn := (conn c)\<lparr>stream_closed := True\<rparr>\<rparr>)
      | Some (name, t) \<Rightarrow> (Inr name, c\<lparr>tlsConn := Some t\<rparr>))"

definition HandshakeServer :: "(stream \<Rightarrow> (string \<times> stream) option) \<Rightarrow> Connection
    \<Rightarrow> string \<times> (tls_error + string) \<times> Connection" where
  "HandshakeServer tls c =
     (case HandshakeServerTLS tls c of
        (Inl e, c) \<Rightarrow> ([], Inl e, c)
      | (Inr sni, c) \<Rightarrow>
          (case stream_read 256 (the (tlsConn c)) of
             None \<Rightarrow> (sni, Inl ErrAuthRead, c)
           | Some (auth, t) \<Rightarrow>
               let c = c\<lparr>tlsConn := Some t\<rparr>; authStr = string_of_bytes auth
               in if length authStr < 6 \<or> take 5 authStr \<noteq> ''AUTH:'' then (sni, Inl (ErrAuthFormat authStr), c)
                  else (case stream_write (bytes_of_string ''OK'') t of
                          None \<Rightarrow> (sni, Inl ErrSendOK, c)
                        | Some t \<Rightarrow> (sni, Inr (drop 5 authStr), c\<lparr>tlsConn := Some t\<rparr>))))"

text \<open>
  \<^verbatim>\<open>HandshakeServerProxy\<close>: \<open>dial\<close> gives the connection to the real target, with what it answers. The
  result is the error or the target's name, then the client's and the target's connection; at the end a
  goroutine copies the rest of the client's bytes to the target and closes both.
\<close>

definition HandshakeServerProxy :: "(string \<Rightarrow> stream option) \<Rightarrow> string \<Rightarrow> stream
    \<Rightarrow> (tls_error + string) \<times> stream \<times> stream option" where
  "HandshakeServerProxy dial targetDomain client_conn =
     (case stream_read 65535 client_conn of
        None \<Rightarrow> (Inl ErrHello, client_conn, None)
      | Some (clientHello, client_conn) \<Rightarrow>
          (case dial (targetDomain @ '':443'') of
             None \<Rightarrow> (Inl ErrTarget, client_conn, None)
           | Some target \<Rightarrow>
               (case stream_write clientHello target of
                  None \<Rightarrow> (Inl ErrWrite, client_conn, Some (target\<lparr>stream_closed := True\<rparr>))
                | Some target \<Rightarrow>
                    (case stream_read 65535 target of
                       None \<Rightarrow> (Inl ErrRead, client_conn, Some (target\<lparr>stream_closed := True\<rparr>))
                     | Some (serverResp, target) \<Rightarrow>
                         (case stream_write serverResp client_conn of
                            None \<Rightarrow> (Inl ErrWrite, client_conn, Some (target\<lparr>stream_closed := True\<rparr>))
                          | Some client_conn \<Rightarrow> (Inr targetDomain, client_conn, Some target))))))"

text \<open>The copying goroutine, run to its end.\<close>

definition relay_rest :: "stream \<Rightarrow> stream \<Rightarrow> stream \<times> stream" where
  "relay_rest client_conn target =
     (client_conn\<lparr>incoming := [], stream_closed := True\<rparr>,
      target\<lparr>outgoing := outgoing target
               @ (if stream_closed target \<or> \<not> write_ok target \<or> stream_closed client_conn then []
                  else filter (\<lambda>c. c \<noteq> []) (incoming client_conn)),
             stream_closed := True\<rparr>)"

section \<open>Lemmas\<close>

lemma encrypt_length:
  "chacha_correct x \<Longrightarrow> EncryptChaCha20Poly1305 x (Some n) k p = Inr e \<Longrightarrow> length n = 12 \<Longrightarrow> length e = length p + 28"
  by (auto simp: EncryptChaCha20Poly1305_def chacha_correct_def split: if_splits)

lemma decrypt_encrypt:
  "chacha_correct x \<Longrightarrow> length k = 32 \<Longrightarrow> length n = 12
   \<Longrightarrow> EncryptChaCha20Poly1305 x (Some n) k p = Inr e \<Longrightarrow> DecryptChaCha20Poly1305 x k e = Inr p"
  by (auto simp: EncryptChaCha20Poly1305_def DecryptChaCha20Poly1305_def NonceSize_def chacha_correct_def)

text \<open>The record on the wire.\<close>

definition tls_record :: "tls_externals \<Rightarrow> bytes \<Rightarrow> bytes \<Rightarrow> bytes \<Rightarrow> bytes" where
  "tls_record x key nonce payload =
     (let e = nonce @ chacha_seal x key nonce payload
      in [0x17, 0x03, 0x03] @ put_be16 (of_nat (length e)) @ e)"

definition writable :: "stream \<Rightarrow> bool" where
  "writable s \<longleftrightarrow> \<not> stream_closed s \<and> write_ok s"

lemma write_record:
  "length (sessionKey c) = 32 \<Longrightarrow> writable (conn c) \<Longrightarrow> WriteTLSRecord x (Some n) p c
     = (Inr (), c\<lparr>conn := (conn c)\<lparr>outgoing := outgoing (conn c) @ [tls_record x (sessionKey c) n p]\<rparr>\<rparr>)"
  by (simp add: WriteTLSRecord_def EncryptChaCha20Poly1305_def stream_write_def writable_def tls_record_def Let_def)

lemma read_full_stream:
  "\<not> stream_closed s \<Longrightarrow> n \<le> length (concat (incoming s)) \<Longrightarrow>
   \<exists>t. io_ReadFull stream_read n n s = (Some (take n (concat (incoming s))), t)
     \<and> \<not> stream_closed t \<and> concat (incoming t) = drop n (concat (incoming s))"
proof -
  assume h: "\<not> stream_closed s" "n \<le> length (concat (incoming s))"
  have keep: "stream_closed (snd (io_ReadFull stream_read f m u)) = stream_closed u" for f m u
    by (induction stream_read f m u rule: io_ReadFull.induct)
      (auto simp: stream_read_def split_beta split: option.splits list.splits if_splits)
  from h obtain t where t: "io_ReadFull stream_read n n s = (Some (take n (concat (incoming s))), t)"
    "stream_pending t = drop n (concat (incoming s))"
    using net_conn.ReadFull_enough [of n n s] by (auto simp: stream_pending_def)
  then show ?thesis using keep [of n n s] h(1) by (auto simp: stream_pending_def)
qed

lemma read_record:
  assumes "chacha_correct x" "length (sessionKey c) = 32" "length n = 12" "length p + 28 < 2 ^ 16"
    "\<not> stream_closed (conn c)" "concat (incoming (conn c)) = tls_record x (sessionKey c) n p @ rest"
  shows "\<exists>s. ReadTLSRecord x c = (Inr p, c\<lparr>conn := s\<rparr>) \<and> \<not> stream_closed s \<and> concat (incoming s) = rest"
proof -
  let ?e = "n @ chacha_seal x (sessionKey c) n p"
  let ?h = "[0x17, 0x03, 0x03] @ put_be16 (of_nat (length ?e))"
  have e: "length ?e = length p + 28" using assms(1,3) by (simp add: chacha_correct_def)
  have w: "concat (incoming (conn c)) = ?h @ ?e @ rest"
    using assms(6) by (simp add: tls_record_def Let_def)
  have h: "length ?h = 5" by simp
  obtain s where s: "io_ReadFull stream_read 5 5 (conn c) = (Some ?h, s)" "\<not> stream_closed s"
    "concat (incoming s) = ?e @ rest"
    using read_full_stream [OF assms(5), of 5] by (auto simp: w put_be16_def)
  have l: "unat (get_be16 (drop 3 ?h)) = length ?e"
    using assms(4) get_put_be16 [of "of_nat (length ?e)" "[]"] unfolding e
    by (simp add: unat_of_nat_small del: of_nat_add)
  obtain t where t: "io_ReadFull stream_read (length ?e) (length ?e) s = (Some ?e, t)" "\<not> stream_closed t"
    "concat (incoming t) = rest"
    using read_full_stream [OF s(2), of "length ?e"] by (auto simp: s(3))
  have d: "DecryptChaCha20Poly1305 x (sessionKey c) ?e = Inr p"
    using assms(1,2,3) by (intro decrypt_encrypt) (auto simp: EncryptChaCha20Poly1305_def)
  have "ReadTLSRecord x c = (Inr p, c\<lparr>conn := t\<rparr>)"
    unfolding ReadTLSRecord_def s(1) prod.case option.case l Let_def t(1) d by simp
  then show ?thesis using t by blast
qed

text \<open>A sequence of records, each payload with its nonce.\<close>

fun write_records :: "tls_externals \<Rightarrow> (bytes \<times> bytes) list \<Rightarrow> Connection \<Rightarrow> (tls_error + unit) list \<times> Connection" where
  "write_records x [] c = ([], c)"
| "write_records x ((n, p) # ps) c =
     (let (r, c) = WriteTLSRecord x (Some n) p c; (rs, c) = write_records x ps c in (r # rs, c))"

fun read_records :: "tls_externals \<Rightarrow> nat \<Rightarrow> Connection \<Rightarrow> (tls_error + bytes) list \<times> Connection" where
  "read_records x 0 c = ([], c)"
| "read_records x (Suc k) c =
     (let (r, c) = ReadTLSRecord x c; (rs, c) = read_records x k c in (r # rs, c))"

lemma write_records_wire:
  "length (sessionKey c) = 32 \<Longrightarrow> writable (conn c) \<Longrightarrow> write_records x ps c
     = (map (\<lambda>_. Inr ()) ps, c\<lparr>conn := (conn c)\<lparr>outgoing := outgoing (conn c)
          @ map (\<lambda>(n, p). tls_record x (sessionKey c) n p) ps\<rparr>\<rparr>)"
proof (induction ps arbitrary: c)
  case (Cons q ps)
  obtain n p where q: "q = (n, p)" by fastforce
  show ?case using Cons by (simp add: q write_record writable_def)
qed simp

lemma read_records_wire:
  assumes "chacha_correct x" "length (sessionKey c) = 32" "\<forall>(n, p)\<in>set ps. length n = 12 \<and> length p + 28 < 2 ^ 16"
    "\<not> stream_closed (conn c)"
    "concat (incoming (conn c)) = concat (map (\<lambda>(n, p). tls_record x (sessionKey c) n p) ps) @ rest"
  shows "\<exists>s. read_records x (length ps) c = (map (Inr \<circ> snd) ps, c\<lparr>conn := s\<rparr>) \<and> concat (incoming s) = rest"
  using assms
proof (induction ps arbitrary: c)
  case Nil
  then show ?case by (auto intro!: exI [of _ "conn c"])
next
  case (Cons q ps)
  obtain n p where q: "q = (n, p)" by fastforce
  obtain s where s: "ReadTLSRecord x c = (Inr p, c\<lparr>conn := s\<rparr>)" "\<not> stream_closed s"
    "concat (incoming s) = concat (map (\<lambda>(n, p). tls_record x (sessionKey c) n p) ps) @ rest"
    using read_record [of x c n p] Cons.prems by (auto simp: q)
  then obtain t where "read_records x (length ps) (c\<lparr>conn := s\<rparr>) = (map (Inr \<circ> snd) ps, c\<lparr>conn := t\<rparr>)"
    "concat (incoming t) = rest"
    using Cons.IH [of "c\<lparr>conn := s\<rparr>"] Cons.prems by auto
  then show ?case using s(1) by (auto simp: q intro!: exI [of _ t])
qed

text \<open>Beyond 65507 bytes the length field wraps, and the write still succeeds.\<close>

lemma record_length_wraps:
  assumes "chacha_correct x" "length n = 12"
  shows "unat (get_be16 (drop 3 (tls_record x key n p))) = (length p + 28) mod 2 ^ 16"
proof -
  have "get_be16 (drop 3 (tls_record x key n p)) = of_nat (length (n @ chacha_seal x key n p))"
    using get_put_be16 [of _ "n @ chacha_seal x key n p"] by (simp add: tls_record_def Let_def del: length_append)
  moreover have "length (n @ chacha_seal x key n p) = length p + 28" using assms by (simp add: chacha_correct_def)
  ultimately show ?thesis by (simp add: unat_of_nat del: of_nat_add length_append)
qed

lemma read_first:
  assumes "\<not> stream_closed s" "concat (incoming s) = b # rest" "0 < n"
  shows "\<exists>bs t. stream_read n s = Some (b # bs, t)"
proof (cases "stream_read n s")
  case None
  then show ?thesis using net_conn.rd_none [OF None] assms by (simp add: stream_pending_def)
next
  case (Some r)
  obtain bs t where r: "r = (bs, t)" by fastforce
  have "bs \<noteq> []" "stream_pending s = bs @ stream_pending t"
    using net_conn.rd_some [OF assms(3), of s bs t] Some r by simp_all
  then show ?thesis using assms Some r by (cases bs) (auto simp: stream_pending_def)
qed

lemma char_23: "char_of (23 :: nat) \<noteq> CHR ''A''"
  by code_simp

section \<open>Properties\<close>

text \<open>C21. Records between two ends with the same key. Whatever payloads of up to 65507 bytes one end
  writes, every write succeeds; and however the network cuts the bytes into reads, the other end reads
  exactly these payloads, in order, and leaves what follows them.\<close>

theorem tls_records:
  assumes "chacha_correct x" "length (sessionKey c) = 32" "sessionKey d = sessionKey c"
    and "writable (conn c)" "outgoing (conn c) = []" "\<not> stream_closed (conn d)"
    and "\<forall>(nonce, payload)\<in>set ps. length nonce = 12 \<and> length payload \<le> 65507"
    and "write_records x ps c = (results, c2)"
    and "concat (incoming (conn d)) = concat (outgoing (conn c2)) @ rest"
  shows "results = map (\<lambda>_. Inr ()) ps \<and> (\<exists>s. read_records x (length ps) d = (map (Inr \<circ> snd) ps, d\<lparr>conn := s\<rparr>)
    \<and> concat (incoming s) = rest)"
proof -
  have w: "results = map (\<lambda>_. Inr ()) ps"
    "concat (outgoing (conn c2)) = concat (map (\<lambda>(n, p). tls_record x (sessionKey d) n p) ps)"
    using write_records_wire [OF assms(2,4), of x ps] assms(3,5,8) by auto
  have "\<forall>(n, p)\<in>set ps. length n = 12 \<and> length p + 28 < 2 ^ 16" using assms(7) by auto
  then show ?thesis using read_records_wire [OF assms(1) _ _ assms(6)] assms(2,3,9) w by simp
qed

definition demo_tls :: tls_externals where
  "demo_tls = externals.extend demo
     \<lparr> chacha_seal = (\<lambda>k n p. p @ replicate 16 0), chacha_open = (\<lambda>k n c. Some (take (length c - 16) c)) \<rparr>"

lemma demo_chacha: "chacha_correct demo_tls"
  by (simp add: demo_tls_def chacha_correct_def externals.defs)

definition open_stream :: "bytes list \<Rightarrow> stream" where
  "open_stream cs = \<lparr> incoming = cs, outgoing = [], write_ok = True, stream_closed = False \<rparr>"

definition demo_tls_conn :: "bytes list \<Rightarrow> Connection" where
  "demo_tls_conn cs = \<lparr> conn = open_stream cs, sessionKey = replicate 32 7, tlsConn = None \<rparr>"

theorem tls_records_witness:
  "\<exists>c2 wire. write_records demo_tls [(replicate 12 5, [1, 2]), (replicate 12 6, [])] (demo_tls_conn []) = ([Inr (), Inr ()], c2)
     \<and> wire = concat (outgoing (conn c2))
     \<and> fst (read_records demo_tls 2 (demo_tls_conn [take 3 wire, [], drop 3 wire, [9]])) = [Inr [1, 2], Inr []]"
proof -
  let ?ps = "[(replicate 12 5, [1, 2]), (replicate 12 6, [])] :: (bytes \<times> bytes) list"
  obtain r c2 where w: "write_records demo_tls ?ps (demo_tls_conn []) = (r, c2)" by fastforce
  define wire where "wire = concat (outgoing (conn c2))"
  let ?d = "demo_tls_conn [take 3 wire, [], drop 3 wire, [9]]"
  have "concat (incoming (conn ?d)) = concat (outgoing (conn c2)) @ [9]"
    by (simp add: demo_tls_conn_def open_stream_def wire_def)
  from tls_records [OF demo_chacha _ _ _ _ _ _ w this]
  have "r = map (\<lambda>_. Inr ()) ?ps" "fst (read_records demo_tls (length ?ps) ?d) = map (Inr \<circ> snd) ?ps"
    by (auto simp: demo_tls_conn_def open_stream_def writable_def)
  then have "r = [Inr (), Inr ()]" "fst (read_records demo_tls 2 ?d) = [Inr [1, 2], Inr []]"
    by (simp_all only: list.map list.size snd_conv comp_apply numeral_2_eq_2 add_0 One_nat_def add_Suc_right add_0_right)
  then show ?thesis using w wire_def by blast
qed

text \<open>C38. The two handshakes of the package do not fit each other. The client sends its session id as an
  encrypted record inside the TLS session; the server expects it as plain text there. So a server rejects
  what \<^verbatim>\<open>HandshakeClient\<close> sends, whatever the id, the nonce, and the cut into reads, while it accepts the
  plain text \<^verbatim>\<open>AUTH:\<close> with an id of 1 to 251 bytes that arrives in one read, and answers it.\<close>

theorem tls_auth_mismatch:
  assumes "length (sessionKey c) = 32" "utls sni (conn c) = Some inner" "writable inner" "outgoing inner = []"
    and "HandshakeClient x utls (Some nonce) sni sessionID c = (res, c2)"
    and "tls (conn s) = Some (name, t)" "\<not> stream_closed t"
  shows "(concat (incoming t) = concat (outgoing (conn c2)) \<longrightarrow>
           (\<exists>auth s2. HandshakeServer tls s = (name, Inl (ErrAuthFormat auth), s2)))
    \<and> (incoming t = [bytes_of_string (''AUTH:'' @ ident)] \<and> ident \<noteq> [] \<and> length ident \<le> 251 \<and> write_ok t \<longrightarrow>
        (\<exists>s2 u. HandshakeServer tls s = (name, Inr ident, s2) \<and> tlsConn s2 = Some u
           \<and> outgoing u = outgoing t @ [bytes_of_string ''OK'']))"
proof (intro conjI impI)
  let ?p = "bytes_of_string (''AUTH:'' @ sessionID)"
  have "outgoing (conn c2) = [tls_record x (sessionKey c) nonce ?p]"
    using assms(1-5) write_record [of "c\<lparr>conn := inner\<rparr>" x nonce ?p]
    by (auto simp: HandshakeClient_def HandshakeClientReality_def stream_read_def simp del: bytes_of_string_append
        split: option.splits list.splits if_splits)
  moreover assume "concat (incoming t) = concat (outgoing (conn c2))"
  ultimately have "concat (incoming t) = 0x17 # drop 1 (tls_record x (sessionKey c) nonce ?p)"
    by (simp add: tls_record_def Let_def)
  then obtain bs u where r: "stream_read 256 t = Some (0x17 # bs, u)" using read_first [OF assms(7)] by fastforce
  have "take 5 (string_of_bytes (0x17 # bs)) \<noteq> ''AUTH:''"
    using char_23 by (simp add: string_of_bytes_def)
  then show "\<exists>auth s2. HandshakeServer tls s = (name, Inl (ErrAuthFormat auth), s2)"
    using r assms(6) by (simp add: HandshakeServer_def HandshakeServerTLS_def Let_def del: take_Suc_Cons)
next
  assume h: "incoming t = [bytes_of_string (''AUTH:'' @ ident)] \<and> ident \<noteq> [] \<and> length ident \<le> 251 \<and> write_ok t"
  then have "stream_read 256 t = Some (bytes_of_string (''AUTH:'' @ ident), t\<lparr>incoming := []\<rparr>)"
    using assms(7) by (simp add: stream_read_def bytes_of_string_def)
  moreover have "take 5 (''AUTH:'' @ ident) = ''AUTH:''" "drop 5 (''AUTH:'' @ ident) = ident" "\<not> length (''AUTH:'' @ ident) < 6"
    using h by (simp_all add: not_less Suc_le_eq)
  ultimately show "\<exists>s2 u. HandshakeServer tls s = (name, Inr ident, s2) \<and> tlsConn s2 = Some u
      \<and> outgoing u = outgoing t @ [bytes_of_string ''OK'']"
    using h assms(6,7)
    by (simp add: HandshakeServer_def HandshakeServerTLS_def Let_def stream_write_def
        del: append_Cons append_Nil bytes_of_string_append)
qed

theorem tls_auth_mismatch_witness:
  "\<exists>c2 auth s2. HandshakeClient demo_tls (\<lambda>_ s. Some s) (Some (replicate 12 0)) ''a.b'' ''id'' (demo_tls_conn []) = (Inl ErrAuthRead, c2)
     \<and> HandshakeServer (\<lambda>_. Some (''a.b'', open_stream (outgoing (conn c2)))) (demo_tls_conn []) = (''a.b'', Inl (ErrAuthFormat auth), s2)"
proof -
  let ?u = "\<lambda>_ s. Some s"
  obtain res c2 where c: "HandshakeClient demo_tls ?u (Some (replicate 12 0)) ''a.b'' ''id'' (demo_tls_conn []) = (res, c2)"
    by fastforce
  let ?tls = "\<lambda>_. Some (''a.b'', open_stream (outgoing (conn c2)))"
  have "\<exists>auth s2. HandshakeServer ?tls (demo_tls_conn []) = (''a.b'', Inl (ErrAuthFormat auth), s2)"
    using tls_auth_mismatch [OF _ _ _ _ c, of "conn (demo_tls_conn [])" ?tls "demo_tls_conn []" "''a.b''"
        "open_stream (outgoing (conn c2))" "[]"]
    by (auto simp: demo_tls_conn_def open_stream_def writable_def)
  moreover have "res = Inl ErrAuthRead"
    using c by (simp add: HandshakeClient_def HandshakeClientReality_def write_record demo_tls_conn_def open_stream_def
        writable_def stream_read_def)
  ultimately show ?thesis using c by blast
qed

end
