(* ===== verification/Url.thy ===== *)
theory Url
  imports Config "HOL-Library.Char_ord" "HOL-Library.List_Lexorder"
begin

text \<open>
  The share link (\<^verbatim>\<open>pkg/config/url.go\<close>): \<^verbatim>\<open>ParseMimicURL\<close> and \<^verbatim>\<open>GenerateMimicURL\<close>, over a model
  of what they use of \<^verbatim>\<open>net/url\<close> and of \<^verbatim>\<open>fmt.Sscanf\<close>.
\<close>

section \<open>Escaping\<close>

datatype url_mode = EncodePath | EncodeHost | EncodeZone | EncodeUser | EncodeQuery | EncodeFragment

definition is_alnum :: "char \<Rightarrow> bool" where
  "is_alnum c = (let n = of_char c :: nat
     in (97 \<le> n \<and> n \<le> 122) \<or> (65 \<le> n \<and> n \<le> 90) \<or> (48 \<le> n \<and> n \<le> 57))"

definition shouldEscape :: "url_mode \<Rightarrow> char \<Rightarrow> bool" where
  "shouldEscape m c =
     (if is_alnum c then False
      else if m \<in> {EncodeHost, EncodeZone} \<and> c \<in> set ''!$&()*+,;=:[]<>'' \<union> {CHR 0x27, CHR 0x22} then False
      else if c \<in> set ''-_.~'' then False
      else if c \<in> set ''$&+,/:;=?@'' \<and> m = EncodePath then c = CHR ''?''
      else if c \<in> set ''$&+,/:;=?@'' \<and> m = EncodeUser then c \<in> set ''@/?:''
      else if c \<in> set ''$&+,/:;=?@'' \<and> m = EncodeQuery then True
      else if c \<in> set ''$&+,/:;=?@'' \<and> m = EncodeFragment then False
      else if m = EncodeFragment \<and> c \<in> set ''!()*'' then False
      else True)"

definition upper_hex :: "nat \<Rightarrow> char" where
  "upper_hex n = char_of (if n < 10 then n + 48 else n + 55)"

definition escape_char :: "url_mode \<Rightarrow> char \<Rightarrow> string" where
  "escape_char m c =
     (if \<not> shouldEscape m c then [c]
      else if c = CHR '' '' \<and> m = EncodeQuery then ''+''
      else let n = of_char c :: nat in [CHR ''%'', upper_hex (n div 16), upper_hex (n mod 16)])"

definition escape :: "url_mode \<Rightarrow> string \<Rightarrow> string" where
  "escape m s = concat (map (escape_char m) s)"

fun unescape :: "url_mode \<Rightarrow> string \<Rightarrow> string option" where
  "unescape m [] = Some []"
| "unescape m (c # s) =
     (if c = CHR ''%'' then
        (case s of
           a # b # t \<Rightarrow>
             (case (hex_value a, hex_value b) of
                (Some h, Some l) \<Rightarrow>
                  if m = EncodeHost \<and> h < 8 \<and> \<not> (h = 2 \<and> l = 5) then None
                  else if m = EncodeZone \<and> \<not> (h = 2 \<and> l = 5) \<and> char_of (h * 16 + l) \<noteq> CHR '' ''
                          \<and> shouldEscape EncodeHost (char_of (h * 16 + l)) then None
                  else map_option ((#) (char_of (h * 16 + l))) (unescape m t)
              | _ \<Rightarrow> None)
         | _ \<Rightarrow> None)
      else if c = CHR ''+'' \<and> m = EncodeQuery then map_option ((#) (CHR '' '')) (unescape m s)
      else if m \<in> {EncodeHost, EncodeZone} \<and> (of_char c :: nat) < 128 \<and> shouldEscape m c then None
      else map_option ((#) c) (unescape m s))"

section \<open>Parsing and printing\<close>

record URL =
  Scheme :: string
  User :: "string option" \<comment> \<open>the user name\<close>
  url_Host :: string
  url_Path :: string
  RawQuery :: string
  Fragment :: string

definition valid_optional_port :: "string \<Rightarrow> bool" where
  "valid_optional_port p \<longleftrightarrow> p = [] \<or> (hd p = CHR '':'' \<and> list_all is_digit (tl p))"

definition is_scheme_char :: "char \<Rightarrow> bool" where
  "is_scheme_char c \<longleftrightarrow> is_alnum c \<or> c \<in> set ''+-.''"

text \<open>The scheme and the rest; \<open>None\<close> where a colon comes first.\<close>

definition getScheme :: "string \<Rightarrow> (string \<times> string) option" where
  "getScheme raw =
     (let s = takeWhile is_scheme_char raw; r = dropWhile is_scheme_char raw
      in if r \<noteq> [] \<and> hd r = CHR '':'' \<and> (s = [] \<or> is_alnum (hd s) \<and> \<not> is_digit (hd s))
         then (if s = [] then None else Some (s, tl r))
         else Some ([], raw))"

text \<open>A bracketed host must hold an IPv6 address, with a zone perhaps, and be no IPv4 in disguise.\<close>

definition literal_ok :: "string \<Rightarrow> bool" where
  "literal_ok h =
     (let (a, zone_ok) = (case cut_first CHR ''%'' h of None \<Rightarrow> (h, True) | Some (a, z) \<Rightarrow> (a, z \<noteq> []))
      in zone_ok \<and> (case ParseAddr a of Some (Addr6 ip) \<Rightarrow> take 12 ip \<noteq> v4_prefix | _ \<Rightarrow> False))"

fun split_zone :: "string \<Rightarrow> string \<times> string" where
  "split_zone [] = ([], [])"
| "split_zone (c # s) = (if HasPrefix (c # s) ''%25'' then ([], c # s)
     else let (a, z) = split_zone s in (c # a, z))"

definition parseHost :: "string \<Rightarrow> string option" where
  "parseHost host =
     (case cut_last CHR ''['' host of
        Some (pre, rest) \<Rightarrow>
          (case cut_last CHR '']'' host of
             None \<Rightarrow> None
           | Some (_, colonPort) \<Rightarrow>
               (case cut_last CHR '']'' rest of
                  None \<Rightarrow> None
                | Some (hostname, _) \<Rightarrow>
                    let (h, z) = split_zone hostname
                    in (case (unescape EncodeHost colonPort, unescape EncodeHost h, unescape EncodeZone z) of
                          (Some cp, Some h, Some z) \<Rightarrow>
                            if valid_optional_port colonPort \<and> literal_ok (h @ z)
                            then Some (''['' @ h @ z @ '']'' @ cp) else None
                        | _ \<Rightarrow> None)))
      | None \<Rightarrow>
          (case cut_last CHR '':'' host of
             Some (_, port) \<Rightarrow> if list_all is_digit port then unescape EncodeHost host else None
           | None \<Rightarrow> unescape EncodeHost host))"

definition validUserinfo :: "string \<Rightarrow> bool" where
  "validUserinfo s = list_all (\<lambda>c. is_alnum c \<or> c \<in> set ''-._:~!$&()*+,;=%@'' \<union> {CHR 0x27}) s"

definition parseAuthority :: "string \<Rightarrow> (string option \<times> string) option" where
  "parseAuthority authority =
     (case cut_last CHR ''@'' authority of
        None \<Rightarrow> map_option (Pair None) (parseHost authority)
      | Some (userinfo, h) \<Rightarrow>
          (case parseHost h of
             None \<Rightarrow> None
           | Some host \<Rightarrow>
               if \<not> validUserinfo userinfo then None
               else (case cut_first CHR '':'' userinfo of
                       None \<Rightarrow> map_option (\<lambda>u. (Some u, host)) (unescape EncodeUser userinfo)
                     | Some (u, p) \<Rightarrow>
                         (case (unescape EncodeUser u, unescape EncodeUser p) of
                            (Some u, Some _) \<Rightarrow> Some (Some u, host) | _ \<Rightarrow> None))))"

text \<open>The part before the fragment.\<close>

definition is_control :: "char \<Rightarrow> bool" where
  "is_control c \<longleftrightarrow> (of_char c :: nat) < 32 \<or> (of_char c :: nat) = 127"

definition parse_main :: "string \<Rightarrow> URL option" where
  "parse_main raw =
     (if list_ex is_control raw then None
      else if raw = ''*'' then Some \<lparr> Scheme = [], User = None, url_Host = [], url_Path = ''*'', RawQuery = [],
                                     Fragment = [] \<rparr>
      else case getScheme raw of
             None \<Rightarrow> None
           | Some (scheme, rest) \<Rightarrow>
               let scheme = ToLower scheme;
                   (rest, query) = (case cut_first CHR ''?'' rest of Some (r, q) \<Rightarrow> (r, q) | None \<Rightarrow> (rest, []))
               in if \<not> HasPrefix rest ''/'' then
                    (if scheme \<noteq> [] then Some \<lparr> Scheme = scheme, User = None, url_Host = [], url_Path = [],
                                                RawQuery = query, Fragment = [] \<rparr>
                     else if CHR '':'' \<in> set (takeWhile (\<lambda>c. c \<noteq> CHR ''/'') rest) then None
                     else map_option (\<lambda>p. \<lparr> Scheme = [], User = None, url_Host = [], url_Path = p, RawQuery = query,
                                            Fragment = [] \<rparr>) (unescape EncodePath rest))
                  else if HasPrefix rest ''//'' \<and> (scheme \<noteq> [] \<or> \<not> HasPrefix rest ''///'') then
                    let authority = takeWhile (\<lambda>c. c \<noteq> CHR ''/'') (drop 2 rest);
                        path = dropWhile (\<lambda>c. c \<noteq> CHR ''/'') (drop 2 rest)
                    in (case (parseAuthority authority, unescape EncodePath path) of
                          (Some (user, host), Some p) \<Rightarrow>
                            Some \<lparr> Scheme = scheme, User = user, url_Host = host, url_Path = p, RawQuery = query, Fragment = [] \<rparr>
                        | _ \<Rightarrow> None)
                  else map_option (\<lambda>p. \<lparr> Scheme = scheme, User = None, url_Host = [], url_Path = p, RawQuery = query,
                                         Fragment = [] \<rparr>) (unescape EncodePath rest))"

definition url_Parse :: "string \<Rightarrow> URL option" where
  "url_Parse raw =
     (let (u, frag) = (case cut_first CHR ''#'' raw of Some (u, f) \<Rightarrow> (u, f) | None \<Rightarrow> (raw, []))
      in case parse_main u of
           None \<Rightarrow> None
         | Some url \<Rightarrow> if frag = [] then Some url
                       else map_option (\<lambda>f. url\<lparr>Fragment := f\<rparr>) (unescape EncodeFragment frag))"

text \<open>\<^verbatim>\<open>URL.String\<close> of a URL without a path.\<close>

definition url_String :: "URL \<Rightarrow> string" where
  "url_String u =
     (if Scheme u \<noteq> [] then Scheme u @ '':'' else [])
     @ (if url_Host u \<noteq> [] \<or> User u \<noteq> None then ''//'' else [])
     @ (case User u of None \<Rightarrow> [] | Some n \<Rightarrow> escape EncodeUser n @ ''@'')
     @ escape EncodeHost (url_Host u)
     @ (if RawQuery u \<noteq> [] then ''?'' @ RawQuery u else [])
     @ (if Fragment u \<noteq> [] then ''#'' @ escape EncodeFragment (Fragment u) else [])"

text \<open>\<^verbatim>\<open>url.Values\<close>, with one value a key: \<^verbatim>\<open>Encode\<close> and, with the first value of a key, \<^verbatim>\<open>ParseQuery\<close>.\<close>

definition Encode_values :: "(string, string) gomap \<Rightarrow> string" where
  "Encode_values v =
     Join (map (\<lambda>(k, w). escape EncodeQuery k @ ''='' @ escape EncodeQuery w) (sort_key fst v)) ''&''"

definition parse_pair :: "string \<Rightarrow> (string \<times> string) list" where
  "parse_pair p =
     (if CHR '';'' \<in> set p \<or> p = [] then []
      else let (k, w) = (case cut_first CHR ''='' p of Some (k, w) \<Rightarrow> (k, w) | None \<Rightarrow> (p, []))
           in case (unescape EncodeQuery k, unescape EncodeQuery w) of
                (Some k, Some w) \<Rightarrow> [(k, w)] | _ \<Rightarrow> [])"

definition parse_query :: "string \<Rightarrow> (string \<times> string) list" where
  "parse_query s = concat (map parse_pair (Split s CHR ''&''))"

definition query_Get :: "(string \<times> string) list \<Rightarrow> string \<Rightarrow> string" where
  "query_Get q k = (case map_of q k of Some w \<Rightarrow> w | None \<Rightarrow> [])"

text \<open>\<^verbatim>\<open>fmt.Sscanf(s, "%d", &v)\<close>: \<open>v\<close> afterwards.\<close>

definition Sscanf_d :: "string \<Rightarrow> int \<Rightarrow> int" where
  "Sscanf_d s v =
     (let s = dropWhile (\<lambda>c. is_space c \<and> c \<noteq> CHR ''\<newline>'') s;
          neg = (s \<noteq> [] \<and> hd s = CHR ''-'');
          s = (if s \<noteq> [] \<and> (hd s = CHR ''-'' \<or> hd s = CHR ''+'') then tl s else s);
          ds = takeWhile is_digit s; n = (if neg then - int (number ds) else int (number ds))
      in if ds = [] \<or> n < - (2 ^ 63) \<or> 2 ^ 63 \<le> n then v else n)"

section \<open>Mimic links\<close>

datatype url_error = ErrInvalidURL | ErrUnsupportedScheme | ErrMissingUUID | ErrMissingServer

definition SchemeMimic :: string where
  "SchemeMimic = ''mimic''"

definition parse_domain :: "string \<Rightarrow> DomainEntry" where
  "parse_domain entry =
     (case cut_first CHR '':'' entry of
        Some (d, p) \<Rightarrow> \<lparr> Domain = d, Preset = p \<rparr>
      | None \<Rightarrow> \<lparr> Domain = entry, Preset = [] \<rparr>)"

definition parse_domains :: "string \<Rightarrow> DomainEntry list" where
  "parse_domains s = (if s = [] then [] else map parse_domain (Split s CHR '',''))"

definition parse_url_settings :: "(rat \<Rightarrow> rat) \<Rightarrow> (string \<times> string) list \<Rightarrow> ClientSettings" where
  "parse_url_settings fl q =
     (let t = query_Get q ''switch_time'';
          (lo, hi) = (if t \<noteq> [] then parseSwitchTime fl t else (60 * second, 300 * second))
      in no_settings\<lparr> set_SwitchMin := lo, set_SwitchMax := hi,
                      set_Randomize := (query_Get q ''randomize'' = ''true'') \<rparr>)"

definition parse_url_compression :: "(string \<times> string) list \<Rightarrow> CompressionSettings" where
  "parse_url_compression q =
     (let c = DefaultCompressionConfig;
          c = (if query_Get q ''compression'' = ''true'' then c\<lparr>Enable := True\<rparr> else c);
          l = query_Get q ''compression_level''; level = Sscanf_d l 2;
          c = (if l \<noteq> [] \<and> 1 \<le> level \<and> level \<le> 3 then c\<lparr>Level := level\<rparr> else c);
          m = query_Get q ''compression_min_size''; minSize = Sscanf_d m 64
      in if m \<noteq> [] \<and> 0 < minSize then c\<lparr>comp_MinSize := minSize\<rparr> else c)"

definition parse_url_android :: "(string \<times> string) list \<Rightarrow> AndroidConfig" where
  "parse_url_android q =
     (let a = no_android\<lparr>MTU := 1500\<rparr>;
          a = (if query_Get q ''android_tun'' = ''true'' then a\<lparr>EnableTUN := True\<rparr> else a);
          a = (if query_Get q ''android_protected'' = ''true'' then a\<lparr>UseProtectedSockets := True\<rparr> else a);
          m = query_Get q ''android_mtu''; mtu = Sscanf_d m 1500
      in if m \<noteq> [] \<and> 0 < mtu then a\<lparr>MTU := mtu\<rparr> else a)"

definition ParseMimicURL :: "(rat \<Rightarrow> rat) \<Rightarrow> string \<Rightarrow> url_error + ClientConfig" where
  "ParseMimicURL fl uri =
     (case url_Parse uri of
        None \<Rightarrow> Inl ErrInvalidURL
      | Some u \<Rightarrow>
          if Scheme u \<noteq> SchemeMimic then Inl ErrUnsupportedScheme
          else let uuid = (case User u of Some n \<Rightarrow> n | None \<Rightarrow> []); q = parse_query (RawQuery u)
               in if uuid = [] then Inl ErrMissingUUID
                  else if url_Host u = [] then Inl ErrMissingServer
                  else Inr (no_client\<lparr> Server := url_Host u, ServerName := Fragment u, UUID := uuid,
                         Domains := parse_domains (query_Get q ''domains''),
                         Transport := (if query_Get q ''transport'' = [] then ''mtp'' else query_Get q ''transport''),
                         DNS := query_Get q ''dns'', Settings := parse_url_settings fl q,
                         Compression_set := parse_url_compression q, Android := parse_url_android q,
                         Routing_cfg := \<lparr> DefaultPolicy = (if query_Get q ''routing_policy'' \<noteq> []
                             then query_Get q ''routing_policy'' else ''proxy''), Rules = [] \<rparr>,
                         Proxies := [\<lparr> proxy_type = ''socks5'', proxy_port = 1080 \<rparr>,
                                     \<lparr> proxy_type = ''http'', proxy_port = 1081 \<rparr>] \<rparr>))"

definition print_domain :: "DomainEntry \<Rightarrow> string" where
  "print_domain d = (if Preset d \<noteq> [] then Domain d @ '':'' @ Preset d else Domain d)"

text \<open>The parameters in the order in which they are set.\<close>

definition set_if :: "bool \<Rightarrow> string \<Rightarrow> string \<Rightarrow> (string, string) gomap \<Rightarrow> (string, string) gomap" where
  "set_if b k w q = (if b then AList.update k w q else q)"

definition url_values :: "ClientConfig \<Rightarrow> (string, string) gomap" where
  "url_values cfg =
     (let s = Settings cfg; c = Compression_set cfg; a = Android cfg; p = DefaultPolicy (Routing_cfg cfg);
          q = set_if (Domains cfg \<noteq> []) ''domains'' (Join (map print_domain (Domains cfg)) '','') [];
          q = set_if (Transport cfg \<noteq> [] \<and> Transport cfg \<noteq> ''mtp'') ''transport'' (Transport cfg) q;
          q = set_if (DNS cfg \<noteq> []) ''dns'' (DNS cfg) q;
          q = set_if (SwitchTimeRangeStr s \<noteq> [] \<or> set_SwitchMin s > 0 \<or> set_SwitchMax s > 0) ''switch_time''
                (if SwitchTimeRangeStr s \<noteq> [] then SwitchTimeRangeStr s
                 else Duration_String (set_SwitchMin s) @ ''-'' @ Duration_String (set_SwitchMax s)) q;
          q = set_if (set_Randomize s) ''randomize'' ''true'' q;
          q = set_if (Enable c) ''compression'' ''true'' q;
          q = set_if (Enable c \<and> Level c \<noteq> 2) ''compression_level'' (itoa (Level c)) q;
          q = set_if (Enable c \<and> comp_MinSize c \<noteq> 64) ''compression_min_size'' (itoa (comp_MinSize c)) q;
          q = set_if (EnableTUN a) ''android_tun'' ''true'' q;
          q = set_if (UseProtectedSockets a) ''android_protected'' ''true'' q;
          q = set_if (MTU a \<noteq> 1500) ''android_mtu'' (itoa (MTU a)) q
      in set_if (p \<noteq> [] \<and> p \<noteq> ''proxy'') ''routing_policy'' p q)"

definition GenerateMimicURL :: "ClientConfig \<Rightarrow> string" where
  "GenerateMimicURL cfg =
     url_String \<lparr> Scheme = SchemeMimic, User = Some (UUID cfg), url_Host = Server cfg, url_Path = [],
       RawQuery = Encode_values (url_values cfg), Fragment = ServerName cfg \<rparr>"

section \<open>Lemmas\<close>

subsection \<open>Escaping\<close>

lemma upper_hex_value: "n < 16 \<Longrightarrow> hex_value (upper_hex n) = Some n"
  by (auto simp: hex_value_def upper_hex_def Let_def)

lemma char_halves: "char_of ((of_char c :: nat) div 16 * 16 + of_char c mod 16) = (c :: char)"
  by (simp add: div_mult_mod_eq)

lemma of_char_nat_bound: "(of_char c :: nat) < 256"
  by (cases c) (auto simp: of_char_def)

definition plain_mode :: "url_mode \<Rightarrow> bool" where
  "plain_mode m \<longleftrightarrow> m \<in> {EncodeUser, EncodeQuery, EncodeFragment}"

lemma shouldEscape_percent: "shouldEscape m CHR ''%''"
  by (simp add: shouldEscape_def is_alnum_def)

lemma unescape_escape_char:
  assumes "plain_mode m"
  shows "unescape m (escape_char m c @ s) = map_option ((#) c) (unescape m s)"
proof (cases "shouldEscape m c")
  case True
  have "(of_char c :: nat) div 16 < 16" using of_char_nat_bound [of c] by (simp add: less_mult_imp_div_less)
  then show ?thesis using True assms
    by (auto simp: escape_char_def plain_mode_def Let_def upper_hex_value char_halves)
next
  case False
  then have "c \<noteq> CHR ''%''" using shouldEscape_percent by auto
  moreover have "\<not> (c = CHR ''+'' \<and> m = EncodeQuery)" using False by (auto simp: shouldEscape_def is_alnum_def)
  ultimately show ?thesis using False assms by (auto simp: escape_char_def plain_mode_def)
qed

lemma unescape_escape: "plain_mode m \<Longrightarrow> unescape m (escape m s) = Some s"
  by (induction s) (simp_all add: escape_def unescape_escape_char)

lemma upper_hex_alnum: "n < 16 \<Longrightarrow> is_alnum (upper_hex n)"
  by (auto simp: is_alnum_def upper_hex_def Let_def)

lemma escape_char_chars:
  assumes "c \<in> set (escape_char m a)"
  shows "is_alnum c \<or> c = CHR ''%'' \<or> \<not> shouldEscape m c \<or> (c = CHR ''+'' \<and> m = EncodeQuery)"
proof (cases "shouldEscape m a \<and> \<not> (a = CHR '' '' \<and> m = EncodeQuery)")
  case True
  have "(of_char a :: nat) div 16 < 16" using of_char_nat_bound [of a] by (simp add: less_mult_imp_div_less)
  moreover have "c \<in> {CHR ''%'', upper_hex (of_char a div 16), upper_hex (of_char a mod 16)}"
    using True assms by (auto simp: escape_char_def Let_def split: if_splits)
  ultimately show ?thesis using upper_hex_alnum by auto
next
  case False
  then have "c = a \<and> \<not> shouldEscape m c \<or> c = CHR ''+'' \<and> m = EncodeQuery"
    using assms by (cases "shouldEscape m a") (simp_all add: escape_char_def)
  then show ?thesis by blast
qed

lemma escape_chars:
  "c \<in> set (escape m s) \<Longrightarrow> is_alnum c \<or> c = CHR ''%'' \<or> \<not> shouldEscape m c \<or> (c = CHR ''+'' \<and> m = EncodeQuery)"
  unfolding escape_def using escape_char_chars by fastforce

lemma query_chars: "c \<in> set (escape EncodeQuery s) \<Longrightarrow> is_alnum c \<or> c \<in> set ''%+-_.~''"
  using escape_chars [of c EncodeQuery s] by (auto simp: shouldEscape_def split: if_splits)

lemma user_chars: "c \<in> set (escape EncodeUser s) \<Longrightarrow> is_alnum c \<or> c \<in> set ''%$&+,;=-_.~''"
  using escape_chars [of c EncodeUser s] by (auto simp: shouldEscape_def split: if_splits)

lemma alnum_not:
  assumes "is_alnum c"
  shows "c \<notin> set ''%&=;?#/:@[]''" "\<not> is_control c"
proof -
  have "list_all (\<lambda>d. \<not> is_alnum d) ''%&=;?#/:@[]''" by (simp add: is_alnum_def)
  then show "c \<notin> set ''%&=;?#/:@[]''" using assms unfolding list_all_iff by blast
  show "\<not> is_control c" using assms unfolding is_alnum_def is_control_def Let_def by linarith
qed

lemma escape_char_not_Nil [simp]: "escape_char m c \<noteq> []"
  by (simp add: escape_char_def Let_def)

lemma escape_Nil [simp]: "escape m [] = []" "escape m s = [] \<longleftrightarrow> s = []"
  by (simp_all add: escape_def)

text \<open>Host names with a port are printed as they are.\<close>

definition plain_host :: "string \<Rightarrow> bool" where
  "plain_host s \<longleftrightarrow> list_all (\<lambda>c. is_alnum c \<or> c \<in> set ''-._~:'') s"

lemma plain_host_escape: "plain_host s \<Longrightarrow> escape EncodeHost s = s"
  by (induction s) (auto simp: plain_host_def escape_def escape_char_def shouldEscape_def)

lemma plain_host_unescape: "plain_host s \<Longrightarrow> unescape EncodeHost s = Some s"
proof (induction s)
  case (Cons c s)
  then have "is_alnum c \<or> c \<in> set ''-._~:''" by (simp add: plain_host_def)
  then have "c \<noteq> CHR ''%''" "\<not> shouldEscape EncodeHost c"
    by (auto simp: is_alnum_def shouldEscape_def)
  then show ?case using Cons by (simp add: plain_host_def)
qed simp

subsection \<open>The query\<close>

lemma query_not:
  assumes "d \<in> set ''&=;?#''"
  shows "d \<notin> set (escape EncodeQuery s)"
  using query_chars [of d s] alnum_not(1) [of d] assms by auto

lemma parse_pair_print:
  "k \<noteq> [] \<Longrightarrow> parse_pair (escape EncodeQuery k @ ''='' @ escape EncodeQuery w) = [(k, w)]"
  using cut_first_append [of "CHR ''=''" "escape EncodeQuery k" "escape EncodeQuery w"]
    query_not [of "CHR '';''"] query_not [of "CHR ''=''"] unescape_escape [of EncodeQuery]
  by (simp add: parse_pair_def plain_mode_def)

lemma concat_singles: "(\<And>y. y \<in> set ys \<Longrightarrow> f y = [y]) \<Longrightarrow> concat (map f ys) = ys"
  by (induction ys) auto

lemma parse_query_Encode:
  assumes "\<forall>(k, w)\<in>set v. k \<noteq> []"
  shows "parse_query (Encode_values v) = sort_key fst v"
proof (cases "v = []")
  case False
  let ?p = "\<lambda>(k, w). escape EncodeQuery k @ ''='' @ escape EncodeQuery w"
  have "sort_key fst v \<noteq> []" using False by (metis length_0_conv length_sort)
  then have "Split (Encode_values v) CHR ''&'' = map ?p (sort_key fst v)"
    unfolding Encode_values_def by (intro Split_Join) (use query_not [of "CHR ''&''"] in auto)
  moreover have "parse_pair (?p kw) = [kw]" if "kw \<in> set v" for kw
    using parse_pair_print [of "fst kw" "snd kw"] that assms by (cases kw) auto
  then have "concat (map parse_pair (map ?p (sort_key fst v))) = sort_key fst v"
    unfolding map_map by (intro concat_singles) auto
  ultimately show ?thesis by (simp add: parse_query_def)
qed (simp add: parse_query_def Encode_values_def parse_pair_def)

lemma query_Get_Encode:
  assumes "amap_wf v" "\<forall>(k, w)\<in>set v. k \<noteq> []"
  shows "query_Get (parse_query (Encode_values v)) k = (case map_of v k of Some w \<Rightarrow> w | None \<Rightarrow> [])"
proof -
  have "distinct (map fst v)" using assms(1) by (simp add: amap_wf_def)
  moreover have "distinct (map fst (sort_key fst v))"
    using calculation by (metis distinct_map distinct_sort inj_on_def set_sort)
  ultimately have "map_of (sort_key fst v) = map_of v" by (simp add: map_of_inject_set)
  then show ?thesis by (simp add: query_Get_def parse_query_Encode [OF assms(2)])
qed

lemma set_if_wf: "amap_wf q \<Longrightarrow> amap_wf (set_if b k w q)"
  by (simp add: set_if_def amap_simps)

lemma set_if_keys: "\<forall>(k, w)\<in>set q. k \<noteq> [] \<Longrightarrow> k \<noteq> [] \<Longrightarrow> \<forall>(k, w)\<in>set (set_if b k w q). k \<noteq> []"
  by (induction q) (auto simp: set_if_def split: if_splits)

text \<open>The value of a key, empty where there is none.\<close>

definition value_of :: "(string, string) gomap \<Rightarrow> string \<Rightarrow> string" where
  "value_of q k = (case map_of q k of Some w \<Rightarrow> w | None \<Rightarrow> [])"

lemma value_set_if: "value_of (set_if b k w q) k' = (if k' = k \<and> b then w else value_of q k')"
  by (simp add: value_of_def set_if_def amap_simps)

lemma value_Nil: "value_of [] k = []"
  by (simp add: value_of_def)

lemma url_values_wf: "amap_wf (url_values cfg)" "\<forall>(k, w)\<in>set (url_values cfg). k \<noteq> []"
  unfolding url_values_def Let_def by (intro set_if_wf set_if_keys; simp)+

lemma url_values_get:
  fixes cfg
  defines "get \<equiv> query_Get (parse_query (Encode_values (url_values cfg)))"
    and "s \<equiv> Settings cfg" and "c \<equiv> Compression_set cfg" and "a \<equiv> Android cfg"
    and "p \<equiv> DefaultPolicy (Routing_cfg cfg)"
  shows "get ''domains'' = Join (map print_domain (Domains cfg)) '',''"
    and "get ''transport'' = (if Transport cfg = ''mtp'' then [] else Transport cfg)"
    and "get ''dns'' = DNS cfg"
    and "get ''switch_time'' = (if SwitchTimeRangeStr s \<noteq> [] then SwitchTimeRangeStr s
           else if set_SwitchMin s > 0 \<or> set_SwitchMax s > 0
           then Duration_String (set_SwitchMin s) @ ''-'' @ Duration_String (set_SwitchMax s) else [])"
    and "get ''randomize'' = (if set_Randomize s then ''true'' else [])"
    and "get ''compression'' = (if Enable c then ''true'' else [])"
    and "get ''compression_level'' = (if Enable c \<and> Level c \<noteq> 2 then itoa (Level c) else [])"
    and "get ''compression_min_size'' = (if Enable c \<and> comp_MinSize c \<noteq> 64 then itoa (comp_MinSize c) else [])"
    and "get ''android_tun'' = (if EnableTUN a then ''true'' else [])"
    and "get ''android_protected'' = (if UseProtectedSockets a then ''true'' else [])"
    and "get ''android_mtu'' = (if MTU a \<noteq> 1500 then itoa (MTU a) else [])"
    and "get ''routing_policy'' = (if p = ''proxy'' then [] else p)"
  unfolding get_def s_def c_def a_def p_def query_Get_Encode [OF url_values_wf] value_of_def [symmetric]
  by (simp_all add: url_values_def Let_def value_set_if value_Nil)

subsection \<open>The link\<close>

definition plain_server :: "string \<Rightarrow> bool" where
  "plain_server s \<longleftrightarrow> (\<exists>h p. s = h @ '':'' @ p \<and> list_all (\<lambda>c. is_alnum c \<or> c \<in> set ''-._~'') h \<and> list_all is_digit p)"

lemma digit_alnum: "is_digit c \<Longrightarrow> is_alnum c"
  unfolding is_digit_def is_alnum_def Let_def by blast

lemma digit_string_not:
  assumes "list_all is_digit s" "c \<in> set ''.:%/[]-''"
  shows "c \<notin> set s"
  using assms is_digit_not [of c] unfolding list_all_iff by blast

lemma plain_server_host: "plain_server s \<Longrightarrow> plain_host s"
  using digit_alnum by (auto simp: plain_server_def plain_host_def list_all_iff)

lemma plain_host_not:
  assumes "plain_host s" "d \<in> set ''[]@/?#%''"
  shows "d \<notin> set s"
proof -
  have "list_all (\<lambda>d. \<not> (is_alnum d \<or> d \<in> set ''-._~:'')) ''[]@/?#%''" by (simp add: is_alnum_def)
  then show ?thesis using assms unfolding plain_host_def list_all_iff by blast
qed

lemma parseHost_plain:
  assumes "plain_server s"
  shows "parseHost s = Some s"
proof -
  obtain h p where s: "s = h @ CHR '':'' # p" "list_all is_digit p" using assms by (auto simp: plain_server_def)
  have "CHR '':'' \<notin> set p" using digit_string_not [OF s(2), of "CHR '':''"] by simp
  then have "cut_last CHR '':'' s = Some (h, p)" unfolding s(1) by (rule cut_last_append)
  moreover have "cut_last CHR ''['' s = None"
    using plain_host_not [OF plain_server_host [OF assms], of "CHR ''[''"] by (simp add: cut_last_def cut_first_def)
  ultimately show ?thesis using s(2) plain_host_unescape [OF plain_server_host [OF assms]] by (simp add: parseHost_def)
qed

lemma user_not:
  assumes "d \<in> set ''/?#@:''"
  shows "d \<notin> set (escape EncodeUser s)"
proof -
  have "list_all (\<lambda>d. \<not> (is_alnum d \<or> d \<in> set ''%$&+,;=-_.~'')) ''/?#@:''" by (simp add: is_alnum_def)
  then show ?thesis using assms user_chars [of d s] unfolding list_all_iff by blast
qed

lemma user_valid: "validUserinfo (escape EncodeUser s)"
proof -
  have "set ''%$&+,;=-_.~'' \<subseteq> set ''-._:~!$&()*+,;=%@''" by simp
  then show ?thesis using user_chars [of _ s] unfolding validUserinfo_def list_all_iff by blast
qed

lemma parseAuthority_print:
  assumes "plain_server srv"
  shows "parseAuthority (escape EncodeUser u @ ''@'' @ srv) = Some (Some u, srv)"
proof -
  have "cut_last CHR ''@'' (escape EncodeUser u @ CHR ''@'' # srv) = Some (escape EncodeUser u, srv)"
    using plain_host_not [OF plain_server_host [OF assms], of "CHR ''@''"] by (intro cut_last_append) simp
  moreover have "cut_first CHR '':'' (escape EncodeUser u) = None"
    using user_not [of "CHR '':''"] by (intro cut_first_None) simp
  ultimately show ?thesis
    using parseHost_plain [OF assms] user_valid [of u] unescape_escape [of EncodeUser u]
    by (simp add: parseAuthority_def plain_mode_def)
qed

definition link_chars :: "string \<Rightarrow> bool" where
  "link_chars s \<longleftrightarrow> list_all (\<lambda>c. is_alnum c \<or> c \<in> set ''%$&+,;=-_.~:/@?'') s"

lemma link_chars_parts:
  "link_chars (s @ t) \<longleftrightarrow> link_chars s \<and> link_chars t" "link_chars (escape EncodeUser s)"
  "plain_host s \<Longrightarrow> link_chars s" "link_chars (Encode_values v)"
proof -
  have sub: "set ''%+-_.~'' \<subseteq> set ''%$&+,;=-_.~:/@?''" "set ''-._~:'' \<subseteq> set ''%$&+,;=-_.~:/@?''" by simp_all
  then have q: "link_chars (escape EncodeQuery s)" for s
    using query_chars [of _ s] unfolding link_chars_def list_all_iff by blast
  have join: "link_chars (Join ps ''&'')" if "\<forall>p\<in>set ps. link_chars p" for ps
    using that by (induction ps "''&''" rule: Join.induct) (auto simp: link_chars_def)
  have "link_chars (escape EncodeQuery k @ ''='' @ escape EncodeQuery w)" for k w
    using q [of k] q [of w] by (simp add: link_chars_def)
  then show "link_chars (Encode_values v)" unfolding Encode_values_def by (intro join) auto
  have "set ''%$&+,;=-_.~'' \<subseteq> set ''%$&+,;=-_.~:/@?''" by simp
  then show "link_chars (escape EncodeUser s)"
    using user_chars [of _ s] unfolding link_chars_def list_all_iff by blast
  show "link_chars (s @ t) \<longleftrightarrow> link_chars s \<and> link_chars t" by (simp add: link_chars_def)
  show "plain_host s \<Longrightarrow> link_chars s"
    using sub(2) unfolding link_chars_def plain_host_def list_all_iff by blast
qed

lemma link_chars_not: "link_chars s \<Longrightarrow> CHR ''#'' \<notin> set s \<and> \<not> list_ex is_control s"
proof -
  have "list_all (\<lambda>d. d \<noteq> CHR ''#'' \<and> \<not> is_control d) ''%$&+,;=-_.~:/@?''" by (simp add: is_control_def)
  then have "is_alnum c \<or> c \<in> set ''%$&+,;=-_.~:/@?'' \<Longrightarrow> c \<noteq> CHR ''#'' \<and> \<not> is_control c" for c
    using alnum_not [of c] unfolding list_all_iff by auto
  then show "link_chars s \<Longrightarrow> ?thesis" unfolding link_chars_def list_all_iff list_ex_iff by blast
qed

lemma getScheme_mimic: "getScheme (''mimic:'' @ r) = Some (''mimic'', r)"
  by (simp add: getScheme_def is_scheme_char_def is_alnum_def is_digit_def)

lemma parse_main_link:
  fixes u srv v
  defines "a \<equiv> escape EncodeUser u @ ''@'' @ srv" and "q \<equiv> Encode_values v"
  assumes "plain_server srv"
  shows "parse_main (''mimic:'' @ ''//'' @ a @ (if q = [] then [] else ''?'' @ q))
    = Some \<lparr> Scheme = ''mimic'', User = Some u, url_Host = srv, url_Path = [], RawQuery = q, Fragment = [] \<rparr>"
proof -
  let ?r = "''//'' @ a @ (if q = [] then [] else ''?'' @ q)"
  have host: "plain_host srv" by (rule plain_server_host [OF assms(3)])
  have "link_chars (''mimic:'' @ ?r)"
    using link_chars_parts(2) [of u] link_chars_parts(3) [OF host] link_chars_parts(4) [of v]
    by (auto simp: a_def q_def link_chars_parts(1)) (simp_all add: link_chars_def is_alnum_def)
  then have ctl: "list_ex is_control (''mimic:'' @ ?r) = False" using link_chars_not by blast
  have cut: "(case cut_first CHR ''?'' ?r of Some (r, q) \<Rightarrow> (r, q) | None \<Rightarrow> (?r, [])) = (''//'' @ a, q)"
  proof -
    have "CHR ''?'' \<notin> set (''//'' @ a)"
      using user_not [of "CHR ''?''" u] plain_host_not [OF host, of "CHR ''?''"] by (simp add: a_def)
    then show ?thesis using cut_first_append [of "CHR ''?''" "''//'' @ a" q] cut_first_None [of "CHR ''?''" "''//'' @ a"]
      by simp
  qed
  have tw: "takeWhile (\<lambda>c. c \<noteq> CHR ''/'') (drop 2 (''//'' @ a)) = a"
    "dropWhile (\<lambda>c. c \<noteq> CHR ''/'') (drop 2 (''//'' @ a)) = []"
    using user_not [of "CHR ''/''" u] plain_host_not [OF host, of "CHR ''/''"]
    by (auto simp: a_def takeWhile_eq_all_conv dropWhile_eq_Nil_conv)
  have lower: "ToLower ''mimic'' = ''mimic''" by (simp add: ToLower_def lower_def)
  have "HasPrefix (''//'' @ a) ''/''" "HasPrefix (''//'' @ a) ''//''" by (simp_all add: HasPrefix_def)
  moreover have "parseAuthority a = Some (Some u, srv)" unfolding a_def by (rule parseAuthority_print [OF assms(3)])
  ultimately show ?thesis
    unfolding parse_main_def ctl getScheme_mimic option.case prod.case cut Let_def tw lower by simp
qed

lemma url_Parse_String:
  assumes "plain_server srv"
  shows "url_Parse (url_String \<lparr> Scheme = ''mimic'', User = Some u, url_Host = srv, url_Path = [],
      RawQuery = Encode_values v, Fragment = f \<rparr>)
    = Some \<lparr> Scheme = ''mimic'', User = Some u, url_Host = srv, url_Path = [], RawQuery = Encode_values v, Fragment = f \<rparr>"
proof -
  let ?m = "''mimic:'' @ ''//'' @ (escape EncodeUser u @ ''@'' @ srv)
    @ (if Encode_values v = [] then [] else ''?'' @ Encode_values v)"
  have host: "plain_host srv" by (rule plain_server_host [OF assms])
  have "link_chars ?m"
    using link_chars_parts(2) [of u] link_chars_parts(3) [OF host] link_chars_parts(4) [of v]
    by (auto simp: link_chars_parts(1)) (simp_all add: link_chars_def is_alnum_def)
  then have no: "CHR ''#'' \<notin> set ?m" using link_chars_not by blast
  have "url_String \<lparr> Scheme = ''mimic'', User = Some u, url_Host = srv, url_Path = [], RawQuery = Encode_values v, Fragment = f \<rparr>
    = ?m @ (if f = [] then [] else CHR ''#'' # escape EncodeFragment f)"
    by (simp add: url_String_def plain_host_escape [OF host])
  moreover have "unescape EncodeFragment (escape EncodeFragment f) = Some f"
    by (rule unescape_escape) (simp add: plain_mode_def)
  ultimately show ?thesis
    using parse_main_link [OF assms, of u v] cut_first_append [OF no, of "escape EncodeFragment f"] cut_first_None [OF no]
    by (auto simp: url_Parse_def simp del: append_Cons append_assoc)
qed

subsection \<open>The parameters\<close>

lemma takeWhile_digits [simp]: "takeWhile is_digit (digits 10 n) = digits 10 n"
  using digits_facts(2) [of n] by (simp add: list_all_iff)

lemma Sscanf_itoa:
  assumes "- (2 ^ 63) \<le> i" "i < 2 ^ 63"
  shows "Sscanf_d (itoa i) v = i"
proof -
  let ?ds = "digits 10 (nat \<bar>i\<bar>)"
  have ds: "?ds \<noteq> []" "number ?ds = nat \<bar>i\<bar>" using digits_facts(1,3) by simp_all
  have h: "is_digit (hd ?ds)" using digit_starts(2) [of _ "[]"] by simp
  then have h': "\<not> is_space (hd ?ds)" "hd ?ds \<noteq> CHR ''-''" "hd ?ds \<noteq> CHR ''+''"
    by (auto simp: is_digit_def is_space_def)
  have skip: "dropWhile (\<lambda>c. is_space c \<and> c \<noteq> CHR ''\<newline>'') (itoa i) = itoa i"
    using h' ds(1) by (auto simp: dropWhile_eq_self_iff itoa_def is_space_def)
  show ?thesis
    unfolding Sscanf_d_def skip Let_def using ds h' assms by (cases "i < 0") (simp_all add: itoa_def)
qed

lemma itoa_not_Nil: "itoa i \<noteq> []"
  using digits_facts(1) by (simp add: itoa_def)

definition domains_plain :: "DomainEntry list \<Rightarrow> bool" where
  "domains_plain ds \<longleftrightarrow> (\<forall>d\<in>set ds. Domain d \<noteq> [] \<and> set (Domain d) \<inter> set '',:'' = {} \<and> CHR '','' \<notin> set (Preset d))"

lemma parse_print_domain: "CHR '':'' \<notin> set (Domain d) \<Longrightarrow> parse_domain (print_domain d) = d"
  using cut_first_append [of "CHR '':''" "Domain d" "Preset d"] cut_first_None [of "CHR '':''" "Domain d"]
  by (cases d) (auto simp: parse_domain_def print_domain_def)

lemma parse_domains_print:
  assumes "domains_plain ds"
  shows "parse_domains (Join (map print_domain ds) '','') = ds"
proof (cases ds)
  case (Cons d rest)
  have "Split (Join (map print_domain ds) '','') CHR '','' = map print_domain ds"
    by (rule Split_Join) (use assms Cons in \<open>auto simp: domains_plain_def print_domain_def\<close>)
  moreover have "map parse_domain (map print_domain ds) = ds"
    unfolding map_map by (rule map_idI) (use assms parse_print_domain in \<open>auto simp: domains_plain_def\<close>)
  moreover have "Join (map print_domain ds) '','' \<noteq> []"
    using assms Cons by (cases rest) (auto simp: domains_plain_def print_domain_def)
  ultimately show ?thesis by (simp add: parse_domains_def)
qed (simp add: parse_domains_def)

text \<open>What a link carries of a configuration.\<close>

definition shared_settings :: "(rat \<Rightarrow> rat) \<Rightarrow> ClientSettings \<Rightarrow> ClientSettings" where
  "shared_settings fl s =
     (let (lo, hi) = (if SwitchTimeRangeStr s \<noteq> [] then parseSwitchTime fl (SwitchTimeRangeStr s)
                      else if set_SwitchMin s > 0 \<or> set_SwitchMax s > 0 then (set_SwitchMin s, set_SwitchMax s)
                      else (60 * second, 300 * second))
      in \<lparr> SwitchTimeRangeStr = [], set_SwitchMin = lo, set_SwitchMax = hi, set_Randomize = set_Randomize s \<rparr>)"

definition shared_compression :: "CompressionSettings \<Rightarrow> CompressionSettings" where
  "shared_compression c =
     (if Enable c then \<lparr> Enable = True, Level = (if 1 \<le> Level c \<and> Level c \<le> 3 then Level c else 2),
                         comp_MinSize = (if 0 < comp_MinSize c then comp_MinSize c else 64) \<rparr>
      else DefaultCompressionConfig)"

definition shared_android :: "AndroidConfig \<Rightarrow> AndroidConfig" where
  "shared_android a = \<lparr> EnableTUN = EnableTUN a, TUNFD = 0, MTU = (if 0 < MTU a then MTU a else 1500),
     UseProtectedSockets = UseProtectedSockets a \<rparr>"

definition shared :: "(rat \<Rightarrow> rat) \<Rightarrow> ClientConfig \<Rightarrow> ClientConfig" where
  "shared fl cfg = no_client
     \<lparr> Server := Server cfg, ServerName := ServerName cfg, UUID := UUID cfg, Domains := Domains cfg,
       Transport := (if Transport cfg = [] then ''mtp'' else Transport cfg), DNS := DNS cfg,
       Settings := shared_settings fl (Settings cfg),
       Compression_set := shared_compression (Compression_set cfg), Android := shared_android (Android cfg),
       Routing_cfg := \<lparr> DefaultPolicy = (if DefaultPolicy (Routing_cfg cfg) \<noteq> []
           then DefaultPolicy (Routing_cfg cfg) else ''proxy''), Rules = [] \<rparr>,
       Proxies := [\<lparr> proxy_type = ''socks5'', proxy_port = 1080 \<rparr>, \<lparr> proxy_type = ''http'', proxy_port = 1081 \<rparr>] \<rparr>"

definition int64 :: "int \<Rightarrow> bool" where
  "int64 i \<longleftrightarrow> - (2 ^ 63) \<le> i \<and> i < 2 ^ 63"

definition linkable :: "ClientConfig \<Rightarrow> bool" where
  "linkable cfg \<longleftrightarrow> UUID cfg \<noteq> [] \<and> plain_server (Server cfg) \<and> domains_plain (Domains cfg)
     \<and> 0 \<le> set_SwitchMin (Settings cfg) \<and> 0 \<le> set_SwitchMax (Settings cfg)
     \<and> int64 (set_SwitchMin (Settings cfg)) \<and> int64 (set_SwitchMax (Settings cfg))
     \<and> int64 (Level (Compression_set cfg)) \<and> int64 (comp_MinSize (Compression_set cfg)) \<and> int64 (MTU (Android cfg))"

lemma Sscanf_int64: "int64 i \<Longrightarrow> Sscanf_d (itoa i) v = i"
  using Sscanf_itoa by (simp add: int64_def)

lemma link_shared:
  assumes "linkable cfg" "float_rounding fl"
  shows "ParseMimicURL fl (GenerateMimicURL cfg) = Inr (shared fl cfg)"
proof -
  let ?q = "parse_query (Encode_values (url_values cfg))"
  have server: "plain_server (Server cfg)" "Server cfg \<noteq> []" "UUID cfg \<noteq> []"
    using assms(1) by (auto simp: linkable_def plain_server_def)
  have "parse_domains (query_Get ?q ''domains'') = Domains cfg"
    using parse_domains_print assms(1) by (simp add: url_values_get linkable_def)
  moreover have "parse_url_settings fl ?q = shared_settings fl (Settings cfg)"
    using parseSwitchTime_print [OF assms(2)] assms(1)
    by (auto simp: parse_url_settings_def shared_settings_def no_settings_def url_values_get linkable_def int64_def Let_def)
  moreover have "parse_url_compression ?q = shared_compression (Compression_set cfg)"
    using assms(1) itoa_not_Nil
    by (auto simp: parse_url_compression_def shared_compression_def DefaultCompressionConfig_def url_values_get
        linkable_def Sscanf_int64 Let_def)
  moreover have "parse_url_android ?q = shared_android (Android cfg)"
    using assms(1) itoa_not_Nil
    by (auto simp: parse_url_android_def shared_android_def no_android_def url_values_get
        linkable_def Sscanf_int64 Let_def)
  ultimately show ?thesis
    using url_Parse_String [OF server(1), of "UUID cfg" "url_values cfg" "ServerName cfg"] server
    by (simp add: ParseMimicURL_def GenerateMimicURL_def SchemeMimic_def shared_def url_values_get Let_def)
qed

section \<open>Properties\<close>

text \<open>C8. A share link says what it is made from: parsing the generated \<^verbatim>\<open>mimic://\<close> link gives back the
  server, the UUID and the name (any bytes, escaped or not), the domains with their presets, the
  transport, DNS, the switch interval to the nanosecond, the compression where it is enabled, the
  Android switches and the default policy, through \<^verbatim>\<open>net/url\<close>'s escaping and sorting of parameters;
  values out of range come back as the defaults. It carries nothing else: the routing rules, the proxies, the custom
  presets, the buffers and, without compression, its level are those of an empty configuration.\<close>

theorem link_roundtrip:
  assumes "linkable cfg" "float_rounding fl"
  shows "ParseMimicURL fl (GenerateMimicURL cfg) = Inr (shared fl cfg)"
  by (rule link_shared [OF assms])

definition demo_client :: ClientConfig where
  "demo_client = no_client\<lparr> UUID := ''a b/1'', Server := ''10.0.0.1:443'', ServerName := ''My #1'',
     Domains := [\<lparr> Domain = ''vk.com'', Preset = ''social'' \<rparr>],
     Settings := no_settings\<lparr>set_SwitchMin := 10 * second, set_SwitchMax := 30 * second\<rparr> \<rparr>"

lemma demo_client_linkable: "linkable demo_client"
proof -
  have "''10.0.0.1:443'' = ''10.0.0.1'' @ '':'' @ ''443''" by simp
  moreover have "list_all (\<lambda>c. is_alnum c \<or> c \<in> set ''-._~'') ''10.0.0.1''" "list_all is_digit ''443''"
    by (simp_all add: is_alnum_def is_digit_def)
  ultimately have "plain_server ''10.0.0.1:443''" unfolding plain_server_def by blast
  then show ?thesis
    by (simp add: linkable_def demo_client_def no_client_def no_settings_def no_compression_def no_android_def
        domains_plain_def int64_def second_def)
qed

theorem link_roundtrip_witness:
  "ParseMimicURL (\<lambda>r. r) (GenerateMimicURL demo_client) = Inr (shared (\<lambda>r. r) demo_client)"
  by (rule link_roundtrip) (simp_all add: demo_client_linkable)

end
