(* ===== verification/WebSocket.thy ===== *)
theory WebSocket
  imports Url "HOL-Library.Sublist" "HOL-Library.Multiset"
begin

text \<open>
  The WebSocket transport (\<^verbatim>\<open>pkg/transport/websocket.go\<close>). Gorilla's connection is a number with the
  messages its \<^verbatim>\<open>ReadMessage\<close> will give and those that were written; what its dialler and its upgrader
  answer, and which patterns \<^verbatim>\<open>http.ServeMux\<close> takes, are arguments.
\<close>

section \<open>The transport\<close>

record WebSocketConfig =
  wsc_Path :: string
  wsc_Host :: string
  wsc_TLS :: bool
  wsc_TLSConfig :: bool \<comment> \<open>not nil\<close>
  wsc_Headers :: "(string, string list) gomap"
  HandshakeTimeout :: int
  wsc_ReadBufferSize :: int
  wsc_WriteBufferSize :: int

definition ws_DefaultConfig :: WebSocketConfig where
  "ws_DefaultConfig = \<lparr> wsc_Path = ''/ws'', wsc_Host = [], wsc_TLS = False, wsc_TLSConfig = False,
     wsc_Headers = [], HandshakeTimeout = 30 * second, wsc_ReadBufferSize = 4096, wsc_WriteBufferSize = 4096 \<rparr>"

datatype ws_error = WsClosed | WsDialFailed | WsListenerClosed | WsRead | WsWrite | WsBadURL | WsBadScheme string

record WebSocketTransport =
  ws_config :: WebSocketConfig
  ws_server :: bool \<comment> \<open>not nil\<close>
  ws_closed :: bool

definition NewWebSocketTransport :: "WebSocketConfig option \<Rightarrow> WebSocketTransport" where
  "NewWebSocketTransport config =
     \<lparr> ws_config = (case config of None \<Rightarrow> ws_DefaultConfig | Some c \<Rightarrow> c), ws_server = False, ws_closed = False \<rparr>"

definition Transport_Name :: "WebSocketTransport \<Rightarrow> string" where
  "Transport_Name t = (if wsc_TLS (ws_config t) then ''wss'' else ''ws'')"

definition buildWebSocketURL :: "WebSocketTransport \<Rightarrow> string \<Rightarrow> string" where
  "buildWebSocketURL t address =
     (let c = ws_config t;
          (host, port) = (case SplitHostPort address of
                            Some hp \<Rightarrow> hp
                          | None \<Rightarrow> (address, if wsc_TLS c then ''443'' else ''80''));
          scheme = (if wsc_TLS c then ''wss'' else ''ws'');
          path = (if wsc_Path c = [] then ''/ws'' else wsc_Path c)
      in scheme @ ''://'' @ host @ '':'' @ port @ path)"

text \<open>The splitting of \<^verbatim>\<open>URL.Hostname\<close> and \<^verbatim>\<open>URL.Port\<close>.\<close>

definition splitHostPort :: "string \<Rightarrow> string \<times> string" where
  "splitHostPort hp =
     (let (host, port) = (case cut_last CHR '':'' hp of
                            Some (h, p) \<Rightarrow> if valid_optional_port ('':'' @ p) then (h, p) else (hp, [])
                          | None \<Rightarrow> (hp, []))
      in (if HasPrefix host ''['' \<and> HasSuffix host '']'' then butlast (tl host) else host, port))"

definition ParseWebSocketURL :: "string \<Rightarrow> ws_error + string \<times> string \<times> string \<times> string" where
  "ParseWebSocketURL rawURL =
     (case url_Parse rawURL of
        None \<Rightarrow> Inl WsBadURL
      | Some u \<Rightarrow>
          let scheme = Scheme u
          in if scheme \<noteq> ''ws'' \<and> scheme \<noteq> ''wss'' then Inl (WsBadScheme scheme)
             else let (host, port) = splitHostPort (url_Host u);
                      port = (if port = [] then (if scheme = ''wss'' then ''443'' else ''80'') else port);
                      path = (if url_Path u = [] then ''/ws'' else url_Path u)
                  in Inr (scheme, host, port, path))"

section \<open>Connections\<close>

text \<open>\<^verbatim>\<open>wsConnWrapper\<close>.\<close>

record wsConnWrapper =
  wsConn :: nat
  ws_messages :: "bytes list"
  ws_written :: "bytes list"
  ws_writable :: bool
  ws_remote :: string

definition ws_Read :: "nat \<Rightarrow> wsConnWrapper \<Rightarrow> (ws_error + bytes) \<times> wsConnWrapper" where
  "ws_Read n c =
     (case ws_messages c of
        [] \<Rightarrow> (Inl WsRead, c)
      | message # ms \<Rightarrow> (Inr (take n message), c\<lparr>ws_messages := ms\<rparr>))"

definition ws_Write :: "bytes \<Rightarrow> wsConnWrapper \<Rightarrow> (ws_error + nat) \<times> wsConnWrapper" where
  "ws_Write b c =
     (if ws_writable c then (Inr (length b), c\<lparr>ws_written := ws_written c @ [b]\<rparr>) else (Inl WsWrite, c))"

definition ws_Close :: "wsConnWrapper \<Rightarrow> wsConnWrapper" where
  "ws_Close c = c\<lparr>ws_messages := [], ws_writable := False\<rparr>"

text \<open>\<open>dialer\<close> gets the URL and the headers.\<close>

definition ws_headers :: "WebSocketConfig \<Rightarrow> (string, string list) gomap" where
  "ws_headers c =
     foldl (\<lambda>h (k, v). AList.update k v h)
       (if wsc_Host c \<noteq> [] then [(''Host'', [wsc_Host c])] else []) (wsc_Headers c)"

definition ws_Dial :: "(string \<Rightarrow> (string, string list) gomap \<Rightarrow> nat option) \<Rightarrow> string \<Rightarrow> WebSocketTransport
    \<Rightarrow> ws_error + wsConnWrapper" where
  "ws_Dial dialer address t =
     (if ws_closed t then Inl WsClosed
      else case dialer (buildWebSocketURL t address) (ws_headers (ws_config t)) of
             None \<Rightarrow> Inl WsDialFailed
           | Some n \<Rightarrow> Inr \<lparr> wsConn = n, ws_messages = [], ws_written = [], ws_writable = True, ws_remote = address \<rparr>)"

section \<open>The listener\<close>

text \<open>Connections waiting to be accepted, by number.\<close>

record wsListener =
  ws_address :: string
  acceptCh :: "nat list"
  ws_stopped :: bool \<comment> \<open>closeCh is closed\<close>
  ws_dropped :: "nat list" \<comment> \<open>connections it closed\<close>

definition ws_queue :: nat where
  "ws_queue = 256"

text \<open>\<open>serves\<close> says which patterns \<^verbatim>\<open>HandleFunc\<close> takes: it panics on others. Whether the server then runs
  is only logged.\<close>

definition ws_Listen :: "(string \<Rightarrow> bool) \<Rightarrow> string \<Rightarrow> WebSocketTransport
    \<Rightarrow> (ws_error failure + wsListener) \<times> WebSocketTransport" where
  "ws_Listen serves address t =
     (if ws_closed t then (Inl (Err WsClosed), t)
      else if \<not> serves (wsc_Path (ws_config t)) then (Inl Panic, t)
      else (Inr \<lparr> ws_address = address, acceptCh = [], ws_stopped = False, ws_dropped = [] \<rparr>, t\<lparr>ws_server := True\<rparr>))"

text \<open>Shutting the server down can fail, which is returned.\<close>

definition ws_Transport_Close :: "bool \<Rightarrow> WebSocketTransport \<Rightarrow> bool \<times> WebSocketTransport" where
  "ws_Transport_Close shutdown_ok t =
     (if ws_closed t then (True, t)
      else (if ws_server t then shutdown_ok else True, t\<lparr>ws_closed := True\<rparr>))"

text \<open>A select with two ready cases takes either: \<open>first\<close> says whether the first one.\<close>

definition ws_Accept :: "bool \<Rightarrow> wsListener \<Rightarrow> ((ws_error + nat) \<times> wsListener) option" where
  "ws_Accept first l =
     (case acceptCh l of
        [] \<Rightarrow> if ws_stopped l then Some (Inl WsListenerClosed, l) else None
      | n # ns \<Rightarrow> if ws_stopped l \<and> \<not> first then Some (Inl WsListenerClosed, l)
                 else Some (Inr n, l\<lparr>acceptCh := ns\<rparr>))"

definition ws_Listener_Close :: "wsListener \<Rightarrow> wsListener" where
  "ws_Listener_Close l = (if ws_stopped l then l else l\<lparr>ws_stopped := True\<rparr>)"

definition handleWebSocket :: "bool \<Rightarrow> nat option \<Rightarrow> wsListener \<Rightarrow> wsListener" where
  "handleWebSocket first upgraded l =
     (case upgraded of
        None \<Rightarrow> l
      | Some n \<Rightarrow>
          if length (acceptCh l) < ws_queue \<and> (ws_stopped l \<longrightarrow> first) then l\<lparr>acceptCh := acceptCh l @ [n]\<rparr>
          else l\<lparr>ws_dropped := ws_dropped l @ [n]\<rparr>)"

section \<open>Lemmas\<close>

subsection \<open>The URL\<close>

definition plain_path :: "string \<Rightarrow> bool" where
  "plain_path p \<longleftrightarrow> (\<exists>r. p = CHR ''/'' # r) \<and> list_all (\<lambda>c. is_alnum c \<or> c \<in> set ''-._~/'') p"

lemma plain_path_unescape: "list_all (\<lambda>c. is_alnum c \<or> c \<in> set ''-._~/'') p \<Longrightarrow> unescape EncodePath p = Some p"
proof (induction p)
  case (Cons c p)
  then have "c \<noteq> CHR ''%''" by (auto simp: is_alnum_def)
  then show ?case using Cons by simp
qed simp

lemma parseHost_port:
  assumes "plain_host h" "list_all is_digit p"
  shows "parseHost (h @ '':'' @ p) = Some (h @ '':'' @ p)"
proof -
  have s: "plain_host (h @ '':'' @ p)"
    using assms digit_alnum by (auto simp: plain_host_def list_all_iff)
  have "CHR '':'' \<notin> set p" using digit_string_not [OF assms(2), of "CHR '':''"] by simp
  then have "cut_last CHR '':'' (h @ CHR '':'' # p) = Some (h, p)" by (rule cut_last_append)
  moreover have "cut_last CHR ''['' (h @ '':'' @ p) = None"
    using plain_host_not [OF s, of "CHR ''[''"] by (simp add: cut_last_def cut_first_def)
  ultimately show ?thesis using assms(2) plain_host_unescape [OF s] by (simp add: parseHost_def)
qed

lemma getScheme_ws: "s \<in> {''ws'', ''wss''} \<Longrightarrow> getScheme (s @ '':'' @ r) = Some (s, r)"
  by (auto simp: getScheme_def is_scheme_char_def is_alnum_def is_digit_def)

definition ws_char :: "char \<Rightarrow> bool" where
  "ws_char c \<longleftrightarrow> is_alnum c \<or> c \<in> set ''-._~:/''"

lemma ws_char_not:
  assumes "ws_char c"
  shows "c \<notin> set ''?#@''" "\<not> is_control c"
proof -
  have "list_all (\<lambda>d. d \<notin> set ''?#@'' \<and> \<not> is_control d) ''-._~:/''" by (simp add: is_control_def)
  then have "c \<in> set ''-._~:/'' \<Longrightarrow> c \<notin> set ''?#@'' \<and> \<not> is_control c" unfolding list_all_iff by blast
  moreover have "is_alnum c \<Longrightarrow> c \<notin> set ''?#@'' \<and> \<not> is_control c" using alnum_not [of c] by simp
  ultimately show "c \<notin> set ''?#@''" "\<not> is_control c" using assms unfolding ws_char_def by blast+
qed

lemma ws_chars:
  assumes "list_all ws_char s"
  shows "list_ex is_control s = False" "CHR ''?'' \<notin> set s" "CHR ''#'' \<notin> set s" "CHR ''@'' \<notin> set s"
proof -
  have "c \<in> set s \<Longrightarrow> c \<notin> set ''?#@'' \<and> \<not> is_control c" for c
    using assms ws_char_not [of c] by (simp add: list_all_iff)
  then show "list_ex is_control s = False" "CHR ''?'' \<notin> set s" "CHR ''#'' \<notin> set s" "CHR ''@'' \<notin> set s"
    by (auto simp: list_ex_iff)
qed

lemma host_ws_char: "plain_host h \<Longrightarrow> list_all ws_char h"
  by (simp add: plain_host_def list_all_iff ws_char_def) blast

lemma port_ws_char: "list_all is_digit p \<Longrightarrow> list_all ws_char p"
  by (simp add: list_all_iff ws_char_def digit_alnum)

lemma path_ws_char: "plain_path q \<Longrightarrow> list_all ws_char q"
  by (simp add: plain_path_def list_all_iff ws_char_def) blast

lemma parse_ws:
  assumes "s \<in> {''ws'', ''wss''}" "plain_host h" "list_all is_digit p" "plain_path path"
  shows "url_Parse (s @ ''://'' @ h @ '':'' @ p @ path)
    = Some \<lparr> Scheme = s, User = None, url_Host = h @ '':'' @ p, url_Path = path, RawQuery = [], Fragment = [] \<rparr>"
proof -
  let ?a = "h @ '':'' @ p" and ?r = "''//'' @ (h @ '':'' @ p) @ path"
  obtain r where r: "path = CHR ''/'' # r" using assms(4) by (auto simp: plain_path_def)
  have "list_all ws_char s" using assms(1) by (auto simp: ws_char_def is_alnum_def)
  moreover have ok2: "list_all ws_char ?r"
    using host_ws_char [OF assms(2)] port_ws_char [OF assms(3)] path_ws_char [OF assms(4)] by (simp add: ws_char_def)
  ultimately have ok: "list_all ws_char (s @ '':'' @ ?r)" by (simp add: ws_char_def)
  have "CHR ''/'' \<notin> set h" using plain_host_not [OF assms(2), of "CHR ''/''"] by simp
  moreover have "CHR ''/'' \<notin> set p" using digit_string_not [OF assms(3), of "CHR ''/''"] by simp
  ultimately have "\<forall>c\<in>set ?a. c \<noteq> CHR ''/''" by auto
  then have tw: "takeWhile (\<lambda>c. c \<noteq> CHR ''/'') (drop 2 ?r) = ?a" "dropWhile (\<lambda>c. c \<noteq> CHR ''/'') (drop 2 ?r) = path"
    using r by (simp_all add: takeWhile_append2 dropWhile_append2)
  have cut: "(case cut_first CHR ''?'' ?r of Some (r, q) \<Rightarrow> (r, q) | None \<Rightarrow> (?r, [])) = (?r, [])"
    using ws_chars(2) [OF ok2] by (simp add: cut_first_None)
  have at: "parseAuthority ?a = Some (None, ?a)"
    using ws_chars(4) [OF ok2] parseHost_port [OF assms(2,3)]
    by (simp add: parseAuthority_def cut_last_def cut_first_def)
  have lower: "ToLower s = s" "s \<noteq> []" "s @ '':'' @ ?r \<noteq> ''*''" using assms(1) by (auto simp: ToLower_def lower_def)
  have p: "HasPrefix ?r ''/''" "HasPrefix ?r ''//''" by (simp_all add: HasPrefix_def)
  have "unescape EncodePath path = Some path" using assms(4) plain_path_unescape by (simp add: plain_path_def)
  then have "parse_main (s @ '':'' @ ?r)
      = Some \<lparr> Scheme = s, User = None, url_Host = ?a, url_Path = path, RawQuery = [], Fragment = [] \<rparr>"
    using lower(2,3) p
    unfolding parse_main_def ws_chars(1) [OF ok] getScheme_ws [OF assms(1)] option.case prod.case cut Let_def lower(1) tw at
    by simp
  moreover have "cut_first CHR ''#'' (s @ '':'' @ ?r) = None" using ws_chars(3) [OF ok] by (rule cut_first_None)
  ultimately show ?thesis by (simp add: url_Parse_def)
qed

lemma splitHostPort_port:
  assumes "plain_host h" "list_all is_digit p"
  shows "splitHostPort (h @ '':'' @ p) = (h, p)"
proof -
  have "CHR '':'' \<notin> set p" using digit_string_not [OF assms(2), of "CHR '':''"] by simp
  then have "cut_last CHR '':'' (h @ CHR '':'' # p) = Some (h, p)" by (rule cut_last_append)
  moreover have "\<not> HasPrefix h ''[''"
    using plain_host_not [OF assms(1), of "CHR ''[''"] by (cases h) (auto simp: HasPrefix_def)
  ultimately show ?thesis using assms(2) by (simp add: splitHostPort_def valid_optional_port_def)
qed

definition ws_scheme :: "WebSocketTransport \<Rightarrow> string" where
  "ws_scheme t = (if wsc_TLS (ws_config t) then ''wss'' else ''ws'')"

definition ws_path :: "WebSocketTransport \<Rightarrow> string" where
  "ws_path t = (if wsc_Path (ws_config t) = [] then ''/ws'' else wsc_Path (ws_config t))"

lemma plain_host_delims: "list_all (\<lambda>c. is_alnum c \<or> c \<in> set ''-._~'') h \<Longrightarrow> set h \<inter> set '':[]'' = {} \<and> plain_host h"
proof -
  assume h: "list_all (\<lambda>c. is_alnum c \<or> c \<in> set ''-._~'') h"
  have "list_all (\<lambda>d. \<not> (is_alnum d \<or> d \<in> set ''-._~'')) '':[]''" by (simp add: is_alnum_def)
  then have "\<forall>c\<in>set h. c \<notin> set '':[]''" using h unfolding list_all_iff by blast
  moreover have "plain_host h" using h unfolding plain_host_def by (simp add: list_all_iff) blast
  ultimately show ?thesis by blast
qed

lemma digits_delims: "list_all is_digit p \<Longrightarrow> set p \<inter> set '':[]'' = {}"
  using digit_string_not [of p "CHR '':''"] digit_string_not [of p "CHR ''[''"] digit_string_not [of p "CHR '']''"]
  by auto

subsection \<open>Messages\<close>

fun ws_write_all :: "bytes list \<Rightarrow> wsConnWrapper \<Rightarrow> wsConnWrapper" where
  "ws_write_all [] c = c"
| "ws_write_all (b # bs) c = ws_write_all bs (snd (ws_Write b c))"

fun ws_read_all :: "nat list \<Rightarrow> wsConnWrapper \<Rightarrow> bytes list" where
  "ws_read_all [] c = []"
| "ws_read_all (n # ns) c =
     (case ws_Read n c of (Inr b, c) \<Rightarrow> b # ws_read_all ns c | (Inl _, c) \<Rightarrow> [])"

lemma ws_write_all: "ws_writable c \<Longrightarrow> ws_written (ws_write_all bs c) = ws_written c @ bs"
  by (induction bs arbitrary: c) (simp_all add: ws_Write_def)

lemma ws_read_all: "length ns = length (ws_messages c) \<Longrightarrow> ws_read_all ns c = map2 take ns (ws_messages c)"
proof (induction ns arbitrary: c)
  case (Cons n ns)
  then obtain m ms where m: "ws_messages c = m # ms" by (cases "ws_messages c") simp_all
  then show ?case using Cons.IH [of "c\<lparr>ws_messages := ms\<rparr>"] Cons.prems by (simp add: ws_Read_def)
qed simp

lemma takes_shorter: "length (concat (map2 take ns ms)) \<le> length (concat ms)"
proof (induction ns arbitrary: ms)
  case (Cons n ns)
  show ?case using Cons.IH [of "tl ms"] by (cases ms) (simp_all add: min_def)
qed simp

lemma takes_concat:
  "length ns = length ms \<Longrightarrow> concat (map2 take ns ms) = concat ms \<longleftrightarrow> list_all2 (\<lambda>n m. length m \<le> n) ns ms"
proof (induction ns ms rule: list_induct2)
  case (Cons n ns m ms)
  show ?case
  proof (cases "length m \<le> n")
    case False
    then have "length (take n m @ concat (map2 take ns ms)) < length (m @ concat ms)"
      using takes_shorter [of ns ms] by simp
    then have "take n m @ concat (map2 take ns ms) \<noteq> m @ concat ms" by (metis less_irrefl)
    then show ?thesis using False by simp
  qed (use Cons.IH in simp)
qed simp

subsection \<open>The listener\<close>

datatype ws_event = WsUpgrade bool "nat option" | WsAccept bool | WsClose

text \<open>The listener, the connections \<^verbatim>\<open>Accept\<close> returned and the number of its errors. An \<^verbatim>\<open>Accept\<close> that
  has to wait does nothing.\<close>

fun ws_listener_step :: "wsListener \<times> nat list \<times> nat \<Rightarrow> ws_event \<Rightarrow> wsListener \<times> nat list \<times> nat" where
  "ws_listener_step (l, got, errs) (WsUpgrade first u) = (handleWebSocket first u l, got, errs)"
| "ws_listener_step (l, got, errs) (WsAccept first) =
     (case ws_Accept first l of
        None \<Rightarrow> (l, got, errs)
      | Some (Inr n, l) \<Rightarrow> (l, got @ [n], errs)
      | Some (Inl _, l) \<Rightarrow> (l, got, Suc errs))"
| "ws_listener_step (l, got, errs) WsClose = (ws_Listener_Close l, got, errs)"

fun upgraded :: "ws_event list \<Rightarrow> nat list" where
  "upgraded [] = []"
| "upgraded (WsUpgrade _ (Some n) # es) = n # upgraded es"
| "upgraded (_ # es) = upgraded es"

lemma upgraded_append: "upgraded (es @ fs) = upgraded es @ upgraded fs"
  by (induction es rule: upgraded.induct) simp_all

definition ws_listener_ok :: "ws_event list \<Rightarrow> wsListener \<times> nat list \<times> nat \<Rightarrow> bool" where
  "ws_listener_ok es s \<longleftrightarrow> (case s of (l, got, errs) \<Rightarrow>
     length (acceptCh l) \<le> ws_queue
     \<and> mset (got @ acceptCh l @ ws_dropped l) = mset (upgraded es)
     \<and> subseq (got @ acceptCh l) (upgraded es)
     \<and> (ws_stopped l \<longleftrightarrow> WsClose \<in> set es) \<and> (errs \<noteq> 0 \<longrightarrow> ws_stopped l)
     \<and> (length (upgraded es) \<le> ws_queue \<and> \<not> ws_stopped l \<longrightarrow> ws_dropped l = []))"

lemma ws_listener_next:
  assumes "ws_listener_ok es s"
  shows "ws_listener_ok (es @ [e]) (ws_listener_step s e)"
proof -
  obtain l got errs where s: "s = (l, got, errs)" by (cases s)
  have h: "length (acceptCh l) \<le> ws_queue" "mset (got @ acceptCh l @ ws_dropped l) = mset (upgraded es)"
    "subseq (got @ acceptCh l) (upgraded es)" "ws_stopped l \<longleftrightarrow> WsClose \<in> set es" "errs \<noteq> 0 \<longrightarrow> ws_stopped l"
    "length (upgraded es) \<le> ws_queue \<and> \<not> ws_stopped l \<longrightarrow> ws_dropped l = []"
    using assms by (auto simp: ws_listener_ok_def s)
  have len: "length got + length (acceptCh l) + length (ws_dropped l) = length (upgraded es)"
    using arg_cong [OF h(2), of size] by simp
  show ?thesis
  proof (cases e)
    case (WsUpgrade first u)
    show ?thesis
    proof (cases u)
      case None
      then show ?thesis using h by (auto simp: s WsUpgrade ws_listener_ok_def handleWebSocket_def upgraded_append)
    next
      case (Some n)
      have "subseq ((got @ acceptCh l) @ [n]) (upgraded es @ [n])" "subseq (got @ acceptCh l) (upgraded es @ [n])"
        using list_emb_append_mono [OF h(3) subseq_order.refl, of "[n]"] list_emb_append_mono [OF h(3), of "[]" "[n]"]
        by simp_all
      then show ?thesis using h len
        by (simp add: s WsUpgrade Some ws_listener_ok_def handleWebSocket_def upgraded_append ws_queue_def)
    qed
  next
    case (WsAccept first)
    show ?thesis using h
      by (auto simp: s WsAccept ws_listener_ok_def ws_Accept_def upgraded_append split: list.split)
  next
    case WsClose
    then show ?thesis using h by (auto simp: s ws_listener_ok_def ws_Listener_Close_def upgraded_append)
  qed
qed

lemma ws_listener_run:
  "ws_listener_ok [] (l, [], 0) \<Longrightarrow> ws_listener_ok es (foldl ws_listener_step (l, [], 0) es)"
  by (induction es rule: rev_induct) (simp_all add: ws_listener_next)

section \<open>Properties\<close>

text \<open>Messages through a connection. Whatever was written, a reader with buffers of given sizes gets
  the beginning of each message that fits; so it gets the bytes written, as a stream reader would, if and
  only if no message is longer than the buffer it is read with. The rest of a longer one is lost without
  an error.\<close>

theorem ws_stream:
  assumes "ws_writable c" "ws_written c = []" "ws_messages d = ws_written (ws_write_all ms c)" "length ns = length ms"
  shows "ws_read_all ns d = map2 take ns ms
    \<and> (concat (ws_read_all ns d) = concat ms \<longleftrightarrow> list_all2 (\<lambda>n m. length m \<le> n) ns ms)"
proof -
  have "ws_messages d = ms" using ws_write_all [OF assms(1)] assms(2,3) by simp
  then show ?thesis using ws_read_all [of ns d] takes_concat [OF assms(4)] assms(4) by simp
qed

definition demo_ws :: "bytes list \<Rightarrow> wsConnWrapper" where
  "demo_ws ms = \<lparr> wsConn = 0, ws_messages = ms, ws_written = [], ws_writable = True, ws_remote = [] \<rparr>"

theorem ws_stream_witness:
  "\<exists>d. ws_messages d = ws_written (ws_write_all [[1, 2, 3], [4]] (demo_ws []))
     \<and> ws_read_all [2, 2] d = [[1, 2], [4]] \<and> concat (ws_read_all [2, 2] d) \<noteq> [1, 2, 3, 4]"
proof -
  let ?d = "demo_ws (ws_written (ws_write_all [[1, 2, 3], [4]] (demo_ws [])))"
  have m: "ws_messages ?d = ws_written (ws_write_all [[1, 2, 3], [4]] (demo_ws []))" by (simp add: demo_ws_def)
  from ws_stream [OF _ _ m, of "[2, 2]"] show ?thesis using m by (auto simp: demo_ws_def intro!: exI [of _ ?d])
qed

text \<open>The URL that is dialled. For an address of a name or IPv4 address with a port, or without one,
  \<^verbatim>\<open>ParseWebSocketURL\<close> reads back from it the scheme, the host, the port, the port of the scheme when none was
  given, and the path, \<^verbatim>\<open>/ws\<close> when none is configured. From an IPv6 address in brackets the URL keeps the
  host without its brackets, and the host part that results is no longer an address with a port.\<close>

theorem ws_url:
  assumes "list_all (\<lambda>c. is_alnum c \<or> c \<in> set ''-._~'') host" "list_all is_digit port" "port \<noteq> []"
    and "plain_path (ws_path t)"
    and "list_all (\<lambda>c. is_alnum c \<or> c = CHR '':'') ip6" "CHR '':'' \<in> set ip6"
  shows "ParseWebSocketURL (buildWebSocketURL t (host @ '':'' @ port)) = Inr (ws_scheme t, host, port, ws_path t)
    \<and> ParseWebSocketURL (buildWebSocketURL t host)
        = Inr (ws_scheme t, host, if wsc_TLS (ws_config t) then ''443'' else ''80'', ws_path t)
    \<and> (\<exists>u. url_Parse (buildWebSocketURL t (''['' @ ip6 @ '']:'' @ port)) = Some u
         \<and> url_Host u = ip6 @ '':'' @ port \<and> SplitHostPort (url_Host u) = None)"
proof -
  have h: "set host \<inter> set '':[]'' = {}" "plain_host host" using plain_host_delims [OF assms(1)] by simp_all
  have p: "set port \<inter> set '':[]'' = {}" by (rule digits_delims [OF assms(2)])
  have sch: "ws_scheme t \<in> {''ws'', ''wss''}" by (simp add: ws_scheme_def)
  have path: "ws_path t \<noteq> []" using assms(4) by (auto simp: plain_path_def)
  have parsed: "ParseWebSocketURL (ws_scheme t @ ''://'' @ h @ '':'' @ q @ ws_path t) = Inr (ws_scheme t, h, q, ws_path t)"
    if "plain_host h" "list_all is_digit q" "q \<noteq> []" for h q
    using parse_ws [OF sch that(1,2) assms(4)] splitHostPort_port [OF that(1,2)] sch that(3) path
    by (auto simp: ParseWebSocketURL_def Let_def)
  have build: "buildWebSocketURL t a = ws_scheme t @ ''://'' @ h @ '':'' @ q @ ws_path t"
    if "(case SplitHostPort a of Some hp \<Rightarrow> hp | None \<Rightarrow> (a, if wsc_TLS (ws_config t) then ''443'' else ''80'')) = (h, q)"
    for a h q
    using that by (simp add: buildWebSocketURL_def ws_scheme_def ws_path_def Let_def)
  have b1: "buildWebSocketURL t (host @ '':'' @ port) = ws_scheme t @ ''://'' @ host @ '':'' @ port @ ws_path t"
    using SplitHostPort_plain [OF h(1) p] by (intro build) simp
  have "SplitHostPort host = None" using h(1) by (simp add: SplitHostPort_def cut_last_def cut_first_def)
  then have b2: "buildWebSocketURL t host
      = ws_scheme t @ ''://'' @ host @ '':'' @ (if wsc_TLS (ws_config t) then ''443'' else ''80'') @ ws_path t"
    by (intro build) simp
  have six: "plain_host ip6" "set ip6 \<inter> set ''[]'' = {}"
  proof -
    show "plain_host ip6" using assms(5) by (simp add: plain_host_def list_all_iff) blast
    show "set ip6 \<inter> set ''[]'' = {}"
      using plain_host_not [OF \<open>plain_host ip6\<close>, of "CHR ''[''"] plain_host_not [OF \<open>plain_host ip6\<close>, of "CHR '']''"] by simp
  qed
  have b3: "buildWebSocketURL t (''['' @ ip6 @ '']:'' @ port) = ws_scheme t @ ''://'' @ ip6 @ '':'' @ port @ ws_path t"
    using SplitHostPort_bracket [OF six(2) p] by (intro build) simp
  have "cut_last CHR '':'' (ip6 @ '':'' @ port) = Some (ip6, port)"
    using cut_last_append [of "CHR '':''" port ip6] p by simp
  moreover have "ip6 \<noteq> [] \<Longrightarrow> hd ip6 \<noteq> CHR ''[''" using six(2) by (cases ip6) auto
  ultimately have "SplitHostPort (ip6 @ '':'' @ port) = None"
    using assms(6) by (auto simp: SplitHostPort_def)
  then show ?thesis
    unfolding b1 b2 b3 using parsed [OF h(2) assms(2,3)] parse_ws [OF sch six(1) assms(2,4)]
      parsed [OF h(2), of "if wsc_TLS (ws_config t) then ''443'' else ''80''"]
    by (simp add: is_digit_def)
qed

theorem ws_url_witness:
  "ParseWebSocketURL (buildWebSocketURL (NewWebSocketTransport None) ''a.b:8080'') = Inr (''ws'', ''a.b'', ''8080'', ''/ws'')
   \<and> (\<exists>u. url_Parse (buildWebSocketURL (NewWebSocketTransport None) ''[::1]:8080'') = Some u
        \<and> url_Host u = ''::1:8080'' \<and> SplitHostPort (url_Host u) = None)"
proof -
  let ?t = "NewWebSocketTransport None"
  have "ws_path ?t = ''/ws''" "ws_scheme ?t = ''ws''"
    by (simp_all add: ws_path_def ws_scheme_def NewWebSocketTransport_def ws_DefaultConfig_def)
  then show ?thesis
    using ws_url [of "''a.b''" "''8080''" ?t "''::1''"] by (simp add: plain_path_def is_alnum_def is_digit_def)
qed



end
