(* ===== verification/Dialer.thy ===== *)
theory Dialer
  imports Prelude
begin

text \<open>
  The protected dialler (\<^verbatim>\<open>pkg/network/protected_dialer.go\<close>): the global dialler, and what it does with
  the sockets a dial tries. A socket is its descriptor, whether \<^verbatim>\<open>RawConn.Control\<close> works on it, and whether
  it connects; the dial of \<^verbatim>\<open>net.Dialer\<close> runs the control function on each before it connects it, and
  gives the first error when none connects.
\<close>

section \<open>The global dialler\<close>

type_synonym protector = "(int \<Rightarrow> bool) option" \<comment> \<open>\<open>None\<close> is nil\<close>

type_synonym socket = "int \<times> bool \<times> bool"

datatype dialer_error = ErrControl | ErrProtect int | ErrConnect | ErrNoAddress | ErrNotUDP

record net_Dialer =
  Timeout :: int
  KeepAlive :: int
  Control :: "(bool \<Rightarrow> int \<Rightarrow> dialer_error option) option"

record protectedDialer =
  pd_Dialer :: net_Dialer
  protector :: protector

definition getControlFunc :: "protector \<Rightarrow> bool \<Rightarrow> int \<Rightarrow> dialer_error option" where
  "getControlFunc p raw_ok fd =
     (case p of
        None \<Rightarrow> None
      | Some f \<Rightarrow> if \<not> raw_ok then Some ErrControl else if \<not> f fd then Some (ErrProtect fd) else None)"

definition SetSocketProtector :: "protector \<Rightarrow> protectedDialer option \<Rightarrow> protectedDialer option" where
  "SetSocketProtector p g =
     (case g of
        None \<Rightarrow> Some \<lparr> pd_Dialer = \<lparr> Timeout = 30 * second, KeepAlive = 30 * second, Control = Some (getControlFunc p) \<rparr>,
                       protector = p \<rparr>
      | Some d \<Rightarrow> Some (d\<lparr> protector := p, pd_Dialer := (pd_Dialer d)\<lparr>Control := Some (getControlFunc p)\<rparr> \<rparr>))"

definition ClearSocketProtector :: "protectedDialer option \<Rightarrow> protectedDialer option" where
  "ClearSocketProtector g = None"

definition IsProtectorSet :: "protectedDialer option \<Rightarrow> bool" where
  "IsProtectorSet g \<longleftrightarrow> (case g of None \<Rightarrow> False | Some d \<Rightarrow> protector d \<noteq> None)"

definition GetProtectedDialer :: "protectedDialer option \<Rightarrow> net_Dialer" where
  "GetProtectedDialer g =
     (case g of None \<Rightarrow> \<lparr> Timeout = 30 * second, KeepAlive = 30 * second, Control = None \<rparr> | Some d \<Rightarrow> pd_Dialer d)"

section \<open>Dialling\<close>

text \<open>The error of one socket; \<open>None\<close> when it is connected.\<close>

definition try_socket :: "net_Dialer \<Rightarrow> socket \<Rightarrow> dialer_error option" where
  "try_socket d s =
     (case s of (fd, raw_ok, connects) \<Rightarrow>
        case (case Control d of None \<Rightarrow> None | Some c \<Rightarrow> c raw_ok fd) of
          Some e \<Rightarrow> Some e
        | None \<Rightarrow> if connects then None else Some ErrConnect)"

fun dial_sockets :: "net_Dialer \<Rightarrow> dialer_error option \<Rightarrow> socket list \<Rightarrow> dialer_error + int" where
  "dial_sockets d first [] = Inl (case first of Some e \<Rightarrow> e | None \<Rightarrow> ErrNoAddress)"
| "dial_sockets d first (s # ss) =
     (case try_socket d s of
        None \<Rightarrow> Inr (fst s)
      | Some e \<Rightarrow> dial_sockets d (case first of None \<Rightarrow> Some e | Some _ \<Rightarrow> first) ss)"

definition DialProtectedContext :: "protectedDialer option \<Rightarrow> socket list \<Rightarrow> dialer_error + int" where
  "DialProtectedContext g sockets =
     (case g of
        None \<Rightarrow> dial_sockets \<lparr> Timeout = 0, KeepAlive = 0, Control = None \<rparr> None sockets
      | Some d \<Rightarrow> dial_sockets (pd_Dialer d) None sockets)"

definition DialProtected :: "protectedDialer option \<Rightarrow> socket list \<Rightarrow> dialer_error + int" where
  "DialProtected g sockets = DialProtectedContext g sockets"

text \<open>A dial to a UDP address has one socket. \<open>is_udp\<close>: the connection is a \<^verbatim>\<open>UDPConn\<close>. The local address
  is only looked at without a protector. The second result is the descriptors closed.\<close>

definition DialUDPProtected :: "bool \<Rightarrow> protectedDialer option \<Rightarrow> socket \<Rightarrow> (dialer_error + int) \<times> int list" where
  "DialUDPProtected is_udp g s =
     (case g of
        None \<Rightarrow> (dial_sockets \<lparr> Timeout = 0, KeepAlive = 0, Control = None \<rparr> None [s], [])
      | Some d \<Rightarrow>
          (case dial_sockets (pd_Dialer d) None [s] of
             Inl e \<Rightarrow> (Inl e, [])
           | Inr fd \<Rightarrow> if is_udp then (Inr fd, []) else (Inl ErrNotUDP, [fd])))"

section \<open>Any history\<close>

datatype protector_op = SetOp protector | ClearOp

fun protector_step :: "protectedDialer option \<Rightarrow> protector_op \<Rightarrow> protectedDialer option" where
  "protector_step g (SetOp p) = SetSocketProtector p g"
| "protector_step g ClearOp = ClearSocketProtector g"

text \<open>The protector in force: the last one set, unless it was cleared or nil.\<close>

fun in_force :: "protector \<Rightarrow> protector_op list \<Rightarrow> protector" where
  "in_force p [] = p"
| "in_force p (SetOp q # ops) = in_force q ops"
| "in_force p (ClearOp # ops) = in_force None ops"

definition dialer_inv :: "protector \<Rightarrow> protectedDialer option \<Rightarrow> bool" where
  "dialer_inv p g \<longleftrightarrow> (case g of None \<Rightarrow> p = None
     | Some d \<Rightarrow> protector d = p \<and> Control (pd_Dialer d) = Some (getControlFunc p) \<and> Timeout (pd_Dialer d) = 30 * second)"

lemma dialer_run: "dialer_inv p g \<Longrightarrow> dialer_inv (in_force p ops) (foldl protector_step g ops)"
proof (induction ops arbitrary: p g)
  case (Cons op ops)
  have "dialer_inv (in_force p [op]) (protector_step g op)"
    using Cons.prems by (cases op) (auto simp: dialer_inv_def SetSocketProtector_def ClearSocketProtector_def split: option.splits)
  then show ?case using Cons.IH by (cases op) fastforce+
qed simp

definition usable :: "protector \<Rightarrow> socket \<Rightarrow> bool" where
  "usable p s \<longleftrightarrow> (case s of (fd, raw_ok, connects) \<Rightarrow> connects \<and> (case p of None \<Rightarrow> True | Some f \<Rightarrow> raw_ok \<and> f fd))"

lemma dial_sockets_first:
  assumes "\<And>s. try_socket d s = None \<longleftrightarrow> usable p s"
  shows "(case find (usable p) ss of Some s \<Rightarrow> dial_sockets d e ss = Inr (fst s) | None \<Rightarrow> (\<exists>e'. dial_sockets d e ss = Inl e'))"
proof (induction ss arbitrary: e)
  case (Cons s ss)
  show ?case
  proof (cases "try_socket d s")
    case (Some e')
    then have "\<not> usable p s" using assms [of s] by simp
    then show ?thesis using Some Cons.IH [of "case e of None \<Rightarrow> Some e' | Some _ \<Rightarrow> e"]
      by (simp cong: option.case_cong)
  qed (use assms [of s] in simp)
qed simp

lemma try_socket_usable:
  "Control d = Some (getControlFunc p) \<or> Control d = None \<and> p = None \<Longrightarrow> try_socket d s = None \<longleftrightarrow> usable p s"
  by (auto simp: try_socket_def usable_def getControlFunc_def split: option.splits prod.splits if_splits)

text \<open>C29. Whatever setting and clearing came before, a dial connects the first socket that the protector
  in force accepts and that connects, and no other; in particular no connection is made on a descriptor that the
  protector has not accepted.\<close>

theorem dial_protected:
  assumes "g = foldl protector_step None ops"
  shows "(IsProtectorSet g \<longleftrightarrow> in_force None ops \<noteq> None)
    \<and> (case find (usable (in_force None ops)) sockets of
         Some s \<Rightarrow> DialProtectedContext g sockets = Inr (fst s)
       | None \<Rightarrow> \<exists>e. DialProtectedContext g sockets = Inl e)
    \<and> (fst (DialUDPProtected is_udp g s) = Inr fd \<longrightarrow> fst s = fd \<and> usable (in_force None ops) s)"
proof -
  let ?p = "in_force None ops"
  have inv: "dialer_inv ?p g" using dialer_run [of None None ops] assms by (simp add: dialer_inv_def)
  let ?d = "case g of None \<Rightarrow> \<lparr> Timeout = 0, KeepAlive = 0, Control = None \<rparr> | Some d \<Rightarrow> pd_Dialer d"
  have t: "try_socket ?d s = None \<longleftrightarrow> usable ?p s" for s
    using inv by (intro try_socket_usable) (auto simp: dialer_inv_def split: option.splits)
  have ctx: "DialProtectedContext g sockets = dial_sockets ?d None sockets"
    by (simp add: DialProtectedContext_def split: option.split)
  have "dial_sockets ?d None [s] = Inr fd \<Longrightarrow> fst s = fd \<and> usable ?p s"
    using t [of s] by (auto split: option.splits)
  moreover have "fst (DialUDPProtected is_udp g s) = Inr fd \<Longrightarrow> dial_sockets ?d None [s] = Inr fd"
    by (auto simp: DialUDPProtected_def split: option.splits sum.splits if_splits)
  moreover have "IsProtectorSet g \<longleftrightarrow> ?p \<noteq> None"
    using inv by (auto simp: IsProtectorSet_def dialer_inv_def split: option.splits)
  moreover have "case find (usable ?p) sockets of Some s \<Rightarrow> DialProtectedContext g sockets = Inr (fst s)
      | None \<Rightarrow> \<exists>e. DialProtectedContext g sockets = Inl e"
    unfolding ctx by (rule dial_sockets_first) (rule t)
  ultimately show ?thesis by blast
qed

theorem dial_protected_witness:
  "DialProtectedContext (foldl protector_step None [SetOp None, SetOp (Some (\<lambda>fd. fd = 4))])
     [(3, True, True), (4, True, False), (4, True, True)] = Inr 4"
proof -
  let ?ops = "[SetOp None, SetOp (Some (\<lambda>fd :: int. fd = 4))]"
  have "find (usable (in_force None ?ops)) [(3, True, True), (4, True, False), (4, True, True)] = Some (4, True, True)"
    by (simp add: usable_def)
  then show ?thesis
    using dial_protected [of "foldl protector_step None ?ops" ?ops "[(3, True, True), (4, True, False), (4, True, True)]"]
    by simp
qed

end
