(* ===== verification/Relay.thy ===== *)
theory Relay
  imports Prelude "HOL-Library.Sublist"
begin

text \<open>
  The relays between a client's connection and a target's: the two goroutines of the SOCKS5 proxy
  (\<^verbatim>\<open>pkg/proxy/socks5.go\<close>), of the HTTP proxy (\<^verbatim>\<open>pkg/proxy/http.go\<close>) and of the server's proxy streams
  (\<^verbatim>\<open>cmd/server/main.go\<close>), each an \<^verbatim>\<open>io.Copy\<close> followed by what the goroutine does at its end. They
  differ only in that, and in what the handler closes when both have ended.
\<close>

section \<open>Connections\<close>

text \<open>
  A connection as the relay sees it: what its peer has sent, and how much of that has not been read yet; what
  was written to it; whether the peer has ended its side, knows the end of ours, or has reset the connection.
  A closed TCP connection cannot be read any more; whether a closed yamux stream can is \<open>reads_on\<close>.
\<close>

record endpoint =
  arrived :: bytes
  peer_sent :: bytes
  peer_ended :: bool
  ep_got :: bytes
  told_end :: bool
  closed_here :: bool
  broken :: bool
  reads_on :: bool

definition fresh_endpoint :: "bool \<Rightarrow> endpoint" where
  "fresh_endpoint on = \<lparr> arrived = [], peer_sent = [], peer_ended = False, ep_got = [], told_end = False,
     closed_here = False, broken = False, reads_on = on \<rparr>"

definition can_read :: "endpoint \<Rightarrow> bool" where
  "can_read e \<longleftrightarrow> \<not> broken e \<and> (closed_here e \<longrightarrow> reads_on e)"

definition can_write :: "endpoint \<Rightarrow> bool" where
  "can_write e \<longleftrightarrow> \<not> broken e \<and> \<not> told_end e"

definition ep_Close :: "endpoint \<Rightarrow> endpoint" where
  "ep_Close e = e\<lparr>closed_here := True, told_end := True\<rparr>"

definition ep_CloseWrite :: "endpoint \<Rightarrow> endpoint" where
  "ep_CloseWrite e = e\<lparr>told_end := True\<rparr>"

text \<open>What the peer of a connection does.\<close>

inductive peer_step :: "bool \<Rightarrow> endpoint \<Rightarrow> endpoint \<Rightarrow> bool" for resets where
  peer_send: "\<not> peer_ended e \<Longrightarrow> peer_step resets e (e\<lparr>arrived := arrived e @ b, peer_sent := peer_sent e @ b\<rparr>)"
| peer_end: "peer_step resets e (e\<lparr>peer_ended := True\<rparr>)"
| peer_reset: "resets \<Longrightarrow> peer_step resets e (e\<lparr>broken := True\<rparr>)"

inductive_simps peer_step_iff: "peer_step resets e f"

section \<open>Copying\<close>

text \<open>One read of at most \<open>n\<close> bytes and the write of what it gave: the bytes moved and those left, the end
  of the loop, or a read that is still waiting. What a failing write had read stays where nobody reads it
  again.\<close>

datatype copied = Moved bytes bytes | Ended | Waiting

definition copy_once :: "nat \<Rightarrow> endpoint \<Rightarrow> endpoint \<Rightarrow> copied" where
  "copy_once n s d =
     (if \<not> can_read s then Ended
      else if arrived s \<noteq> [] then
        (if can_write d then Moved (take n (arrived s)) (drop n (arrived s)) else Ended)
      else if peer_ended s then Ended else Waiting)"

record relay =
  cl :: endpoint
  tg :: endpoint
  up_done :: bool
  down_done :: bool
  bytes_up :: nat
  bytes_down :: nat
  returned :: bool

record relay_kind =
  after_up :: "endpoint \<Rightarrow> endpoint" \<comment> \<open>on the target\<close>
  after_down :: "endpoint \<Rightarrow> endpoint" \<comment> \<open>on the client\<close>
  at_return :: "relay \<Rightarrow> relay"

definition fresh_relay :: "endpoint \<Rightarrow> endpoint \<Rightarrow> relay" where
  "fresh_relay c t = \<lparr> cl = c, tg = t, up_done = False, down_done = False, bytes_up = 0, bytes_down = 0,
     returned = False \<rparr>"

definition up_copy :: "relay_kind \<Rightarrow> nat \<Rightarrow> relay \<Rightarrow> relay option" where
  "up_copy k n r =
     (if up_done r then None
      else case copy_once n (cl r) (tg r) of
             Moved b rest \<Rightarrow> Some (r\<lparr> cl := (cl r)\<lparr>arrived := rest\<rparr>, tg := (tg r)\<lparr>ep_got := ep_got (tg r) @ b\<rparr>,
                                     bytes_up := bytes_up r + length b \<rparr>)
           | Ended \<Rightarrow> Some (r\<lparr> tg := after_up k (tg r), up_done := True \<rparr>)
           | Waiting \<Rightarrow> None)"

definition down_copy :: "relay_kind \<Rightarrow> nat \<Rightarrow> relay \<Rightarrow> relay option" where
  "down_copy k n r =
     (if down_done r then None
      else case copy_once n (tg r) (cl r) of
             Moved b rest \<Rightarrow> Some (r\<lparr> tg := (tg r)\<lparr>arrived := rest\<rparr>, cl := (cl r)\<lparr>ep_got := ep_got (cl r) @ b\<rparr>,
                                     bytes_down := bytes_down r + length b \<rparr>)
           | Ended \<Rightarrow> Some (r\<lparr> cl := after_down k (cl r), down_done := True \<rparr>)
           | Waiting \<Rightarrow> None)"

text \<open>\<^verbatim>\<open>wg.Wait\<close> and what the handler does when it returns.\<close>

definition relay_return :: "relay_kind \<Rightarrow> relay \<Rightarrow> relay option" where
  "relay_return k r = (if up_done r \<and> down_done r \<and> \<not> returned r then Some ((at_return k r)\<lparr>returned := True\<rparr>) else None)"

section \<open>The three relays\<close>

text \<open>SOCKS5: each goroutine closes the connection it wrote to; the handler closes the client's.\<close>

definition socks_relay :: relay_kind where
  "socks_relay = \<lparr> after_up = ep_Close, after_down = ep_Close, at_return = (\<lambda>r. r\<lparr>cl := ep_Close (cl r)\<rparr>) \<rparr>"

text \<open>HTTP: they only end the writing side, where the connection has \<^verbatim>\<open>CloseWrite\<close>: the client's, which is a TCP
  connection, has, a yamux stream has not.\<close>

definition http_relay :: "bool \<Rightarrow> relay_kind" where
  "http_relay target_tcp = \<lparr> after_up = (if target_tcp then ep_CloseWrite else ep_Close), after_down = ep_CloseWrite,
     at_return = (\<lambda>r. r\<lparr>cl := ep_Close (cl r)\<rparr>) \<rparr>"

text \<open>The server: nothing, until both have ended.\<close>

definition server_relay :: relay_kind where
  "server_relay = \<lparr> after_up = (\<lambda>e. e), after_down = (\<lambda>e. e),
     at_return = (\<lambda>r. r\<lparr>tg := ep_Close (tg r), cl := ep_Close (cl r)\<rparr>) \<rparr>"

section \<open>Every interleaving\<close>

inductive inner_step :: "relay_kind \<Rightarrow> relay \<Rightarrow> relay \<Rightarrow> bool" for k where
  step_up: "0 < n \<Longrightarrow> up_copy k n r = Some r' \<Longrightarrow> inner_step k r r'"
| step_down: "0 < n \<Longrightarrow> down_copy k n r = Some r' \<Longrightarrow> inner_step k r r'"
| step_return: "relay_return k r = Some r' \<Longrightarrow> inner_step k r r'"

inductive relay_step :: "relay_kind \<Rightarrow> bool \<Rightarrow> relay \<Rightarrow> relay \<Rightarrow> bool" for k resets where
  step_inner: "inner_step k r r' \<Longrightarrow> relay_step k resets r r'"
| step_client: "peer_step resets (cl r) e \<Longrightarrow> relay_step k resets r (r\<lparr>cl := e\<rparr>)"
| step_target: "peer_step resets (tg r) e \<Longrightarrow> relay_step k resets r (r\<lparr>tg := e\<rparr>)"

inductive_cases inner_stepE: "inner_step k r r'"

inductive_cases relay_stepE: "relay_step k resets r r'"


section \<open>What all relays keep\<close>

text \<open>Two endpoints that differ at most in what our side has ended.\<close>

definition same_data :: "endpoint \<Rightarrow> endpoint \<Rightarrow> bool" where
  "same_data e f \<longleftrightarrow> arrived e = arrived f \<and> peer_sent e = peer_sent f \<and> peer_ended e = peer_ended f
     \<and> ep_got e = ep_got f \<and> broken e = broken f \<and> reads_on e = reads_on f"

named_theorems relay_simps \<open>the operations of the relays\<close>

lemmas [relay_simps] = up_copy_def down_copy_def relay_return_def copy_once_def same_data_def
  ep_Close_def ep_CloseWrite_def socks_relay_def http_relay_def server_relay_def peer_step_iff

lemma same_dataD: "same_data e f \<Longrightarrow> arrived e = arrived f \<and> peer_sent e = peer_sent f \<and> peer_ended e = peer_ended f
    \<and> ep_got e = ep_got f \<and> broken e = broken f \<and> reads_on e = reads_on f"
  by (simp add: same_data_def)

text \<open>Nothing is lost, doubled or reordered on the way, and the counters count what was written.\<close>

definition relay_data :: "relay \<Rightarrow> bool" where
  "relay_data r \<longleftrightarrow> peer_sent (cl r) = ep_got (tg r) @ arrived (cl r) \<and> peer_sent (tg r) = ep_got (cl r) @ arrived (tg r)
     \<and> bytes_up r = length (ep_got (tg r)) \<and> bytes_down r = length (ep_got (cl r))
     \<and> (returned r \<longrightarrow> up_done r \<and> down_done r)"

text \<open>The work left: bytes to copy, loops to end, the return.\<close>

instantiation relay_ext :: (type) size
begin

definition size_relay_ext :: "'a relay_ext \<Rightarrow> nat" where
  "size_relay_ext r = length (arrived (cl r)) + length (arrived (tg r))
     + of_bool (\<not> up_done r) + of_bool (\<not> down_done r) + of_bool (\<not> returned r)"

instance ..

end

locale relay_ends =
  fixes k :: relay_kind
  assumes up_data: "same_data (after_up k e) e"
    and down_data: "same_data (after_down k e) e"
    and return_data: "same_data (cl (at_return k r)) (cl r) \<and> same_data (tg (at_return k r)) (tg r)
      \<and> up_done (at_return k r) = up_done r \<and> down_done (at_return k r) = down_done r
      \<and> bytes_up (at_return k r) = bytes_up r \<and> bytes_down (at_return k r) = bytes_down r"
begin

lemmas ends = same_dataD [OF up_data] same_dataD [OF down_data] return_data [unfolded same_data_def]

lemma inner_data: "inner_step k r r' \<Longrightarrow> relay_data r \<Longrightarrow> relay_data r'"
  by (erule inner_stepE)
    (auto simp: up_copy_def down_copy_def relay_return_def copy_once_def relay_data_def ends
      split: if_splits copied.splits)

lemma inner_size: "inner_step k r r' \<Longrightarrow> size r' < size r"
  by (erule inner_stepE)
    (auto simp: up_copy_def down_copy_def relay_return_def copy_once_def size_relay_ext_def ends
      split: if_splits copied.splits)

lemma relay_data_step: "relay_step k resets r r' \<Longrightarrow> relay_data r \<Longrightarrow> relay_data r'"
proof (erule relay_stepE)
  fix e
  assume "relay_data r" "peer_step resets (cl r) e" "r' = r\<lparr>cl := e\<rparr>"
  then show "relay_data r'" by (auto simp: relay_data_def peer_step_iff)
next
  fix e
  assume "relay_data r" "peer_step resets (tg r) e" "r' = r\<lparr>tg := e\<rparr>"
  then show "relay_data r'" by (auto simp: relay_data_def peer_step_iff)
qed (rule inner_data)

lemma inner_run: "(inner_step k ^^ n) r r' \<Longrightarrow> n + size r' \<le> size r"
proof (induction n arbitrary: r')
  case (Suc n)
  then obtain q where "(inner_step k ^^ n) r q" "inner_step k q r'" by auto
  then show ?case using Suc.IH [of q] inner_size [of q r'] by simp
qed simp

end

interpretation socks_ends: relay_ends socks_relay
  by unfold_locales (simp_all add: relay_simps)

interpretation http_ends: relay_ends "http_relay b" for b
  by unfold_locales (simp_all add: relay_simps)

interpretation server_ends: relay_ends server_relay
  by unfold_locales (simp_all add: relay_simps)

definition relay_start :: "bool \<Rightarrow> bool \<Rightarrow> relay \<Rightarrow> bool" where
  "relay_start c t r \<longleftrightarrow> r = fresh_relay (fresh_endpoint c) (fresh_endpoint t)"

lemma relay_data_start: "relay_start c t r \<Longrightarrow> relay_data r"
  by (simp add: relay_start_def fresh_relay_def fresh_endpoint_def relay_data_def)


section \<open>The HTTP relay\<close>

text \<open>One direction, while nobody resets a connection: the copying ends only when its source has ended and
  everything was copied, and then the sink knows.\<close>

definition direction_ok :: "endpoint \<Rightarrow> endpoint \<Rightarrow> bool \<Rightarrow> bool" where
  "direction_ok s d finished \<longleftrightarrow>
     (if finished then peer_ended s \<and> arrived s = [] \<and> told_end d else \<not> told_end d)"

definition http_inv :: "relay \<Rightarrow> bool" where
  "http_inv r \<longleftrightarrow> \<not> broken (cl r) \<and> \<not> broken (tg r) \<and> \<not> closed_here (tg r) \<and> (closed_here (cl r) \<longleftrightarrow> returned r)
     \<and> direction_ok (cl r) (tg r) (up_done r) \<and> direction_ok (tg r) (cl r) (down_done r)
     \<and> (returned r \<longrightarrow> up_done r \<and> down_done r)"

lemma http_inv_step: "relay_step (http_relay True) False r r' \<Longrightarrow> http_inv r \<Longrightarrow> http_inv r'"
proof (erule relay_stepE)
  assume "http_inv r" "inner_step (http_relay True) r r'"
  then show "http_inv r'"
    unfolding http_inv_def direction_ok_def
    by (auto elim!: inner_stepE simp: relay_simps can_read_def can_write_def split: if_splits copied.splits)
qed (auto simp: http_inv_def direction_ok_def peer_step_iff split: if_splits)

interpretation http_run: invariant_system "relay_start False False" "relay_step (http_relay True) False"
  "\<lambda>r. relay_data r \<and> http_inv r"
proof
  show "relay_start False False s \<Longrightarrow> relay_data s \<and> http_inv s" for s
    using relay_data_start by (auto simp: relay_start_def fresh_relay_def fresh_endpoint_def http_inv_def direction_ok_def)
qed (use http_inv_step http_ends.relay_data_step in blast)

lemma http_progress:
  assumes "http_inv r" "\<nexists>r'. inner_step (http_relay True) r r'"
  shows "peer_ended (cl r) \<Longrightarrow> up_done r" "peer_ended (tg r) \<Longrightarrow> down_done r"
    "peer_ended (cl r) \<Longrightarrow> peer_ended (tg r) \<Longrightarrow> returned r" "up_done r \<or> arrived (cl r) = []" "down_done r \<or> arrived (tg r) = []"
proof -
  have no: "up_copy (http_relay True) 1 r = None" "down_copy (http_relay True) 1 r = None" "relay_return (http_relay True) r = None"
    using assms(2) step_up [of 1] step_down [of 1] step_return by (metis not_Some_eq zero_less_one)+
  show u: "peer_ended (cl r) \<Longrightarrow> up_done r" and d: "peer_ended (tg r) \<Longrightarrow> down_done r"
    using no(1,2) by (auto simp: up_copy_def down_copy_def copy_once_def split: if_splits copied.splits)
  show "peer_ended (cl r) \<Longrightarrow> peer_ended (tg r) \<Longrightarrow> returned r"
    using no(3) u d by (auto simp: relay_return_def split: if_splits)
  show "up_done r \<or> arrived (cl r) = []" "down_done r \<or> arrived (tg r) = []"
    using no(1,2) by (auto simp: up_copy_def down_copy_def copy_once_def split: if_splits copied.splits)
qed

section \<open>The SOCKS5 relay\<close>

text \<open>To a target dialled here the end of the client's side closes everything.\<close>

definition socks_inv :: "relay \<Rightarrow> bool" where
  "socks_inv r \<longleftrightarrow> \<not> reads_on (tg r) \<and> (up_done r \<longrightarrow> closed_here (tg r))"

lemma socks_inv_step: "relay_step socks_relay resets r r' \<Longrightarrow> socks_inv r \<Longrightarrow> socks_inv r'"
proof (erule relay_stepE)
  assume "socks_inv r" "inner_step socks_relay r r'"
  then show "socks_inv r'"
    unfolding socks_inv_def by (auto elim!: inner_stepE simp: relay_simps split: if_splits copied.splits)
qed (auto simp: socks_inv_def peer_step_iff)

lemma socks_after_end:
  assumes "relay_step socks_relay resets r r'" "socks_inv r" "up_done r"
  shows "ep_got (cl r') = ep_got (cl r) \<and> socks_inv r' \<and> up_done r'"
proof -
  have "ep_got (cl r') = ep_got (cl r) \<and> up_done r'"
    using assms unfolding socks_inv_def
    by (auto elim!: relay_stepE inner_stepE simp: relay_simps can_read_def split: if_splits copied.splits)
  then show ?thesis using socks_inv_step [OF assms(1,2)] by blast
qed

section \<open>The server's relay\<close>

text \<open>Without resets it ends neither side before both peers have ended theirs.\<close>

definition server_inv :: "relay \<Rightarrow> bool" where
  "server_inv r \<longleftrightarrow> \<not> broken (cl r) \<and> \<not> broken (tg r)
     \<and> (up_done r \<longrightarrow> peer_ended (cl r)) \<and> (down_done r \<longrightarrow> peer_ended (tg r)) \<and> (returned r \<longrightarrow> up_done r \<and> down_done r)
     \<and> (\<not> returned r \<longrightarrow> \<not> closed_here (cl r) \<and> \<not> closed_here (tg r) \<and> \<not> told_end (cl r) \<and> \<not> told_end (tg r))"

lemma server_inv_step: "relay_step server_relay False r r' \<Longrightarrow> server_inv r \<Longrightarrow> server_inv r'"
proof (erule relay_stepE)
  assume "server_inv r" "inner_step server_relay r r'"
  then show "server_inv r'"
    unfolding server_inv_def
    by (auto elim!: inner_stepE simp: relay_simps can_read_def can_write_def split: if_splits copied.splits)
qed (auto simp: server_inv_def peer_step_iff)

lemma server_inv_told: "server_inv r \<Longrightarrow> told_end (cl r) \<or> told_end (tg r) \<Longrightarrow> peer_ended (cl r) \<and> peer_ended (tg r)"
  by (auto simp: server_inv_def)

section \<open>What the relays promise\<close>

lemma http_delivered:
  assumes "relay_data r" "http_inv r" "\<nexists>r'. inner_step (http_relay True) r r'"
  shows "peer_ended (cl r) \<Longrightarrow> told_end (tg r) \<and> ep_got (tg r) = peer_sent (cl r)"
    "peer_ended (tg r) \<Longrightarrow> told_end (cl r) \<and> ep_got (cl r) = peer_sent (tg r)"
  using http_progress(1,2) [OF assms(2,3)] assms(1,2) by (auto simp: relay_data_def http_inv_def direction_ok_def)

text \<open>C24. The HTTP proxy's relay of a tunnel to a directly dialled target, in every interleaving of its two
  goroutines with the two peers, while neither peer resets its connection: what each side was sent is a
  prefix of what the other sent, in order and counted exactly; the goroutines stop after at most as many steps as
  there are bytes waiting, and three; and when they cannot go on, all that a side sent before its end is delivered and
  its end passed on, whether the other side has ended or not, and if both have, the handler has returned.\<close>

theorem http_relay_complete:
  assumes "reachable (relay_start False False) (relay_step (http_relay True) False) r"
  shows "prefix (ep_got (tg r)) (peer_sent (cl r)) \<and> prefix (ep_got (cl r)) (peer_sent (tg r))
    \<and> bytes_up r = length (ep_got (tg r)) \<and> bytes_down r = length (ep_got (cl r))
    \<and> (\<forall>n r'. (inner_step (http_relay True) ^^ n) r r' \<longrightarrow> n \<le> length (arrived (cl r)) + length (arrived (tg r)) + 3)
    \<and> ((\<nexists>r'. inner_step (http_relay True) r r') \<longrightarrow>
        (peer_ended (cl r) \<longrightarrow> told_end (tg r) \<and> ep_got (tg r) = peer_sent (cl r))
      \<and> (peer_ended (tg r) \<longrightarrow> told_end (cl r) \<and> ep_got (cl r) = peer_sent (tg r))
      \<and> (peer_ended (cl r) \<and> peer_ended (tg r) \<longrightarrow> returned r))"
proof -
  have d: "relay_data r" and h: "http_inv r" using http_run.reachable_inv [OF assms] by blast+
  have "n \<le> length (arrived (cl r)) + length (arrived (tg r)) + 3" if "(inner_step (http_relay True) ^^ n) r r'" for n r'
    using http_ends.inner_run [OF that] by (simp add: size_relay_ext_def of_bool_def split: if_splits)
  then show ?thesis
    using d http_delivered [OF d h] http_progress(3) [OF h] by (auto simp: relay_data_def prefix_def)
qed


text \<open>A run: the client sends two bytes and ends its side, the goroutine copies them and ends.\<close>

definition client_sends :: "bytes \<Rightarrow> relay \<Rightarrow> relay" where
  "client_sends b r = r\<lparr>cl := (cl r)\<lparr>arrived := arrived (cl r) @ b, peer_sent := peer_sent (cl r) @ b\<rparr>\<rparr>"

definition client_ends :: "relay \<Rightarrow> relay" where
  "client_ends r = r\<lparr>cl := (cl r)\<lparr>peer_ended := True\<rparr>\<rparr>"

definition target_sends :: "bytes \<Rightarrow> relay \<Rightarrow> relay" where
  "target_sends b r = r\<lparr>tg := (tg r)\<lparr>arrived := arrived (tg r) @ b, peer_sent := peer_sent (tg r) @ b\<rparr>\<rparr>"

lemma peer_relay_step:
  "\<not> peer_ended (cl r) \<Longrightarrow> relay_step k resets r (client_sends b r)"
  "relay_step k resets r (client_ends r)"
  "\<not> peer_ended (tg r) \<Longrightarrow> relay_step k resets r (target_sends b r)"
  unfolding client_sends_def client_ends_def target_sends_def
  by (rule step_client step_target; simp add: peer_step_iff; blast?)+

lemma up_relay_step: "up_copy k (Suc n) r = Some r' \<Longrightarrow> relay_step k resets r r'"
  by (rule step_inner, rule step_up [of "Suc n"]) simp_all

definition up_twice :: "relay_kind \<Rightarrow> relay \<Rightarrow> relay" where
  "up_twice k r = the (up_copy k 2 (the (up_copy k 2 r)))"

definition half_closed :: "relay_kind \<Rightarrow> relay" where
  "half_closed k = up_twice k (client_ends (client_sends [1, 2] (fresh_relay (fresh_endpoint False) (fresh_endpoint False))))"

lemma up_twice_run:
  assumes "reachable start (relay_step k resets) r" "up_copy k 2 r \<noteq> None" "up_copy k 2 (the (up_copy k 2 r)) \<noteq> None"
  shows "reachable start (relay_step k resets) (up_twice k r)"
proof -
  have "relay_step k resets r (the (up_copy k 2 r))"
    "relay_step k resets (the (up_copy k 2 r)) (the (up_copy k 2 (the (up_copy k 2 r))))"
    using assms(2,3) up_relay_step [of k 1] by (auto simp: numeral_2_eq_2)
  then show ?thesis unfolding up_twice_def by (meson assms(1) reach_step)
qed

lemma half_closed_simp:
  "half_closed k = \<lparr> cl = \<lparr> arrived = [], peer_sent = [1, 2], peer_ended = True, ep_got = [], told_end = False,
     closed_here = False, broken = False, reads_on = False \<rparr>,
   tg = after_up k \<lparr> arrived = [], peer_sent = [], peer_ended = False, ep_got = [1, 2], told_end = False,
     closed_here = False, broken = False, reads_on = False \<rparr>,
   up_done = True, down_done = False, bytes_up = 2, bytes_down = 0, returned = False \<rparr>"
  by (simp add: half_closed_def up_twice_def up_copy_def copy_once_def can_read_def can_write_def client_ends_def
      client_sends_def fresh_relay_def fresh_endpoint_def)

lemma half_closed_reachable:
  "reachable (relay_start False False) (relay_step k resets) (half_closed k)"
proof -
  let ?r = "fresh_relay (fresh_endpoint False) (fresh_endpoint False)"
  have "reachable (relay_start False False) (relay_step k resets) ?r"
    by (rule reach_start) (simp add: relay_start_def)
  moreover have "\<not> peer_ended (cl ?r)" by (simp add: fresh_relay_def fresh_endpoint_def)
  ultimately have "reachable (relay_start False False) (relay_step k resets) (client_ends (client_sends [1, 2] ?r))"
    by (meson reach_step peer_relay_step)
  then show ?thesis
    unfolding half_closed_def
    by (rule up_twice_run) (simp_all add: up_copy_def copy_once_def can_read_def can_write_def client_ends_def
      client_sends_def fresh_relay_def fresh_endpoint_def)
qed

lemma http_half_closed: "\<nexists>r'. inner_step (http_relay True) (half_closed (http_relay True)) r'"
  by (auto elim!: inner_stepE simp: half_closed_simp up_copy_def down_copy_def relay_return_def copy_once_def
      http_relay_def ep_CloseWrite_def can_read_def)

theorem http_relay_complete_witness:
  "told_end (tg (half_closed (http_relay True))) \<and> ep_got (tg (half_closed (http_relay True))) = [1, 2]
    \<and> bytes_up (half_closed (http_relay True)) = 2 \<and> down_done (half_closed (http_relay True)) = False"
  using http_relay_complete [OF half_closed_reachable [of "http_relay True" False]] http_half_closed
  by (simp add: half_closed_simp)

lemma socks_start_inv: "relay_start c False r \<Longrightarrow> socks_inv r"
  by (simp add: relay_start_def fresh_relay_def fresh_endpoint_def socks_inv_def)

interpretation socks_run: invariant_system "relay_start c False" "relay_step socks_relay resets" "\<lambda>r. relay_data r \<and> socks_inv r"
  for c resets
  by unfold_locales
    (use relay_data_start socks_start_inv socks_ends.relay_data_step socks_inv_step in blast)+

text \<open>C25. The SOCKS5 proxy's relay to a directly dialled target, in every interleaving and with resets or
  without: once the copying from the client has ended, for which the end of the client's side is enough, the
  target's connection is closed, and whatever of the target's bytes was not copied by then, with everything it sends
  after, never reaches the client; what did reach it is a prefix, counted exactly.\<close>

theorem socks_half_close:
  assumes "reachable (relay_start c False) (relay_step socks_relay resets) r" "up_done r"
    "(relay_step socks_relay resets)\<^sup>*\<^sup>* r r'"
  shows "ep_got (cl r') = ep_got (cl r) \<and> closed_here (tg r') \<and> prefix (ep_got (cl r')) (peer_sent (tg r'))
    \<and> bytes_down r' = length (ep_got (cl r'))"
proof -
  have "ep_got (cl r') = ep_got (cl r) \<and> relay_data r' \<and> socks_inv r' \<and> up_done r'"
    using assms(3)
  proof (induction rule: rtranclp_induct)
    case base
    show ?case using socks_run.reachable_inv [OF assms(1)] assms(2) by blast
  next
    case (step q q')
    then show ?case using socks_after_end [of resets q q'] socks_ends.relay_data_step [of resets q q'] by metis
  qed
  then show ?thesis by (auto simp: socks_inv_def relay_data_def prefix_def)
qed

text \<open>The run above, and then an answer.\<close>

theorem socks_half_close_witness:
  "let r = target_sends [9] (half_closed socks_relay) in ep_got (cl r) = [] \<and> peer_sent (tg r) = [9] \<and> closed_here (tg r)
     \<and> inner_step socks_relay r (r\<lparr>cl := ep_Close (cl r), down_done := True\<rparr>)"
proof -
  let ?r = "half_closed socks_relay"
  have s: "relay_step socks_relay False ?r (target_sends [9] ?r)"
    by (rule peer_relay_step(3)) (simp add: half_closed_simp socks_relay_def ep_Close_def)
  have i: "inner_step socks_relay (target_sends [9] ?r) ((target_sends [9] ?r)\<lparr>cl := ep_Close (cl (target_sends [9] ?r)), down_done := True\<rparr>)"
    by (rule step_down [of 1]) (simp_all add: half_closed_simp down_copy_def copy_once_def can_read_def target_sends_def socks_relay_def ep_Close_def)
  have "up_done ?r" by (simp add: half_closed_simp)
  from socks_half_close [OF half_closed_reachable this r_into_rtranclp [of "relay_step socks_relay False", OF s]] i
  show ?thesis by (simp add: Let_def half_closed_simp target_sends_def socks_relay_def ep_Close_def)
qed

end
