(* ===== verification/Proxied.thy ===== *)
theory Proxied
  imports Relay
begin

text \<open>
  A proxied connection from end to end: the browser's connection, the relay of the proxy that accepted it
  (\<^verbatim>\<open>pkg/proxy\<close>), the yamux stream to the server, and the server's relay
  (\<^verbatim>\<open>handleProxyStream\<close> in \<^verbatim>\<open>cmd/server/main.go\<close>) to the web server. The stream is not the
  repository's: it is taken to carry bytes in order, in whatever pieces and at whatever time, an end of one side
  after all its bytes, and to be readable after our own close, as yamux documents. Nobody resets a connection.
\<close>

record world =
  px :: relay
  sv :: relay

definition world_start :: "world \<Rightarrow> bool" where
  "world_start w \<longleftrightarrow> w = \<lparr> px = fresh_relay (fresh_endpoint False) (fresh_endpoint True),
     sv = fresh_relay (fresh_endpoint True) (fresh_endpoint False) \<rparr>"

definition target_ends :: "relay \<Rightarrow> relay" where
  "target_ends r = r\<lparr>tg := (tg r)\<lparr>peer_ended := True\<rparr>\<rparr>"

text \<open>What the stream does.\<close>

inductive carry :: "world \<Rightarrow> world \<Rightarrow> bool" where
  carry_up: "ep_got (tg (px w)) = peer_sent (cl (sv w)) @ b @ c \<Longrightarrow> b \<noteq> [] \<Longrightarrow> carry w (w\<lparr>sv := client_sends b (sv w)\<rparr>)"
| carry_up_end: "told_end (tg (px w)) \<Longrightarrow> ep_got (tg (px w)) = peer_sent (cl (sv w)) \<Longrightarrow> carry w (w\<lparr>sv := client_ends (sv w)\<rparr>)"
| carry_down: "ep_got (cl (sv w)) = peer_sent (tg (px w)) @ b @ c \<Longrightarrow> b \<noteq> [] \<Longrightarrow> carry w (w\<lparr>px := target_sends b (px w)\<rparr>)"
| carry_down_end: "told_end (cl (sv w)) \<Longrightarrow> ep_got (cl (sv w)) = peer_sent (tg (px w)) \<Longrightarrow> carry w (w\<lparr>px := target_ends (px w)\<rparr>)"

text \<open>What the program and the stream can do on their own, and with the browser and the web server.\<close>

inductive moves :: "relay_kind \<Rightarrow> world \<Rightarrow> world \<Rightarrow> bool" for k where
  move_proxy: "inner_step k (px w) p \<Longrightarrow> moves k w (w\<lparr>px := p\<rparr>)"
| move_server: "inner_step server_relay (sv w) s \<Longrightarrow> moves k w (w\<lparr>sv := s\<rparr>)"
| move_carry: "carry w w' \<Longrightarrow> moves k w w'"

inductive world_step :: "relay_kind \<Rightarrow> world \<Rightarrow> world \<Rightarrow> bool" for k where
  world_moves: "moves k w w' \<Longrightarrow> world_step k w w'"
| world_browser: "peer_step False (cl (px w)) e \<Longrightarrow> world_step k w (w\<lparr>px := (px w)\<lparr>cl := e\<rparr>\<rparr>)"
| world_web: "peer_step False (tg (sv w)) e \<Longrightarrow> world_step k w (w\<lparr>sv := (sv w)\<lparr>tg := e\<rparr>\<rparr>)"

inductive_cases carryE: "carry w w'"

inductive_cases movesE: "moves k w w'"

inductive_cases world_stepE: "world_step k w w'"

section \<open>What stays true\<close>

text \<open>The bytes: each relay keeps its own, the stream hands on a prefix.\<close>

definition world_data :: "world \<Rightarrow> bool" where
  "world_data w \<longleftrightarrow> relay_data (px w) \<and> relay_data (sv w)
     \<and> prefix (peer_sent (cl (sv w))) (ep_got (tg (px w))) \<and> prefix (peer_sent (tg (px w))) (ep_got (cl (sv w)))"

text \<open>Until the browser ends its side, nothing ends but the copying from a web server that has ended.\<close>

definition relay_open :: "relay \<Rightarrow> bool" where
  "relay_open r \<longleftrightarrow> \<not> peer_ended (cl r) \<and> \<not> peer_ended (tg r) \<and> \<not> up_done r \<and> \<not> down_done r
     \<and> \<not> broken (cl r) \<and> \<not> broken (tg r) \<and> \<not> closed_here (cl r) \<and> \<not> closed_here (tg r)
     \<and> \<not> told_end (cl r) \<and> \<not> told_end (tg r)"

definition world_open :: "world \<Rightarrow> bool" where
  "world_open w \<longleftrightarrow> relay_open (px w) \<and> server_inv (sv w) \<and> \<not> peer_ended (cl (sv w))
     \<and> (down_done (sv w) \<longrightarrow> arrived (tg (sv w)) = [])"

lemma world_data_end: "world_data w \<Longrightarrow> prefix (ep_got (tg (sv w))) (peer_sent (cl (px w)))
    \<and> prefix (ep_got (cl (px w))) (peer_sent (tg (sv w)))"
  by (auto simp: world_data_def relay_data_def prefix_def)

lemma copy_open: "relay_open r \<Longrightarrow> copy_once n (cl r) (tg r) \<noteq> Ended \<and> copy_once n (tg r) (cl r) \<noteq> Ended"
  by (simp add: copy_once_def relay_open_def can_read_def can_write_def)

lemma inner_open:
  assumes "inner_step k r r'" "relay_open r"
  shows "relay_open r'"
  using assms copy_open [OF assms(2)]
  by (auto elim!: inner_stepE simp: up_copy_def down_copy_def relay_return_def relay_open_def split: if_splits copied.splits)

lemma server_open:
  assumes "inner_step server_relay s s'" "server_inv s" "\<not> peer_ended (cl s)" "down_done s \<longrightarrow> arrived (tg s) = []"
  shows "server_inv s'" "\<not> peer_ended (cl s')" "down_done s' \<longrightarrow> arrived (tg s') = []"
proof -
  show "server_inv s'" using server_inv_step [OF step_inner [OF assms(1)] assms(2)] .
  have "\<not> returned s \<and> \<not> told_end (cl s) \<and> \<not> closed_here (tg s) \<and> \<not> broken (tg s) \<and> \<not> broken (cl s) \<and> \<not> up_done s"
    using assms(2,3) by (auto simp: server_inv_def)
  then show "\<not> peer_ended (cl s')" "down_done s' \<longrightarrow> arrived (tg s') = []"
    using assms(1,3,4)
    by (auto elim!: inner_stepE simp: relay_simps can_read_def can_write_def split: if_splits copied.splits)
qed


lemma carry_data: "carry w w' \<Longrightarrow> world_data w \<Longrightarrow> world_data w'"
  by (erule carryE)
    (auto simp: world_data_def relay_data_def client_sends_def client_ends_def target_sends_def target_ends_def)

lemma carry_open: "carry w w' \<Longrightarrow> world_open w \<Longrightarrow> world_open w'"
  by (erule carryE)
    (auto simp: world_open_def relay_open_def server_inv_def client_sends_def client_ends_def target_sends_def
      target_ends_def)

lemma moves_open:
  assumes "moves k w w'" "world_open w"
  shows "world_open w'"
  using assms(1)
proof (cases rule: moves.cases)
  case (move_proxy p)
  then show ?thesis using assms(2) inner_open by (auto simp: world_open_def)
next
  case (move_server s)
  then show ?thesis using assms(2) server_open [OF move_server(2)] by (simp add: world_open_def)
next
  case move_carry
  then show ?thesis using assms(2) carry_open by blast
qed

context relay_ends
begin

lemma inner_got:
  assumes "inner_step k r r'"
  shows "prefix (ep_got (tg r)) (ep_got (tg r'))" "prefix (ep_got (cl r)) (ep_got (cl r'))"
    "peer_sent (cl r') = peer_sent (cl r)" "peer_sent (tg r') = peer_sent (tg r)" "peer_ended (cl r') = peer_ended (cl r)"
proof -
  have "prefix (ep_got (tg r)) (ep_got (tg r')) \<and> prefix (ep_got (cl r)) (ep_got (cl r')) \<and> peer_sent (cl r') = peer_sent (cl r)
    \<and> peer_sent (tg r') = peer_sent (tg r) \<and> peer_ended (cl r') = peer_ended (cl r)"
    using assms by (auto elim!: inner_stepE simp: up_copy_def down_copy_def relay_return_def ends
      split: if_splits copied.splits)
  then show "prefix (ep_got (tg r)) (ep_got (tg r'))" "prefix (ep_got (cl r)) (ep_got (cl r'))"
    "peer_sent (cl r') = peer_sent (cl r)" "peer_sent (tg r') = peer_sent (tg r)" "peer_ended (cl r') = peer_ended (cl r)"
    by auto
qed

end

definition world_inv :: "world \<Rightarrow> bool" where
  "world_inv w \<longleftrightarrow> world_data w \<and> (peer_ended (cl (px w)) \<or> world_open w)"

lemma world_inv_start: "world_start w \<Longrightarrow> world_inv w"
  by (simp add: world_start_def world_inv_def world_data_def world_open_def relay_open_def server_inv_def
      relay_data_def fresh_relay_def fresh_endpoint_def)

lemma web_open: "world_open w \<Longrightarrow> peer_step False (tg (sv w)) e \<Longrightarrow> world_open (w\<lparr>sv := (sv w)\<lparr>tg := e\<rparr>\<rparr>)"
  by (auto simp: world_open_def server_inv_def peer_step_iff)

lemma browser_open: "world_open w \<Longrightarrow> peer_step False (cl (px w)) e \<Longrightarrow> peer_ended e \<or> world_open (w\<lparr>px := (px w)\<lparr>cl := e\<rparr>\<rparr>)"
  by (auto simp: world_open_def relay_open_def peer_step_iff)

lemma peer_data:
  "world_data w \<Longrightarrow> peer_step False (cl (px w)) e \<Longrightarrow> world_data (w\<lparr>px := (px w)\<lparr>cl := e\<rparr>\<rparr>)"
  "world_data w \<Longrightarrow> peer_step False (tg (sv w)) e \<Longrightarrow> world_data (w\<lparr>sv := (sv w)\<lparr>tg := e\<rparr>\<rparr>)"
  by (auto simp: world_data_def relay_data_def peer_step_iff)

lemma carry_browser: "carry w w' \<Longrightarrow> cl (px w') = cl (px w)"
  by (erule carryE) (simp_all add: target_sends_def target_ends_def)

context relay_ends
begin

lemma moves_data:
  assumes "moves k w w'" "world_data w"
  shows "world_data w' \<and> peer_ended (cl (px w')) = peer_ended (cl (px w))"
  using assms(1)
proof (cases rule: moves.cases)
  case (move_proxy p)
  then show ?thesis
    using assms(2) inner_data inner_got [OF move_proxy(2)] by (auto simp: world_data_def intro: prefix_order.trans)
next
  case (move_server s)
  then show ?thesis
    using assms(2) server_ends.inner_data server_ends.inner_got [OF move_server(2)]
    by (auto simp: world_data_def intro: prefix_order.trans)
next
  case move_carry
  then show ?thesis using assms(2) carry_data carry_browser by metis
qed

lemma world_inv_step:
  assumes "world_inv w" "world_step k w w'"
  shows "world_inv w'"
  using assms(2)
proof (cases rule: world_step.cases)
  case world_moves
  then show ?thesis using assms(1) moves_data moves_open by (metis world_inv_def)
next
  case (world_browser e)
  have "peer_ended e" if "peer_ended (cl (px w))" using that world_browser(2) by (auto simp: peer_step_iff)
  then show ?thesis
    using assms(1) world_browser peer_data(1) [of w e] browser_open [of w e] unfolding world_inv_def by auto
next
  case (world_web e)
  then show ?thesis using assms(1) peer_data(2) web_open by (auto simp: world_inv_def)
qed

end

section \<open>What the browser gets\<close>

lemma no_inner:
  assumes "\<nexists>r'. inner_step k r r'" "relay_open r"
  shows "arrived (cl r) = []" "arrived (tg r) = []"
proof -
  have "up_copy k 1 r = None" "down_copy k 1 r = None"
    using assms(1) step_up [of 1] step_down [of 1] by (metis not_Some_eq zero_less_one)+
  then show "arrived (cl r) = []" "arrived (tg r) = []"
    using assms(2) by (auto simp: up_copy_def down_copy_def copy_once_def relay_open_def can_read_def can_write_def
      split: if_splits copied.splits)
qed

lemma no_server:
  assumes "\<nexists>s'. inner_step server_relay s s'" "server_inv s" "\<not> peer_ended (cl s)" "down_done s \<longrightarrow> arrived (tg s) = []"
  shows "arrived (cl s) = []" "arrived (tg s) = []"
proof -
  have "up_copy server_relay 1 s = None" "down_copy server_relay 1 s = None"
    using assms(1) step_up [of 1] step_down [of 1] by (metis not_Some_eq zero_less_one)+
  then show "arrived (cl s) = []" "arrived (tg s) = []"
    using assms(2-) by (auto simp: up_copy_def down_copy_def copy_once_def server_inv_def can_read_def can_write_def
      split: if_splits copied.splits)
qed

lemma no_carry:
  assumes "\<nexists>w'. carry w w'" "world_data w"
  shows "ep_got (tg (px w)) = peer_sent (cl (sv w))" "ep_got (cl (sv w)) = peer_sent (tg (px w))"
proof -
  obtain b c where b: "ep_got (tg (px w)) = peer_sent (cl (sv w)) @ b" and c: "ep_got (cl (sv w)) = peer_sent (tg (px w)) @ c"
    using assms(2) by (auto simp: world_data_def prefix_def)
  have "b = []" using carry_up [of w b "[]"] assms(1) b by auto
  moreover have "c = []" using carry_down [of w c "[]"] assms(1) c by auto
  ultimately show "ep_got (tg (px w)) = peer_sent (cl (sv w))" "ep_got (cl (sv w)) = peer_sent (tg (px w))"
    using b c by simp_all
qed

lemma settled_delivered:
  assumes "world_data w" "world_open w" "\<nexists>w'. moves k w w'"
  shows "ep_got (tg (sv w)) = peer_sent (cl (px w))" "ep_got (cl (px w)) = peer_sent (tg (sv w))"
proof -
  have "\<nexists>p. inner_step k (px w) p" "\<nexists>s. inner_step server_relay (sv w) s" "\<nexists>w'. carry w w'"
    using assms(3) moves.intros by blast+
  then have "arrived (cl (px w)) = [] \<and> arrived (tg (px w)) = [] \<and> arrived (cl (sv w)) = [] \<and> arrived (tg (sv w)) = []"
    "ep_got (tg (px w)) = peer_sent (cl (sv w))" "ep_got (cl (sv w)) = peer_sent (tg (px w))"
    using assms(2) no_inner [of k "px w"] no_server [of "sv w"] no_carry [of w, OF _ assms(1)]
    unfolding world_open_def by blast+
  then show "ep_got (tg (sv w)) = peer_sent (cl (px w))" "ep_got (cl (px w)) = peer_sent (tg (sv w))"
    using assms(1) by (simp_all add: world_data_def relay_data_def)
qed

interpretation socks_world: invariant_system world_start "world_step socks_relay" world_inv
  using world_inv_start socks_ends.world_inv_step by unfold_locales

interpretation http_world: invariant_system world_start "world_step (http_relay b)" world_inv for b
  using world_inv_start http_ends.world_inv_step by unfold_locales

text \<open>C23. A connection through the SOCKS5 or the HTTP proxy, the stream and the server, in every interleaving and while
  nobody resets: what arrives at either end is a prefix of what the other sent. As long as the browser has not ended
  its side neither end is told of an end by the program, also when the web server has ended its side; and when
  program and stream can do nothing more, everything sent has arrived. So an answer that ends with its connection
  reaches the browser completely, and its end does not.\<close>

theorem end_hidden:
  assumes "k = socks_relay \<or> k = http_relay False" "reachable world_start (world_step k) w"
  shows "prefix (ep_got (tg (sv w))) (peer_sent (cl (px w))) \<and> prefix (ep_got (cl (px w))) (peer_sent (tg (sv w)))
    \<and> (\<not> peer_ended (cl (px w)) \<longrightarrow> \<not> told_end (cl (px w)) \<and> \<not> told_end (tg (sv w))
        \<and> ((\<nexists>w'. moves k w w') \<longrightarrow> ep_got (tg (sv w)) = peer_sent (cl (px w)) \<and> ep_got (cl (px w)) = peer_sent (tg (sv w))))"
proof -
  have i: "world_inv w" using assms socks_world.reachable_inv http_world.reachable_inv by blast
  have "\<not> told_end (cl (px w)) \<and> \<not> told_end (tg (sv w))" if "world_open w"
    using that server_inv_told [of "sv w"] by (auto simp: world_open_def relay_open_def)
  then show ?thesis using i world_data_end settled_delivered by (auto simp: world_inv_def)
qed

text \<open>A run: the web server answers and ends its side; the answer goes all the way.\<close>

definition answer_world :: "bytes \<Rightarrow> bytes \<Rightarrow> bool \<Rightarrow> bytes \<Rightarrow> bool \<Rightarrow> bytes \<Rightarrow> bytes \<Rightarrow> world" where
  "answer_world a s e g d pa pg =
     \<lparr> px = (fresh_relay ((fresh_endpoint False)\<lparr>ep_got := pg\<rparr>) ((fresh_endpoint True)\<lparr>arrived := pa, peer_sent := pg @ pa\<rparr>))
         \<lparr>bytes_down := length pg\<rparr>,
       sv = (fresh_relay ((fresh_endpoint True)\<lparr>ep_got := g\<rparr>) ((fresh_endpoint False)\<lparr>arrived := a, peer_sent := s, peer_ended := e\<rparr>))
         \<lparr>bytes_down := length g, down_done := d\<rparr> \<rparr>"

lemmas answer_simps = answer_world_def fresh_relay_def fresh_endpoint_def

lemma step_eqs:
  "peer_step False (tg (sv w)) e \<Longrightarrow> w' = w\<lparr>sv := (sv w)\<lparr>tg := e\<rparr>\<rparr> \<Longrightarrow> world_step k w w'"
  "down_copy server_relay 1 (sv w) = Some s \<Longrightarrow> w' = w\<lparr>sv := s\<rparr> \<Longrightarrow> world_step k w w'"
  "down_copy k 1 (px w) = Some p \<Longrightarrow> w' = w\<lparr>px := p\<rparr> \<Longrightarrow> world_step k w w'"
  "ep_got (cl (sv w)) = peer_sent (tg (px w)) @ b \<Longrightarrow> b \<noteq> [] \<Longrightarrow> w' = w\<lparr>px := target_sends b (px w)\<rparr> \<Longrightarrow> world_step k w w'"
  using world_web [of w e k] world_moves [OF move_server, OF step_down [of 1]]
    world_moves [OF move_proxy, OF step_down [of 1]] world_moves [OF move_carry, OF carry_down [of w b "[]"]]
  by auto

lemma answer_run: "reachable world_start (world_step k) (answer_world [] [7] True [7] True [] [7])"
proof -
  have "world_start (answer_world [] [] False [] False [] [])"
    by (simp add: answer_simps world_start_def)
  moreover have "world_step k (answer_world [] [] False [] False [] []) (answer_world [7] [7] False [] False [] [])"
    by (rule step_eqs(1) [of _ "(fresh_endpoint False)\<lparr>arrived := [7], peer_sent := [7]\<rparr>"])
      (simp_all add: answer_simps peer_step_iff)
  moreover have "world_step k (answer_world [7] [7] False [] False [] []) (answer_world [7] [7] True [] False [] [])"
    by (rule step_eqs(1) [of _ "(fresh_endpoint False)\<lparr>arrived := [7], peer_sent := [7], peer_ended := True\<rparr>"])
      (simp_all add: answer_simps peer_step_iff)
  moreover have "world_step k (answer_world [7] [7] True [] False [] []) (answer_world [] [7] True [7] False [] [])"
    by (rule step_eqs(2))
      (simp_all add: answer_simps down_copy_def copy_once_def can_read_def can_write_def)
  moreover have "world_step k (answer_world [] [7] True [7] False [] []) (answer_world [] [7] True [7] True [] [])"
    by (rule step_eqs(2))
      (simp_all add: answer_simps down_copy_def copy_once_def can_read_def can_write_def server_relay_def)
  moreover have "world_step k (answer_world [] [7] True [7] True [] []) (answer_world [] [7] True [7] True [7] [])"
    by (rule step_eqs(4) [of _ "[7]"])
      (simp_all add: answer_simps target_sends_def)
  moreover have "world_step k (answer_world [] [7] True [7] True [7] []) (answer_world [] [7] True [7] True [] [7])"
    by (rule step_eqs(3))
      (simp_all add: answer_simps down_copy_def copy_once_def can_read_def can_write_def)
  ultimately show ?thesis by (meson reach_start reach_step)
qed

lemma answer_settled: "\<nexists>w'. moves k (answer_world [] [7] True [7] True [] [7]) w'"
  by (auto elim!: movesE inner_stepE carryE simp: answer_simps up_copy_def down_copy_def relay_return_def copy_once_def
      can_read_def)

theorem end_hidden_witness:
  "let w = answer_world [] [7] True [7] True [] [7] in peer_ended (tg (sv w)) \<and> \<not> peer_ended (cl (px w))
     \<and> ep_got (cl (px w)) = [7] \<and> \<not> told_end (cl (px w)) \<and> (\<nexists>w'. moves socks_relay w w')"
  using end_hidden [OF disjI1 [OF refl] answer_run] answer_settled [of socks_relay]
  by (simp add: Let_def answer_simps)

end
