(* ===== verification/Compression.thy ===== *)
theory Compression
  imports Externals
begin

text \<open>
  The payload compressor (\<^verbatim>\<open>pkg/compression/compression.go\<close>): its construction, the flag-byte
  format of \<^verbatim>\<open>Compress\<close>/\<^verbatim>\<open>Decompress\<close> and the 5-byte header format of
  \<^verbatim>\<open>CompressWithHeader\<close>/\<^verbatim>\<open>DecompressWithHeader\<close> that the packet codec uses.
  A slice is modelled with its capacity equal to its length, which is how \<^verbatim>\<open>Decode\<close> allocates
  the payload it hands to \<^verbatim>\<open>DecompressWithHeader\<close>.
\<close>

record CompressorConfig =
  cfg_level :: int
  cfg_min_size :: int

record Compressor =
  enc_level :: int \<comment> \<open>level of the zstd encoder\<close>
  released :: bool \<comment> \<open>encoder and decoder closed\<close>

datatype compression_error = ErrZstdWriter | ErrZstdReader | ErrZstdDecode

definition DefaultConfig :: CompressorConfig where
  "DefaultConfig = \<lparr>cfg_level = 2, cfg_min_size = 64\<rparr>"

definition NewCompressor :: "externals \<Rightarrow> CompressorConfig \<Rightarrow> compression_error + Compressor" where
  "NewCompressor x cfg =
     (let level = (if cfg_level cfg < 1 \<or> 3 < cfg_level cfg then 2 else cfg_level cfg)
      in if \<not> zstd_new_writer x level then Inl ErrZstdWriter
         else if \<not> zstd_new_reader x then Inl ErrZstdReader
         else Inr \<lparr>enc_level = level, released = False\<rparr>)"

definition MinSize :: "Compressor \<Rightarrow> int" where
  "MinSize c = cfg_min_size DefaultConfig"

definition Compress :: "externals \<Rightarrow> Compressor \<Rightarrow> bytes \<Rightarrow> bytes" where
  "Compress x c data =
     (if int (length data) < MinSize c then data
      else let compressed = zstd_encode x (enc_level c) data
           in if length data \<le> length compressed then data else 1 # compressed)"

definition Decompress :: "externals \<Rightarrow> bytes \<Rightarrow> compression_error + bytes" where
  "Decompress x data =
     (case data of [] \<Rightarrow> Inr []
      | flag # rest \<Rightarrow>
          if flag = 1
          then (case zstd_decode x rest of None \<Rightarrow> Inl ErrZstdDecode | Some d \<Rightarrow> Inr d)
          else Inr data)"

definition Compressor_Close :: "Compressor \<Rightarrow> Compressor" where
  "Compressor_Close c = c\<lparr>released := True\<rparr>"

text \<open>The four length bytes both header formats write.\<close>

definition size_field :: "bytes \<Rightarrow> bytes" where
  "size_field data = put_be32 (of_nat (length data))"

definition CompressWithHeader :: "externals \<Rightarrow> Compressor \<Rightarrow> bytes \<Rightarrow> bytes" where
  "CompressWithHeader x c data =
     (if int (length data) < MinSize c then 0 # size_field data @ data
      else let compressed = zstd_encode x (enc_level c) data
           in if length data * 9 div 10 \<le> length compressed
              then 0 # size_field data @ data
              else 1 # size_field data @ compressed)"

definition DecompressWithHeader :: "externals \<Rightarrow> bytes \<Rightarrow> compression_error failure + bytes" where
  "DecompressWithHeader x data =
     (if length data < 5 then Inr data
      else let originalSize = unat (get_be32 (drop 1 data))
           in if data ! 0 = 0
              then (if length data < 5 + originalSize then Inl Panic
                    else Inr (take originalSize (drop 5 data)))
              else (case zstd_decode x (drop 5 data) of
                      None \<Rightarrow> Inl (Err ErrZstdDecode) | Some d \<Rightarrow> Inr d))"

section \<open>Lemmas\<close>

lemma length_size_field [simp]: "length (size_field d) = 4"
  by (simp add: size_field_def)

lemma size_field_read [simp]:
  "length d < 2 ^ 32 \<Longrightarrow> unat (get_be32 (size_field d @ r)) = length d"
  by (simp add: size_field_def unat_of_nat_small)

lemma drop_size_field [simp]: "drop 4 (size_field d @ r) = r"
  by (simp add: size_field_def drop_put_be32)

lemma NewCompressor_level:
  "NewCompressor x cfg = Inr c \<Longrightarrow> enc_level c \<in> {1, 2, 3} \<and> \<not> released c"
  by (auto simp: NewCompressor_def Let_def split: if_splits)

lemma CompressWithHeader_cases:
  obtains "CompressWithHeader x c d = 0 # size_field d @ d"
  | "CompressWithHeader x c d = 1 # size_field d @ zstd_encode x (enc_level c) d"
    and "length (zstd_encode x (enc_level c) d) < length d * 9 div 10"
proof (cases "int (length d) < MinSize c
    \<or> length d * 9 div 10 \<le> length (zstd_encode x (enc_level c) d)")
  case True
  then have "CompressWithHeader x c d = 0 # size_field d @ d"
    by (auto simp: CompressWithHeader_def Let_def)
  then show ?thesis by (rule that(1))
next
  case False
  then have "CompressWithHeader x c d = 1 # size_field d @ zstd_encode x (enc_level c) d"
    and "length (zstd_encode x (enc_level c) d) < length d * 9 div 10"
    by (auto simp: CompressWithHeader_def Let_def)
  then show ?thesis by (rule that(2))
qed

lemma DecompressWithHeader_stored:
  "length d < 2 ^ 32 \<Longrightarrow> DecompressWithHeader x (0 # size_field d @ d) = Inr d"
  by (simp add: DecompressWithHeader_def)

lemma DecompressWithHeader_zstd:
  "zstd_decode x e = Some d \<Longrightarrow> DecompressWithHeader x (1 # size_field d' @ e) = Inr d"
  by (simp add: DecompressWithHeader_def)

lemma header_roundtrip:
  assumes "zstd_correct x" and "length d < 2 ^ 32"
  shows "DecompressWithHeader x (CompressWithHeader x c d) = Inr d"
  using assms
  by (cases rule: CompressWithHeader_cases [of x c d])
     (simp_all add: DecompressWithHeader_stored DecompressWithHeader_zstd)

lemma length_CompressWithHeader: "length (CompressWithHeader x c d) \<le> length d + 5"
  by (cases rule: CompressWithHeader_cases [of x c d]) simp_all

section \<open>Properties\<close>

text \<open>Whatever payload (of a size the header can hold) is framed with
  \<^verbatim>\<open>CompressWithHeader\<close>, \<^verbatim>\<open>DecompressWithHeader\<close> gives it back, compressed or
  stored, and the frame is at most the five header bytes longer.\<close>

theorem compress_header_roundtrip:
  assumes "zstd_correct x" and "length d < 2 ^ 32"
  shows "DecompressWithHeader x (CompressWithHeader x c d) = Inr d
     \<and> length (CompressWithHeader x c d) \<le> length d + 5"
  using header_roundtrip [OF assms] length_CompressWithHeader by blast

theorem compress_header_roundtrip_witness:
  "DecompressWithHeader demo (CompressWithHeader demo \<lparr>enc_level = 2, released = False\<rparr>
      (replicate 100 7)) = Inr (replicate 100 7)"
  using compress_header_roundtrip [of demo "replicate 100 7" "\<lparr>enc_level = 2, released = False\<rparr>"]
  by simp

text \<open>The flag byte of \<^verbatim>\<open>Compress\<close> is only written for compressed data, so
  \<^verbatim>\<open>Decompress\<close> inverts it exactly where the result is compressed or the stored data does
  not itself begin with the flag: stored data that begins with byte 1 is taken for a zstd
  frame.\<close>

theorem compress_flag_roundtrip:
  assumes "zstd_correct x"
  shows "Decompress x (Compress x c d) =
     (if Compress x c d = d \<and> d \<noteq> [] \<and> hd d = 1
      then (case zstd_decode x (tl d) of None \<Rightarrow> Inl ErrZstdDecode | Some d' \<Rightarrow> Inr d')
      else Inr d)"
proof (cases "Compress x c d = d")
  case True
  then show ?thesis by (cases d) (auto simp: Decompress_def)
next
  case False
  then have "Compress x c d = 1 # zstd_encode x (enc_level c) d"
    by (auto simp: Compress_def Let_def split: if_splits)
  with False assms show ?thesis by (simp add: Decompress_def)
qed

theorem compress_flag_roundtrip_witness:
  "Decompress demo (Compress demo \<lparr>enc_level = 2, released = False\<rparr> [1]) = Inl ErrZstdDecode"
  by (subst compress_flag_roundtrip [OF demo_zstd_correct])
     (simp add: Compress_def MinSize_def DefaultConfig_def demo_def demo_zstd_decode_def)

end
