(* ===== verification/Packet.thy ===== *)
theory Packet
  imports Compression
begin

text \<open>
  The packet codec (\<^verbatim>\<open>pkg/mtp/packet.go\<close>): MTP packets inside QUIC-like datagrams. A packet
  is compressed (when configured), laid out behind a 12-byte header, sealed, and put behind a
  long header (SYN, SYN-ACK) or a short one (everything else); \<^verbatim>\<open>Decode\<close> is the reverse, with
  every check of the source as an error value. Buffers of the encode pool have 2048 bytes: a
  packet that does not fit is a panic, as slicing past the capacity is in Go.
\<close>

section \<open>Constants and data\<close>

definition PacketDATA :: u8 where [simp]: "PacketDATA = 1"
definition PacketACK :: u8 where [simp]: "PacketACK = 2"
definition PacketSYN :: u8 where [simp]: "PacketSYN = 3"
definition PacketSYNACK :: u8 where [simp]: "PacketSYNACK = 4"
definition PacketFIN :: u8 where [simp]: "PacketFIN = 5"
definition PacketFINACK :: u8 where [simp]: "PacketFINACK = 6"
definition PacketPING :: u8 where [simp]: "PacketPING = 7"
definition PacketPONG :: u8 where [simp]: "PacketPONG = 8"
definition PacketFEC :: u8 where [simp]: "PacketFEC = 9"

definition FlagNone :: u8 where "FlagNone = 0"
definition FlagMigrate :: u8 where "FlagMigrate = 1"
definition FlagSACK :: u8 where "FlagSACK = 2"
definition FlagFragment :: u8 where "FlagFragment = 4"
definition FlagCompressed :: u8 where "FlagCompressed = 8"

definition MaxPayloadSize :: nat where "MaxPayloadSize = 1200"
definition headerSize :: nat where "headerSize = 12"

record Packet =
  Type :: u8
  SeqNum :: u32
  AckNum :: u32
  Flags :: u8
  Payload :: bytes
  SACKBlocks :: "u32 list"

record CompressionConfig =
  cc_enable :: bool
  cc_level :: int
  cc_min_size :: int

record CodecConfig =
  Secret :: string
  EnableDCIDRot :: bool
  DCIDRotInterval :: int
  Compression_cfg :: "CompressionConfig option"

record PacketCodec =
  sharedKey :: bytes
  dcid :: bytes
  scid :: bytes
  dcidRevision :: u64
  stop_closed :: bool \<comment> \<open>stopCh has been closed\<close>
  rotating :: bool \<comment> \<open>the rotateDCID goroutine was started\<close>
  compressor :: "Compressor option"
  compressCfg :: "CompressionConfig option"

datatype codec_error =
    ErrCompression compression_error | ErrCipher | ErrNonce | ErrInitialTooLarge
  | ErrPacketTooShort | ErrLongHeaderType | ErrShortVersion | ErrShortDcidLen | ErrShortDcid
  | ErrDcidMismatch | ErrShortScidLen | ErrShortScid | ErrShortTokenLen | ErrShortToken
  | ErrVarint | ErrShortPn | ErrShortPayload | ErrNoPayload | ErrEncTooShort | ErrDecrypt
  | ErrPlainTooShort | ErrPayloadLength | ErrDecompression compression_error

section \<open>Construction and DCID rotation\<close>

definition deriveKey :: "externals \<Rightarrow> string \<Rightarrow> bytes" where
  "deriveKey x secret = sha256 x (bytes_of_string secret)"

definition NewPacketCodecWithConfig :: "externals \<Rightarrow> CodecConfig \<Rightarrow> PacketCodec" where
  "NewPacketCodecWithConfig x cfg =
     (let key = deriveKey x (Secret cfg)
      in \<lparr> sharedKey = key,
           dcid = take 8 (hmac_sha256 x key (bytes_of_string ''QUIC_DCID_DERIVATION'')),
           scid = take 8 (hmac_sha256 x key (bytes_of_string ''QUIC_SCID_DERIVATION'')),
           dcidRevision = 0, stop_closed = False,
           rotating = (EnableDCIDRot cfg \<and> 0 < DCIDRotInterval cfg),
           compressor = None, compressCfg = Compression_cfg cfg \<rparr>)"

definition NewPacketCodec :: "externals \<Rightarrow> string \<Rightarrow> PacketCodec" where
  "NewPacketCodec x secret =
     NewPacketCodecWithConfig x \<lparr> Secret = secret, EnableDCIDRot = True,
       DCIDRotInterval = 300, Compression_cfg = None \<rparr>"

definition Codec_Close :: "PacketCodec \<Rightarrow> PacketCodec" where
  "Codec_Close c = (if stop_closed c then c else c\<lparr>stop_closed := True\<rparr>)"

text \<open>One tick of the rotation goroutine.\<close>

definition rotateDCID :: "externals \<Rightarrow> PacketCodec \<Rightarrow> PacketCodec" where
  "rotateDCID x c =
     (let revision = dcidRevision c + 1;
          revBytes = [ucast revision, ucast (drop_bit 8 revision),
                      ucast (drop_bit 16 revision), ucast (drop_bit 24 revision)]
      in c\<lparr> dcidRevision := revision,
            dcid := take 8 (hmac_sha256 x (sharedKey c)
              (bytes_of_string ''QUIC_DCID_DERIVATION'' @ revBytes)),
            scid := take 8 (hmac_sha256 x (sharedKey c)
              (bytes_of_string ''QUIC_SCID_DERIVATION'' @ revBytes)) \<rparr>)"

definition GetDCID :: "PacketCodec \<Rightarrow> bytes" where
  "GetDCID c = dcid c"

definition constantTimeCompare :: "bytes \<Rightarrow> bytes \<Rightarrow> bool" where
  "constantTimeCompare a b =
     (if length a \<noteq> length b then False
      else foldl (\<lambda>result (p, q). result OR (p XOR q)) 0 (zip a b) = (0 :: u8))"

section \<open>Payload compression\<close>

definition compression_on :: "PacketCodec \<Rightarrow> bool" where
  "compression_on c \<longleftrightarrow> (case compressCfg c of None \<Rightarrow> False | Some cfg \<Rightarrow> cc_enable cfg)"

definition initCompressor :: "externals \<Rightarrow> PacketCodec \<Rightarrow> compression_error + Compressor option" where
  "initCompressor x c =
     (case compressCfg c of
        None \<Rightarrow> Inr None
      | Some cfg \<Rightarrow>
          let level = (if cc_level cfg < 1 \<or> 3 < cc_level cfg then 2 else cc_level cfg)
          in case NewCompressor x \<lparr>cfg_level = level, cfg_min_size = cc_min_size cfg\<rparr> of
               Inl e \<Rightarrow> Inl e | Inr k \<Rightarrow> Inr (Some k))"

text \<open>\<^verbatim>\<open>getCompressor\<close> hands out an existing compressor; its other paths all return nil.\<close>

definition getCompressor :: "PacketCodec \<Rightarrow> Compressor option" where
  "getCompressor c = compressor c"

definition compressPayload ::
  "externals \<Rightarrow> PacketCodec \<Rightarrow> bytes \<Rightarrow> (compression_error + bytes) \<times> PacketCodec" where
  "compressPayload x c data =
     (case compressCfg c of
        None \<Rightarrow> (Inr data, c)
      | Some cfg \<Rightarrow>
          if \<not> cc_enable cfg then (Inr data, c)
          else if int (length data) < cc_min_size cfg then (Inr data, c)
          else (case (case compressor c of Some k \<Rightarrow> Inr (Some k) | None \<Rightarrow> initCompressor x c) of
                  Inl e \<Rightarrow> (Inl e, c)
                | Inr None \<Rightarrow> (Inr data, c)
                | Inr (Some k) \<Rightarrow>
                    let compressed = CompressWithHeader x k data
                    in (Inr (if length data \<le> length compressed then data else compressed),
                        c\<lparr>compressor := Some k\<rparr>)))"

definition decompressPayload ::
  "externals \<Rightarrow> PacketCodec \<Rightarrow> bytes
     \<Rightarrow> (compression_error failure + bytes) \<times> PacketCodec" where
  "decompressPayload x c data =
     (if \<not> compression_on c then (Inr data, c)
      else (case (case compressor c of Some k \<Rightarrow> Inr (Some k) | None \<Rightarrow> initCompressor x c) of
              Inl e \<Rightarrow> (Inl (Err e), c)
            | Inr None \<Rightarrow> (Inr data, c)
            | Inr (Some k) \<Rightarrow> (DecompressWithHeader x data, c\<lparr>compressor := Some k\<rparr>)))"

section \<open>Variable-length integers\<close>

definition encodeVarint :: "u64 \<Rightarrow> bytes" where
  "encodeVarint v =
     (if v < 64 then [ucast v, 0]
      else if v < 16384 then put_be16 (ucast v OR 0x4000)
      else put_be16 (ucast (v AND 0x3FFF) OR 0x4000))"

definition decodeVarint :: "bytes \<Rightarrow> u64 \<times> nat" where
  "decodeVarint data =
     (case data of [] \<Rightarrow> (0, 0)
      | b # _ \<Rightarrow>
        (let prefix = drop_bit 6 b
         in if prefix = 0 then (ucast (b AND 0x3F), 1)
            else if prefix = 1 then
              (if length data < 2 then (0, 0) else (ucast (get_be16 data AND 0x3FFF), 2))
            else if prefix = 2 then
              (if length data < 4 then (0, 0) else (ucast (get_be32 data AND 0x3FFFFFFF), 4))
            else (if length data < 8 then (0, 0)
                  else (get_be64 data AND 0x3FFFFFFFFFFFFFFF, 8))))"

section \<open>Encode\<close>

definition sack_part :: "Packet \<Rightarrow> bytes" where
  "sack_part pkt =
     (if Flags pkt AND FlagSACK \<noteq> 0 \<and> SACKBlocks pkt \<noteq> []
      then put_be16 (of_nat (length (SACKBlocks pkt))) @ concat (map put_be32 (SACKBlocks pkt))
      else [])"

definition plaintext_of :: "Packet \<Rightarrow> bytes \<Rightarrow> bytes" where
  "plaintext_of pkt payloadBytes =
     Type pkt # put_be32 (SeqNum pkt) @ put_be32 (AckNum pkt)
       @ put_be16 (of_nat (length payloadBytes)) @ Flags pkt # payloadBytes @ sack_part pkt"

text \<open>\<^verbatim>\<open>copy(wire[off:off+8], id)\<close> into a zeroed buffer.\<close>

definition id8 :: "bytes \<Rightarrow> bytes" where
  "id8 b = take 8 (b @ replicate 8 0)"

definition isInitial :: "Packet \<Rightarrow> bool" where
  "isInitial pkt \<longleftrightarrow> Type pkt = PacketSYN \<or> Type pkt = PacketSYNACK"

definition wire_initial :: "PacketCodec \<Rightarrow> u32 \<Rightarrow> bytes \<Rightarrow> bytes" where
  "wire_initial c seq encPayload =
     0xC0 # put_be32 1 @ of_nat (length (dcid c)) # id8 (dcid c)
       @ of_nat (length (scid c)) # id8 (scid c) @ 0
       # encodeVarint (of_nat (1 + length encPayload)) @ ucast seq # encPayload"

definition wire_short :: "PacketCodec \<Rightarrow> u32 \<Rightarrow> bytes \<Rightarrow> bytes" where
  "wire_short c seq encPayload = 0x40 # id8 (dcid c) @ ucast seq # encPayload"

text \<open>Step 1 of \<^verbatim>\<open>Encode\<close>: the payload bytes to send, and the flag set when they shrank.\<close>

definition compress_stage ::
  "externals \<Rightarrow> PacketCodec \<Rightarrow> Packet \<Rightarrow> (compression_error + bytes) \<times> PacketCodec" where
  "compress_stage x c pkt =
     (if compression_on c \<and> Payload pkt \<noteq> [] then compressPayload x c (Payload pkt)
      else (Inr (Payload pkt), c))"

definition mark_compressed :: "PacketCodec \<Rightarrow> Packet \<Rightarrow> bytes \<Rightarrow> Packet" where
  "mark_compressed c pkt payloadBytes =
     (if compression_on c \<and> Payload pkt \<noteq> [] \<and> length payloadBytes < length (Payload pkt)
      then pkt\<lparr>Flags := Flags pkt OR FlagCompressed\<rparr> else pkt)"

text \<open>
  Steps 2 to 5: layout in the 2048-byte buffer, encryption, QUIC-like header. \<open>nonce\<close> is what
  \<^verbatim>\<open>rand.Read\<close> yields, \<open>None\<close> where it fails.
\<close>

definition seal_wire ::
  "externals \<Rightarrow> bytes option \<Rightarrow> PacketCodec \<Rightarrow> Packet \<Rightarrow> bytes \<Rightarrow> codec_error failure + bytes" where
  "seal_wire x nonce c pkt payloadBytes =
     (let plaintext = plaintext_of pkt payloadBytes
      in if 2048 < length plaintext then Inl Panic
         else if length (sharedKey c) \<noteq> 32 then Inl (Err ErrCipher)
         else (case nonce of
            None \<Rightarrow> Inl (Err ErrNonce)
          | Some n \<Rightarrow>
              let encPayload = n @ aead_seal x (sharedKey c) n plaintext
              in if isInitial pkt
                 then (if 16383 < 1 + length encPayload then Inl (Err ErrInitialTooLarge)
                       else Inr (wire_initial c (SeqNum pkt) encPayload))
                 else Inr (wire_short c (SeqNum pkt) encPayload)))"

text \<open>
  \<^verbatim>\<open>Encode\<close> sets the compressed flag in the packet it is given and may create the
  compressor, so it returns the packet and the codec beside its result.
\<close>

definition Encode ::
  "externals \<Rightarrow> bytes option \<Rightarrow> PacketCodec \<Rightarrow> Packet
     \<Rightarrow> (codec_error failure + bytes) \<times> Packet \<times> PacketCodec" where
  "Encode x nonce c pkt =
     (case compress_stage x c pkt of
        (Inl e, c') \<Rightarrow> (Inl (Err (ErrCompression e)), pkt, c')
      | (Inr payloadBytes, c') \<Rightarrow>
          let pkt' = mark_compressed c pkt payloadBytes
          in (seal_wire x nonce c' pkt' payloadBytes, pkt', c'))"

section \<open>Decode\<close>

definition slice :: "'a list \<Rightarrow> nat \<Rightarrow> nat \<Rightarrow> 'a list" where
  "slice xs i j = take (j - i) (drop i xs)"

text \<open>The encrypted payload behind a long header, with the offsets of the source.\<close>

definition parse_long :: "bytes \<Rightarrow> bytes \<Rightarrow> codec_error + bytes" where
  "parse_long my_dcid wire =
     (if length wire < 1 + 4 then Inl ErrShortVersion
      else if length wire < 5 + 1 then Inl ErrShortDcidLen
      else let dcidLen = unat (wire ! 5); off = 6
      in if length wire < off + dcidLen then Inl ErrShortDcid
      else if dcidLen = 8 \<and> \<not> constantTimeCompare (slice wire off (off + 8)) my_dcid
        then Inl ErrDcidMismatch
      else let off = off + dcidLen
      in if length wire < off + 1 then Inl ErrShortScidLen
      else let scidLen = unat (wire ! off); off = off + 1
      in if length wire < off + scidLen then Inl ErrShortScid
      else let off = off + scidLen
      in if length wire < off + 1 then Inl ErrShortTokenLen
      else let tokenLen = unat (wire ! off); off = off + 1
      in if length wire < off + tokenLen then Inl ErrShortToken
      else let off = off + tokenLen; (payloadLen, varintSize) = decodeVarint (drop off wire)
      in if varintSize = 0 then Inl ErrVarint
      else let off = off + varintSize
      in if length wire < off + 1 then Inl ErrShortPn
      else let off = off + 1; encPayloadLen = int (unat payloadLen) - 1
      in if encPayloadLen < 0 \<or> int (length wire) < int off + encPayloadLen
         then Inl ErrShortPayload
      else Inr (slice wire off (off + nat encPayloadLen)))"

definition parse_short :: "bytes \<Rightarrow> bytes \<Rightarrow> codec_error + bytes" where
  "parse_short my_dcid wire =
     (if length wire < 1 + 8 then Inl ErrShortDcid
      else if \<not> constantTimeCompare (slice wire 1 9) my_dcid then Inl ErrDcidMismatch
      else if length wire < 9 + 1 then Inl ErrShortPn
      else if length wire \<le> 10 then Inl ErrNoPayload
      else Inr (drop 10 wire))"

definition parse_sack :: "bytes \<Rightarrow> u32 list" where
  "parse_sack sackData =
     (if 2 \<le> length sackData
      then let sackCount = unat (get_be16 sackData)
           in if 2 + sackCount * 4 \<le> length sackData
              then get_be32s sackCount (drop 2 sackData) else []
      else [])"

definition parse_plaintext ::
  "externals \<Rightarrow> PacketCodec \<Rightarrow> bytes \<Rightarrow> (codec_error failure + Packet) \<times> PacketCodec" where
  "parse_plaintext x c plaintext =
     (if length plaintext < headerSize then (Inl (Err ErrPlainTooShort), c)
      else let flags = plaintext ! 11;
               payloadLen = unat (get_be16 (drop 9 plaintext));
               remaining = drop headerSize plaintext
      in if length remaining < payloadLen then (Inl (Err ErrPayloadLength), c)
      else let rawPayload = take payloadLen remaining;
               (res, c') = (if flags AND FlagCompressed \<noteq> 0
                            then decompressPayload x c rawPayload else (Inr rawPayload, c))
      in case res of
           Inl (Err e) \<Rightarrow> (Inl (Err (ErrDecompression e)), c')
         | Inl Panic \<Rightarrow> (Inl Panic, c')
         | Inr pl \<Rightarrow>
             (Inr \<lparr> Type = plaintext ! 0, SeqNum = get_be32 (drop 1 plaintext),
                AckNum = get_be32 (drop 5 plaintext),
                Flags = (if flags AND FlagCompressed \<noteq> 0
                         then flags AND NOT FlagCompressed else flags),
                Payload = pl,
                SACKBlocks = (if flags AND FlagSACK \<noteq> 0
                              then parse_sack (drop payloadLen remaining) else []) \<rparr>, c'))"

definition Decode ::
  "externals \<Rightarrow> PacketCodec \<Rightarrow> bytes \<Rightarrow> (codec_error failure + Packet) \<times> PacketCodec" where
  "Decode x c wire =
     (if length wire < 12 then (Inl (Err ErrPacketTooShort), c)
      else let firstByte = wire ! 0;
               enc = (if firstByte AND 0x80 \<noteq> 0
                      then (if firstByte AND 0x30 \<noteq> 0 then Inl ErrLongHeaderType
                            else parse_long (dcid c) wire)
                      else parse_short (dcid c) wire)
      in case enc of
           Inl e \<Rightarrow> (Inl (Err e), c)
         | Inr encPayload \<Rightarrow>
             if length (sharedKey c) \<noteq> 32 then (Inl (Err ErrCipher), c)
             else if length encPayload < 24 + 16 + headerSize then (Inl (Err ErrEncTooShort), c)
             else (case aead_open x (sharedKey c) (take 24 encPayload) (drop 24 encPayload) of
                     None \<Rightarrow> (Inl (Err ErrDecrypt), c)
                   | Some plaintext \<Rightarrow> parse_plaintext x c plaintext))"

definition hex_digit :: "nat \<Rightarrow> char" where
  "hex_digit n = ''0123456789abcdef'' ! (n mod 16)"

definition packetTypeName :: "u8 \<Rightarrow> string" where
  "packetTypeName t =
     (if t = PacketDATA then ''DATA'' else if t = PacketACK then ''ACK''
      else if t = PacketSYN then ''SYN'' else if t = PacketSYNACK then ''SYN-ACK''
      else if t = PacketFIN then ''FIN'' else if t = PacketFINACK then ''FIN-ACK''
      else if t = PacketPING then ''PING'' else if t = PacketPONG then ''PONG''
      else ''UNKNOWN('' @ [hex_digit (unat t div 16), hex_digit (unat t)] @ '')'')"

section \<open>Lemmas\<close>

subsection \<open>Comparison, varints, headers\<close>

lemma xor_zero_iff: "(p XOR q = 0) = (p = (q :: 'a::len word))"
proof
  assume "p XOR q = 0"
  then have "(p XOR q) XOR q = q" by simp
  then show "p = q" by (simp add: xor.assoc)
qed simp

lemma foldl_xor: "length a = length b \<Longrightarrow>
  foldl (\<lambda>result (p, q). result OR (p XOR q)) r (zip a b) = (0::u8) \<longleftrightarrow> r = 0 \<and> a = b"
  by (induction a b arbitrary: r rule: list_induct2) (auto simp: or_eq_0_iff xor_zero_iff)

lemma constantTimeCompare_eq [simp]: "constantTimeCompare a b \<longleftrightarrow> a = b"
  by (auto simp: constantTimeCompare_def foldl_xor)

lemma bit_below: "v < 2 ^ k \<Longrightarrow> k < LENGTH('a) \<Longrightarrow> bit v n \<Longrightarrow> n < k" for v :: "'a::len word"
proof -
  assume "v < 2 ^ k" "k < LENGTH('a)" "bit v n"
  then have "v = take_bit k v"
    using less_mask_eq [of v k] by (simp add: take_bit_eq_mask)
  with \<open>bit v n\<close> show "n < k"
    by (metis bit_take_bit_iff)
qed

lemma varint_small:
  assumes "v < 64" shows "decodeVarint (encodeVarint v @ r) = (v, 1)"
proof -
  have b: "bit v n \<Longrightarrow> n < 6" for n using bit_below [of v 6] assms by simp
  have "drop_bit 6 (ucast v :: u8) = 0"
    by (rule bit_word_eqI) (auto simp: bit_simps dest: b)
  moreover have m: "(63::u8) = mask 6" by (simp add: mask_eq_exp_minus_1)
  have "ucast (ucast v AND 63 :: u8) = v"
    unfolding m by (rule bit_word_eqI) (auto simp: bit_simps dest: b)
  ultimately show ?thesis using assms by (simp add: encodeVarint_def decodeVarint_def)
qed

lemma bit_0x4000: "bit (0x4000 :: u16) n \<longleftrightarrow> n = 14"
proof -
  have "(0x4000 :: u16) = 2 ^ 14" by simp
  then show ?thesis by (simp only: bit_exp_iff) auto
qed

lemma varint_two:
  fixes w :: u16
  assumes b: "\<And>n. bit w n \<Longrightarrow> n < 14"
  shows "decodeVarint (put_be16 (w OR 0x4000) @ r) = (ucast w, 2)"
proof -
  have "drop_bit 6 (ucast (drop_bit 8 (w OR 0x4000)) :: u8) = 1"
    by (rule bit_word_eqI) (auto simp: bit_simps bit_0x4000 dest: b dest!: less_2_cases)
  moreover have m: "(0x3FFF::u16) = mask 14" by (simp add: mask_eq_exp_minus_1)
  have "((w OR 0x4000) AND 0x3FFF) = w"
    unfolding m
    by (rule bit_word_eqI) (auto simp only: bit_and_iff bit_or_iff bit_0x4000 bit_mask_iff possible_bit_word dest: b)
  ultimately show ?thesis
    using get_put_be16 [of "w OR 0x4000" r] by (simp add: decodeVarint_def put_be16_def)
qed

lemma varint_roundtrip_lemma:
  "decodeVarint (encodeVarint v @ r) = (if v < 64 then (v, 1) else (v AND 0x3FFF, 2))"
proof (cases "v < 64")
  case False
  have m: "(0x3FFF::u64) = mask 14" by (simp add: mask_eq_exp_minus_1)
  have "v AND 0x3FFF < 2 ^ 14" unfolding m by (rule and_mask_less') simp
  have "v < 16384 \<Longrightarrow> v AND 0x3FFF = v"
    unfolding m using less_mask_eq [of v 14] by simp
  moreover have "bit (ucast (v AND 0x3FFF) :: u16) n \<Longrightarrow> n < 14" for n
    unfolding m by (simp add: bit_simps)
  moreover have "ucast (ucast (v AND 0x3FFF) :: u16) = v AND 0x3FFF"
    unfolding m by (rule bit_word_eqI) (auto simp: bit_simps)
  ultimately show ?thesis
    using False varint_two [of "ucast (v AND 0x3FFF)" r] by (auto simp: encodeVarint_def)
qed (simp add: varint_small)

lemma length_encodeVarint [simp]: "length (encodeVarint v) = 2"
  by (simp add: encodeVarint_def)

lemma length_id8 [simp]: "length (id8 b) = 8"
  by (simp add: id8_def)

lemma id8_exact [simp]: "length b = 8 \<Longrightarrow> id8 b = b"
  by (simp add: id8_def)

lemma length_wire_initial [simp]: "length (wire_initial c s e) = 27 + length e"
  by (simp add: wire_initial_def)

lemma length_wire_short [simp]: "length (wire_short c s e) = 10 + length e"
  by (simp add: wire_short_def)

lemma parse_short_wire:
  assumes "length (dcid c) = 8" and "dcid d = dcid c" and "e \<noteq> []"
  shows "parse_short (dcid d) (wire_short c s e) = Inr e"
proof -
  have "slice (wire_short c s e) 1 9 = dcid c" and "drop 10 (wire_short c s e) = e"
    using assms(1) by (simp_all add: wire_short_def slice_def)
  then show ?thesis using assms by (simp add: parse_short_def)
qed

lemma wire_initial_fields:
  assumes "length (dcid c) = 8" and "length (scid c) = 8"
  shows "wire_initial c s e ! 5 = 8" and "slice (wire_initial c s e) 6 14 = dcid c"
    and "wire_initial c s e ! 14 = 8" and "wire_initial c s e ! 23 = 0"
    and "drop 24 (wire_initial c s e) = encodeVarint (of_nat (1 + length e)) @ ucast s # e"
  using assms by (simp_all add: wire_initial_def slice_def put_be32_def nth_append)

lemma wire_initial_payload:
  assumes "length (dcid c) = 8" and "length (scid c) = 8"
  shows "slice (wire_initial c s e) 27 (27 + length e) = e"
    and "slice (wire_initial c s e) 26 (26 + length e) = butlast (ucast s # e)"
proof -
  have "drop (k + 24) (wire_initial c s e) = drop k (drop 24 (wire_initial c s e))" for k
    by simp
  from this [of 3] this [of 2]
  have "drop 27 (wire_initial c s e) = e" and "drop 26 (wire_initial c s e) = ucast s # e"
    by (simp_all add: wire_initial_fields(5) [OF assms])
  then show "slice (wire_initial c s e) 27 (27 + length e) = e"
    and "slice (wire_initial c s e) 26 (26 + length e) = butlast (ucast s # e)"
    by (simp_all add: slice_def butlast_conv_take)
qed

lemma parse_long_wire:
  assumes "length (dcid c) = 8" and "length (scid c) = 8" and "dcid d = dcid c"
    and "1 + length e \<le> 16383"
  shows "parse_long (dcid d) (wire_initial c s e) =
     Inr (if 64 \<le> 1 + length e then e else butlast (ucast s # e))"
proof -
  let ?n = "1 + of_nat (length e) :: u64"
  have u: "unat ?n = 1 + length e"
    using assms(4) unat_of_nat_small [of "1 + length e", where 'a = 64] by simp
  then have lt: "?n < 64 \<longleftrightarrow> 1 + length e < 64"
    by (simp add: word_less_nat_alt)
  have "?n AND mask 14 = ?n"
    using assms(4) u by (intro less_mask_eq) (simp add: word_less_nat_alt)
  then have m: "?n AND 0x3FFF = ?n"
    by (simp add: mask_eq_exp_minus_1)
  note w = wire_initial_fields [OF assms(1,2), of s e] wire_initial_payload [OF assms(1,2), of s e]
  show ?thesis
    using u lt m w by (simp add: parse_long_def assms(1,3) varint_roundtrip_lemma)
qed

subsection \<open>The plaintext layout\<close>

lemma length_plaintext_of:
  "length (plaintext_of p pb) = 12 + length pb + length (sack_part p)"
  by (simp add: plaintext_of_def)

lemma length_sack_part:
  "length (sack_part p) =
     (if Flags p AND FlagSACK \<noteq> 0 \<and> SACKBlocks p \<noteq> [] then 2 + 4 * length (SACKBlocks p) else 0)"
  by (simp add: sack_part_def length_concat_put_be32)

lemma plaintext_fields:
  shows "plaintext_of p pb ! 0 = Type p" and "plaintext_of p pb ! 11 = Flags p"
    and "get_be32 (drop 1 (plaintext_of p pb)) = SeqNum p"
    and "get_be32 (drop 5 (plaintext_of p pb)) = AckNum p"
    and "get_be16 (drop 9 (plaintext_of p pb)) = of_nat (length pb)"
    and "drop 12 (plaintext_of p pb) = pb @ sack_part p"
proof -
  note eqs = plaintext_of_def put_be16_def put_be32_def nth_append
  show "plaintext_of p pb ! 0 = Type p" and "plaintext_of p pb ! 11 = Flags p"
    and "drop 12 (plaintext_of p pb) = pb @ sack_part p"
    by (simp_all add: eqs)
  have "drop 1 (plaintext_of p pb) = put_be32 (SeqNum p) @ put_be32 (AckNum p)
      @ put_be16 (of_nat (length pb)) @ Flags p # pb @ sack_part p"
    by (simp add: plaintext_of_def)
  then show "get_be32 (drop 1 (plaintext_of p pb)) = SeqNum p" by simp
  have "drop 5 (plaintext_of p pb) = put_be32 (AckNum p)
      @ put_be16 (of_nat (length pb)) @ Flags p # pb @ sack_part p"
    by (simp add: plaintext_of_def put_be32_def)
  then show "get_be32 (drop 5 (plaintext_of p pb)) = AckNum p" by simp
  have "drop 9 (plaintext_of p pb) = put_be16 (of_nat (length pb)) @ Flags p # pb @ sack_part p"
    by (simp add: plaintext_of_def put_be32_def)
  then show "get_be16 (drop 9 (plaintext_of p pb)) = of_nat (length pb)" by simp
qed

lemma parse_sack_part:
  assumes "Flags p AND FlagSACK \<noteq> 0 \<Longrightarrow> length (SACKBlocks p) < 2 ^ 16"
  shows "(if Flags p AND FlagSACK \<noteq> 0 then parse_sack (sack_part p) else []) =
     (if Flags p AND FlagSACK \<noteq> 0 then SACKBlocks p else [])"
proof (cases "Flags p AND FlagSACK \<noteq> 0 \<and> SACKBlocks p \<noteq> []")
  case True
  then have "sack_part p =
      put_be16 (of_nat (length (SACKBlocks p))) @ concat (map put_be32 (SACKBlocks p))"
    by (simp add: sack_part_def)
  moreover have "unat (of_nat (length (SACKBlocks p)) :: u16) = length (SACKBlocks p)"
    using assms True by (simp add: unat_of_nat_small)
  ultimately show ?thesis
    using True get_be32s_concat [of "SACKBlocks p" "[]"]
    by (simp add: parse_sack_def drop_put_be16 length_concat_put_be32)
next
  case False
  then show ?thesis by (auto simp: sack_part_def parse_sack_def)
qed

text \<open>What survives of a packet on the wire.\<close>

definition wire_view :: "Packet \<Rightarrow> Packet" where
  "wire_view p = p\<lparr> Flags := Flags p AND NOT FlagCompressed,
     SACKBlocks := (if Flags p AND FlagSACK \<noteq> 0 then SACKBlocks p else []) \<rparr>"

lemma flag_clear: "(f :: u8) AND m = 0 \<Longrightarrow> f AND NOT m = f"
proof -
  assume "f AND m = 0"
  then have "\<not> (bit f n \<and> bit m n)" for n
    by (metis bit_and_iff bit_0_eq bot_apply bot_bool_def)
  then show ?thesis
    by (intro bit_word_eqI) (auto simp: bit_simps)
qed

lemma parse_plaintext_of:
  assumes "length pb < 2 ^ 16"
    and "Flags p AND FlagSACK \<noteq> 0 \<Longrightarrow> length (SACKBlocks p) < 2 ^ 16"
    and "(if Flags p AND FlagCompressed \<noteq> 0 then decompressPayload x d pb else (Inr pb, d))
      = (Inr pl, d')"
  shows "parse_plaintext x d (plaintext_of p pb) = (Inr (wire_view (p\<lparr>Payload := pl\<rparr>)), d')"
proof -
  have u: "unat (of_nat (length pb) :: u16) = length pb"
    using assms(1) by (simp add: unat_of_nat_small)
  have f: "(if Flags p AND FlagCompressed \<noteq> 0 then Flags p AND NOT FlagCompressed else Flags p)
      = Flags p AND NOT FlagCompressed"
    by (simp add: flag_clear)
  have l: "\<not> length (plaintext_of p pb) < 12" "drop (length pb) (pb @ sack_part p) = sack_part p"
    "\<not> length (pb @ sack_part p) < length pb" "take (length pb) (pb @ sack_part p) = pb"
    by (simp_all add: length_plaintext_of)
  have v: "wire_view (p\<lparr>Payload := pl\<rparr>) = \<lparr> Type = Type p, SeqNum = SeqNum p,
      AckNum = AckNum p, Flags = Flags p AND NOT FlagCompressed, Payload = pl,
      SACKBlocks = (if Flags p AND FlagSACK \<noteq> 0 then SACKBlocks p else []) \<rparr>"
    by (cases p) (simp add: wire_view_def)
  have sp: "(if Flags p AND FlagSACK \<noteq> 0 then parse_sack (sack_part p) else []) =
     (if Flags p AND FlagSACK \<noteq> 0 then SACKBlocks p else [])"
    by (rule parse_sack_part) (rule assms(2))
  show ?thesis
    unfolding parse_plaintext_def Let_def headerSize_def plaintext_fields u l if_False
      sp f v assms(3)
    by (simp add: length_plaintext_of)
qed

subsection \<open>Compression of the payload\<close>

definition codec_wf :: "externals \<Rightarrow> PacketCodec \<Rightarrow> bool" where
  "codec_wf x c \<longleftrightarrow> length (sharedKey c) = 32 \<and> length (dcid c) = 8 \<and> length (scid c) = 8
     \<and> (case compressor c of None \<Rightarrow> True | Some k \<Rightarrow> initCompressor x c = Inr (Some k))"

lemma initCompressor_cong:
  "compressCfg d = compressCfg c \<Longrightarrow> initCompressor x d = initCompressor x c"
  by (simp add: initCompressor_def)

lemma compressPayload_codec:
  assumes "compressPayload x c data = (r, c')"
  shows "c' = c \<or> (\<exists>k. c' = c\<lparr>compressor := Some k\<rparr>
     \<and> (compressor c = Some k \<or> initCompressor x c = Inr (Some k)))"
  using assms
  by (auto simp: compressPayload_def Let_def split: option.splits sum.splits if_splits)

lemma decompressPayload_codec:
  assumes "decompressPayload x c data = (r, c')"
  shows "c' = c \<or> (\<exists>k. c' = c\<lparr>compressor := Some k\<rparr>
     \<and> (compressor c = Some k \<or> initCompressor x c = Inr (Some k)))"
  using assms
  by (auto simp: decompressPayload_def Let_def split: option.splits sum.splits if_splits)

lemma codec_wf_set_compressor:
  assumes "codec_wf x c" and "compressor c = Some k \<or> initCompressor x c = Inr (Some k)"
  shows "codec_wf x (c\<lparr>compressor := Some k\<rparr>)"
  using assms by (auto simp: codec_wf_def initCompressor_def)

lemma compressPayload_wf: "codec_wf x c \<Longrightarrow> codec_wf x (snd (compressPayload x c data))"
  using compressPayload_codec [of x c data] codec_wf_set_compressor
  by (metis prod.collapse)

lemma decompressPayload_wf: "codec_wf x c \<Longrightarrow> codec_wf x (snd (decompressPayload x c data))"
  using decompressPayload_codec [of x c data] codec_wf_set_compressor
  by (metis prod.collapse)

lemma compressPayload_result:
  assumes "codec_wf x c" and "compressPayload x c data = (Inr pb, c')"
  shows "pb = data \<or> (compression_on c \<and> length pb < length data
     \<and> (\<exists>k. initCompressor x c = Inr (Some k) \<and> pb = CompressWithHeader x k data))"
  using assms
  by (auto simp: compressPayload_def compression_on_def codec_wf_def Let_def not_le
      split: option.splits sum.splits if_splits)

lemma decompress_compressed:
  assumes "zstd_correct x" and "codec_wf x d" and "compressCfg d = compressCfg c"
    and "compression_on c" and "initCompressor x c = Inr (Some k)" and "length data < 2 ^ 32"
  shows "\<exists>d'. decompressPayload x d (CompressWithHeader x k data) = (Inr data, d')"
proof -
  have "initCompressor x d = Inr (Some k)" and "compression_on d"
    using assms(3-5) initCompressor_cong [of d c x] by (simp_all add: compression_on_def)
  moreover have "compressor d = None \<or> compressor d = Some k"
    using assms(2) \<open>initCompressor x d = _\<close> by (auto simp: codec_wf_def split: option.splits)
  ultimately show ?thesis
    using header_roundtrip [OF assms(1) assms(6), of k]
    by (auto simp: decompressPayload_def)
qed

subsection \<open>Encode, then Decode\<close>

definition codec_peer :: "PacketCodec \<Rightarrow> PacketCodec \<Rightarrow> bool" where
  "codec_peer c d \<longleftrightarrow> sharedKey d = sharedKey c \<and> dcid d = dcid c \<and> compressCfg d = compressCfg c"

text \<open>
  The compressed flag of the packet handed to \<^verbatim>\<open>Encode\<close> agrees with what \<^verbatim>\<open>Encode\<close> will do:
  it is clear (a fresh packet), or the payload does compress (a packet encoded before).
\<close>

definition flag_consistent :: "externals \<Rightarrow> PacketCodec \<Rightarrow> Packet \<Rightarrow> bool" where
  "flag_consistent x c p \<longleftrightarrow>
     Flags p AND FlagCompressed = 0 \<or> \<not> compression_on c
     \<or> (\<exists>pb c'. compressPayload x c (Payload p) = (Inr pb, c') \<and> length pb < length (Payload p))"

lemma mark_compressed_same [simp]:
  "Type (mark_compressed c p pb) = Type p" "SeqNum (mark_compressed c p pb) = SeqNum p"
  "AckNum (mark_compressed c p pb) = AckNum p" "Payload (mark_compressed c p pb) = Payload p"
  "SACKBlocks (mark_compressed c p pb) = SACKBlocks p"
  "isInitial (mark_compressed c p pb) = isInitial p"
  by (simp_all add: mark_compressed_def isInitial_def)

lemma FlagCompressed_nonzero [simp]: "FlagCompressed \<noteq> 0"
  by (simp add: FlagCompressed_def)

lemma compressed_bit:
  "(f OR FlagCompressed) AND FlagCompressed \<noteq> 0"
  "(f OR FlagCompressed) AND NOT FlagCompressed = f AND NOT FlagCompressed"
  "(f OR FlagCompressed) AND FlagSACK = f AND FlagSACK"
  by (simp_all add: FlagCompressed_def FlagSACK_def bit.conj_disj_distrib2)

lemma wire_view_mark [simp]: "wire_view (mark_compressed c p pb) = wire_view p"
  by (cases p) (simp add: mark_compressed_def wire_view_def compressed_bit)

lemma EncodeD:
  assumes "Encode x nonce c p = (r, p', c')"
  obtains (error) e where "compress_stage x c p = (Inl e, c')" "r = Inl (Err (ErrCompression e))"
      "p' = p"
  | (sealed) pb where "compress_stage x c p = (Inr pb, c')" "p' = mark_compressed c p pb"
      "r = seal_wire x nonce c' p' pb"
  using assms that
  by (auto simp: Encode_def Let_def split: prod.splits sum.splits)

lemma seal_wireD:
  assumes "seal_wire x nonce c p pb = Inr w"
  obtains n where "nonce = Some n" and "length (plaintext_of p pb) \<le> 2048"
    and "length (sharedKey c) = 32"
    and "isInitial p \<Longrightarrow> 1 + length (n @ aead_seal x (sharedKey c) n (plaintext_of p pb)) \<le> 16383
       \<and> w = wire_initial c (SeqNum p) (n @ aead_seal x (sharedKey c) n (plaintext_of p pb))"
    and "\<not> isInitial p \<Longrightarrow>
         w = wire_short c (SeqNum p) (n @ aead_seal x (sharedKey c) n (plaintext_of p pb))"
  using assms that
  by (cases "isInitial p") (auto simp: seal_wire_def Let_def split: if_splits option.splits)

lemma compress_stage_codec:
  assumes "compress_stage x c p = (r, c')"
  shows "c' = c \<or> (\<exists>k. c' = c\<lparr>compressor := Some k\<rparr>
     \<and> (compressor c = Some k \<or> initCompressor x c = Inr (Some k)))"
  using assms compressPayload_codec by (auto simp: compress_stage_def split: if_splits)

lemma compress_stage_same:
  assumes "compress_stage x c p = (r, c')"
  shows "sharedKey c' = sharedKey c" "dcid c' = dcid c" "scid c' = scid c"
    "compressCfg c' = compressCfg c" "dcidRevision c' = dcidRevision c"
  using compress_stage_codec [OF assms] by auto

lemma decode_frame:
  assumes "aead_correct x" and "codec_wf x d" and "codec_peer c d"
    and "length (dcid c) = 8" and "length (scid c) = 8" and "length n = 24"
    and "seal_wire x (Some n) c p pb = Inr w" and "isInitial p \<Longrightarrow> 90 \<le> length w"
  shows "Decode x d w = parse_plaintext x d (plaintext_of p pb)"
proof -
  let ?e = "n @ aead_seal x (sharedKey c) n (plaintext_of p pb)"
  have key: "sharedKey d = sharedKey c" "dcid d = dcid c" "length (sharedKey d) = 32"
    using assms(2,3) by (simp_all add: codec_peer_def codec_wf_def)
  have len: "length ?e = 24 + 16 + length (plaintext_of p pb)" "?e \<noteq> []"
    using assms(1,6) by auto
  then have l52: "24 + 16 + 12 \<le> length ?e" by (simp add: length_plaintext_of)
  have "Decode x d w = (case Inr ?e :: codec_error + bytes of Inl e \<Rightarrow> (Inl (Err e), d)
      | Inr encPayload \<Rightarrow>
             if length (sharedKey d) \<noteq> 32 then (Inl (Err ErrCipher), d)
             else if length encPayload < 24 + 16 + headerSize then (Inl (Err ErrEncTooShort), d)
             else (case aead_open x (sharedKey d) (take 24 encPayload) (drop 24 encPayload) of
                     None \<Rightarrow> (Inl (Err ErrDecrypt), d)
                   | Some plaintext \<Rightarrow> parse_plaintext x d plaintext))"
  proof (cases "isInitial p")
    case True
    then have w: "w = wire_initial c (SeqNum p) ?e" "1 + length ?e \<le> 16383"
      using assms(7) by (auto elim!: seal_wireD)
    then have "64 \<le> 1 + length ?e" using True assms(8) by simp
    then have "parse_long (dcid d) w = Inr ?e"
      using parse_long_wire [OF assms(4,5) key(2) w(2)] w(1) by simp
    moreover have "w ! 0 = 0xC0" and "12 \<le> length w" using w(1) by (simp_all add: wire_initial_def)
    ultimately show ?thesis unfolding Decode_def Let_def by simp
  next
    case False
    then have w: "w = wire_short c (SeqNum p) ?e"
      using assms(7) by (auto elim!: seal_wireD)
    have "parse_short (dcid d) w = Inr ?e"
      unfolding w using parse_short_wire [OF assms(4) key(2) len(2)] .
    moreover have "w ! 0 = 0x40" and "12 \<le> length w"
      using w len by (simp_all add: wire_short_def)
    ultimately show ?thesis unfolding Decode_def Let_def by simp
  qed
  then show ?thesis
    using l52 key assms(1,6) by (simp add: headerSize_def)
qed

lemma decode_plain_stage:
  assumes "zstd_correct x" and "codec_wf x c" and "codec_wf x d" and "codec_peer c d"
    and "flag_consistent x c p" and "length (Payload p) < 2 ^ 32"
    and "compress_stage x c p = (Inr pb, c')"
    and "p' = mark_compressed c p pb"
  shows "\<exists>d'. (if Flags p' AND FlagCompressed \<noteq> 0 then decompressPayload x d pb else (Inr pb, d))
      = (Inr (Payload p), d')"
proof (cases "compression_on c \<and> Payload p \<noteq> [] \<and> length pb < length (Payload p)")
  case True
  then have "compressPayload x c (Payload p) = (Inr pb, c')"
    using assms(7) by (simp add: compress_stage_def)
  then obtain k where "initCompressor x c = Inr (Some k)" "pb = CompressWithHeader x k (Payload p)"
    using compressPayload_result [OF assms(2)] True by blast
  moreover have "compressCfg d = compressCfg c" using assms(4) by (simp add: codec_peer_def)
  ultimately have "\<exists>d'. decompressPayload x d pb = (Inr (Payload p), d')"
    using decompress_compressed [OF assms(1,3)] True assms(6) by blast
  with True assms(8) show ?thesis by (simp add: mark_compressed_def compressed_bit)
next
  case False
  then have "pb = Payload p"
    using assms(7) compressPayload_result [OF assms(2)]
    by (auto simp: compress_stage_def split: if_splits)
  moreover have "p' = p" using False assms(8) by (auto simp: mark_compressed_def)
  moreover have "Flags p AND FlagCompressed \<noteq> 0 \<Longrightarrow> \<not> compression_on c"
    using assms(5,7) False compressPayload_result [OF assms(2)]
    by (auto simp: flag_consistent_def compress_stage_def split: if_splits)
  then have "Flags p AND FlagCompressed \<noteq> 0 \<Longrightarrow> \<not> compression_on d"
    using assms(4) by (simp add: compression_on_def codec_peer_def)
  ultimately show ?thesis by (auto simp: decompressPayload_def)
qed

lemma decode_encode:
  assumes ext: "aead_correct x" "zstd_correct x"
    and wf: "codec_wf x c" "codec_wf x d" "codec_peer c d"
    and n: "length n = 24"
    and p: "flag_consistent x c p" "length (Payload p) < 2 ^ 32"
    and enc: "Encode x (Some n) c p = (Inr w, p', c')"
    and size: "isInitial p \<Longrightarrow> 90 \<le> length w"
  shows "\<exists>d'. Decode x d w = (Inr (wire_view p), d')"
  using enc
proof (cases rule: EncodeD)
  case (sealed pb)
  note same = compress_stage_same [OF sealed(1)]
  have peer: "codec_peer c' d" "length (dcid c') = 8" "length (scid c') = 8"
    using wf(1,3) same by (simp_all add: codec_peer_def codec_wf_def)
  have w: "seal_wire x (Some n) c' p' pb = Inr w" using sealed(3) by simp
  then have small: "length (plaintext_of p' pb) \<le> 2048" by (rule seal_wireD)
  then have "length pb < 2 ^ 16"
    and "Flags p' AND FlagSACK \<noteq> 0 \<Longrightarrow> length (SACKBlocks p') < 2 ^ 16"
    by (auto simp: length_plaintext_of length_sack_part split: if_splits)
  moreover obtain d' where "(if Flags p' AND FlagCompressed \<noteq> 0 then decompressPayload x d pb
      else (Inr pb, d)) = (Inr (Payload p), d')"
    using decode_plain_stage [OF ext(2) wf p sealed(1,2)] by blast
  ultimately have "parse_plaintext x d (plaintext_of p' pb)
      = (Inr (wire_view (p'\<lparr>Payload := Payload p\<rparr>)), d')"
    by (rule parse_plaintext_of)
  moreover have "p'\<lparr>Payload := Payload p\<rparr> = p'"
    using sealed(2) mark_compressed_same(4) [of c p pb] by (cases p') simp
  moreover have "Decode x d w = parse_plaintext x d (plaintext_of p' pb)"
    by (rule decode_frame [OF ext(1) wf(2) peer n w]) (use size sealed(2) in simp)
  moreover have "wire_view p' = wire_view p" using sealed(2) by simp
  ultimately show ?thesis by auto
qed simp

text \<open>A packet that was encoded once is again fit to be encoded (a retransmission).\<close>

lemma flag_consistent_fresh: "Flags p AND FlagCompressed = 0 \<Longrightarrow> flag_consistent x c p"
  by (simp add: flag_consistent_def)

lemma compressPayload_stable:
  assumes "codec_wf x c" and "compressPayload x c data = (Inr pb, c1)"
    and "codec_wf x d" and "compressCfg d = compressCfg c"
  shows "fst (compressPayload x d data) = Inr pb"
  using assms initCompressor_cong [OF assms(4), of x]
  by (auto simp: compressPayload_def codec_wf_def Let_def split: option.splits sum.splits if_splits)

subsection \<open>The invariant of a codec\<close>

lemma NewPacketCodec_wf:
  "digests_correct x \<Longrightarrow> codec_wf x (NewPacketCodecWithConfig x cfg)"
  by (simp add: NewPacketCodecWithConfig_def codec_wf_def deriveKey_def Let_def)

lemma rotateDCID_wf: "digests_correct x \<Longrightarrow> codec_wf x c \<Longrightarrow> codec_wf x (rotateDCID x c)"
  using initCompressor_cong [of "rotateDCID x c" c x]
  by (auto simp: rotateDCID_def codec_wf_def Let_def split: option.splits)

lemma compress_stage_wf:
  "codec_wf x c \<Longrightarrow> compress_stage x c p = (r, c') \<Longrightarrow> codec_wf x c'"
  using compress_stage_codec codec_wf_set_compressor by metis

lemma Encode_wf: "codec_wf x c \<Longrightarrow> codec_wf x (snd (snd (Encode x nonce c p)))"
  by (auto simp: Encode_def Let_def dest: compress_stage_wf split: prod.splits sum.splits)

lemma parse_plaintext_wf: "codec_wf x c \<Longrightarrow> codec_wf x (snd (parse_plaintext x c pt))"
  using decompressPayload_wf [of x c]
  by (auto simp: parse_plaintext_def Let_def split: prod.splits sum.splits failure.splits)
     (metis snd_conv)+

lemma Decode_wf: "codec_wf x c \<Longrightarrow> codec_wf x (snd (Decode x c w))"
  by (auto simp: Decode_def Let_def parse_plaintext_wf split: sum.splits option.splits)

subsection \<open>Encoding without compression\<close>

definition wire_size :: "Packet \<Rightarrow> nat" where
  "wire_size p = (if isInitial p then 79 else 62) + length (Payload p) + length (sack_part p)"

lemma compress_stage_off:
  "\<not> compression_on c \<Longrightarrow> compress_stage x c p = (Inr (Payload p), c)
     \<and> mark_compressed c p (Payload p) = p"
  by (simp add: compress_stage_def mark_compressed_def)

lemma Encode_off:
  "\<not> compression_on c \<Longrightarrow> Encode x nonce c p = (seal_wire x nonce c p (Payload p), p, c)"
  using compress_stage_off [of c x p] by (simp add: Encode_def)

lemma seal_wire_total:
  assumes "aead_correct x" and "length (sharedKey c) = 32" and "length n = 24"
  shows "seal_wire x (Some n) c p pb =
     (if 2036 < length pb + length (sack_part p) then Inl Panic
      else Inr ((if isInitial p then wire_initial else wire_short) c (SeqNum p)
                 (n @ aead_seal x (sharedKey c) n (plaintext_of p pb))))"
  using assms by (simp add: seal_wire_def length_plaintext_of)

lemma Encode_off_total:
  assumes "aead_correct x" and "codec_wf x c" and "\<not> compression_on c" and "length n = 24"
    and "length (Payload p) + length (sack_part p) \<le> 2036"
  obtains w where "Encode x (Some n) c p = (Inr w, p, c)" and "length w = wire_size p"
proof -
  have "Encode x (Some n) c p = (Inr ((if isInitial p then wire_initial else wire_short) c (SeqNum p)
      (n @ aead_seal x (sharedKey c) n (plaintext_of p (Payload p)))), p, c)"
    using assms by (simp add: Encode_off seal_wire_total codec_wf_def)
  moreover have "length ((if isInitial p then wire_initial else wire_short) c (SeqNum p)
      (n @ aead_seal x (sharedKey c) n (plaintext_of p (Payload p)))) = wire_size p"
    using assms(1,4) by (simp add: wire_size_def length_plaintext_of)
  ultimately show ?thesis by (rule that)
qed

subsection \<open>What Decode accepts\<close>

lemma DecodeD:
  assumes "Decode x d w = (Inr p, d')"
  obtains enc pt where
    "(if w ! 0 AND 0x80 \<noteq> 0 then (if w ! 0 AND 0x30 \<noteq> 0 then Inl ErrLongHeaderType
        else parse_long (dcid d) w) else parse_short (dcid d) w) = Inr enc"
    and "aead_open x (sharedKey d) (take 24 enc) (drop 24 enc) = Some pt"
    and "12 \<le> length w" and "length (sharedKey d) = 32" and "52 \<le> length enc"
    and "parse_plaintext x d pt = (Inr p, d')"
  using assms unfolding Decode_def Let_def headerSize_def
  by (auto split: if_split_asm sum.splits option.splits)

lemma parse_shortD: "parse_short k w = Inr e \<Longrightarrow> slice w 1 9 = k \<and> e = drop 10 w"
  by (auto simp: parse_short_def split: if_splits)

lemma parse_longD:
  "parse_long k w = Inr e \<Longrightarrow> w ! 5 = 8 \<Longrightarrow> slice w 6 14 = k"
  by (auto simp: parse_long_def Let_def split: if_splits)

lemma parse_plaintext_fields:
  assumes "parse_plaintext x d pt = (Inr p, d')"
  shows "12 \<le> length pt \<and> Type p = pt ! 0 \<and> SeqNum p = get_be32 (drop 1 pt)
    \<and> AckNum p = get_be32 (drop 5 pt) \<and> Flags p AND FlagCompressed = 0
    \<and> unat (get_be16 (drop 9 pt)) + 12 \<le> length pt"
proof -
  have z: "(f AND NOT FlagCompressed) AND FlagCompressed = 0" for f :: u8
    by (simp add: and.assoc)
  show ?thesis
    using assms
    by (auto simp: parse_plaintext_def Let_def headerSize_def z
        split: if_split_asm prod.splits sum.splits failure.splits)
qed

lemma decompressPayload_off: "\<not> compression_on c \<Longrightarrow> decompressPayload x c d = (Inr d, c)"
  by (simp add: decompressPayload_def)

lemma parse_plaintext_off:
  "\<not> compression_on d \<Longrightarrow> fst (parse_plaintext x d pt) \<noteq> Inl Panic
     \<and> snd (parse_plaintext x d pt) = d"
  by (simp add: parse_plaintext_def Let_def decompressPayload_off)

lemma Decode_off:
  "\<not> compression_on d \<Longrightarrow> fst (Decode x d w) \<noteq> Inl Panic \<and> snd (Decode x d w) = d"
  using parse_plaintext_off [of d x] by (simp add: Decode_def Let_def split: sum.splits option.splits)

lemma parse_long_mismatch:
  assumes "length (dcid c) = 8" and "length (scid c) = 8" and "dcid c \<noteq> k"
  shows "parse_long k (wire_initial c s e) = Inl ErrDcidMismatch"
  using assms wire_initial_fields [OF assms(1,2), of s e] by (simp add: parse_long_def)

lemma parse_short_mismatch:
  assumes "length (dcid c) = 8" and "dcid c \<noteq> k"
  shows "parse_short k (wire_short c s e) = Inl ErrDcidMismatch"
proof -
  have "slice (wire_short c s e) 1 9 = dcid c"
    using assms(1) by (simp add: wire_short_def slice_def)
  with assms(2) show ?thesis by (simp add: parse_short_def)
qed

lemma decode_mismatch:
  assumes "codec_wf x c" and "dcid d \<noteq> dcid c" and "length n = 24"
    and "Encode x (Some n) c p = (Inr w, p', c')"
  shows "Decode x d w = (Inl (Err ErrDcidMismatch), d)"
  using assms(4)
proof (cases rule: EncodeD)
  case (sealed pb)
  note same = compress_stage_same [OF sealed(1)]
  have ids: "length (dcid c') = 8" "length (scid c') = 8" "dcid c' \<noteq> dcid d"
    using assms(1,2) same by (auto simp: codec_wf_def)
  from sealed(3) have "seal_wire x (Some n) c' p' pb = Inr w" by simp
  then consider e where "w = wire_initial c' (SeqNum p') (n @ e)"
    | e where "w = wire_short c' (SeqNum p') (n @ e)"
    by (cases "isInitial p'") (auto elim!: seal_wireD)
  then show ?thesis
  proof cases
    case 1
    then have "w ! 0 = 0xC0" and "12 \<le> length w"
      using assms(3) by (simp_all add: wire_initial_def)
    with 1 ids show ?thesis
      unfolding Decode_def Let_def by (simp add: parse_long_mismatch)
  next
    case 2
    then have "w ! 0 = 0x40" and "12 \<le> length w"
      using assms(3) by (simp_all add: wire_short_def)
    with 2 ids show ?thesis
      unfolding Decode_def Let_def by (simp add: parse_short_mismatch)
  qed
qed simp

lemma Decode_long:
  assumes "parse_long (dcid d) w = Inr e" and "w ! 0 = 0xC0" and "12 \<le> length w"
    and "length (sharedKey d) = 32" and "52 \<le> length e"
  shows "Decode x d w = (case aead_open x (sharedKey d) (take 24 e) (drop 24 e) of
       None \<Rightarrow> (Inl (Err ErrDecrypt), d) | Some pt \<Rightarrow> parse_plaintext x d pt)"
  unfolding Decode_def Let_def using assms by (simp add: headerSize_def split: option.splits)

lemma short_initial:
  assumes "aead_correct x" and "codec_wf x c" and "codec_wf x d" and "codec_peer c d"
    and "length n = 24" and "\<not> compression_on c" and "isInitial p"
    and "length (Payload p) + length (sack_part p) < 11"
    and sealed: "sealed = aead_seal x (sharedKey c) n (plaintext_of p (Payload p))"
  shows "\<exists>w. Encode x (Some n) c p = (Inr w, p, c)
     \<and> Decode x d w =
         (case aead_open x (sharedKey c) (ucast (SeqNum p) # butlast n)
                 (last n # butlast sealed) of
            None \<Rightarrow> (Inl (Err ErrDecrypt), d)
          | Some pt \<Rightarrow> parse_plaintext x d pt)"
proof -
  let ?e = "n @ sealed" and ?w = "wire_initial c (SeqNum p) (n @ sealed)"
  have l: "length sealed = 28 + length (Payload p) + length (sack_part p)"
    using assms(1) by (simp add: sealed length_plaintext_of)
  have e: "Encode x (Some n) c p = (Inr ?w, p, c)"
    using assms by (simp add: Encode_off seal_wire_total codec_wf_def)
  have ids: "length (dcid c) = 8" "length (scid c) = 8" "dcid d = dcid c"
      "sharedKey d = sharedKey c" "length (sharedKey d) = 32"
    using assms(2-4) by (simp_all add: codec_wf_def codec_peer_def)
  have ne: "n \<noteq> []" using assms(5) by auto
  have ne': "sealed \<noteq> []" using l by auto
  let ?b = "butlast (ucast (SeqNum p) # ?e)"
  have b: "?b = (ucast (SeqNum p) # butlast n) @ (last n # butlast sealed)"
  proof -
    have "?b = ucast (SeqNum p) # n @ butlast sealed" using ne ne' by (simp add: butlast_append)
    also have "\<dots> = ucast (SeqNum p) # (butlast n @ [last n]) @ butlast sealed" using ne ne' by simp
    finally show ?thesis by simp
  qed
  then have t: "take 24 ?b = ucast (SeqNum p) # butlast n" "drop 24 ?b = last n # butlast sealed"
    using assms(5) by simp_all
  have "\<not> 64 \<le> 1 + length ?e" and "1 + length ?e \<le> 16383"
    using l assms(5,8) by simp_all
  then have "parse_long (dcid d) ?w = Inr ?b"
    using parse_long_wire [OF ids(1-3), of ?e "SeqNum p"] by simp
  moreover have "?w ! 0 = 0xC0" by (simp add: wire_initial_def)
  moreover have "12 \<le> length ?w" and "52 \<le> length ?b" using l assms(5) b by simp_all
  ultimately have "Decode x d ?w = (case aead_open x (sharedKey d) (take 24 ?b) (drop 24 ?b) of
       None \<Rightarrow> (Inl (Err ErrDecrypt), d) | Some pt \<Rightarrow> parse_plaintext x d pt)"
    using ids(5) by (intro Decode_long)
  then show ?thesis using e t ids(4) by auto
qed

section \<open>The codec as a contract\<close>

text \<open>A sequence of packets through one encoder, and of datagrams through one decoder.\<close>

fun enc_all :: "(bytes \<Rightarrow> 'c \<Rightarrow> Packet \<Rightarrow> ('e + bytes) \<times> Packet \<times> 'c)
    \<Rightarrow> bytes list \<Rightarrow> 'c \<Rightarrow> Packet list \<Rightarrow> bytes list option" where
  "enc_all enc (n # ns) c (p # ps) =
     (case enc n c p of
        (Inr w, _, c') \<Rightarrow>
          (case enc_all enc ns c' ps of None \<Rightarrow> None | Some ws \<Rightarrow> Some (w # ws))
      | (Inl _, _, _) \<Rightarrow> None)"
| "enc_all enc ns c [] = Some []"
| "enc_all enc [] c (p # ps) = None"

fun dec_all :: "('c \<Rightarrow> bytes \<Rightarrow> ('e + Packet) \<times> 'c) \<Rightarrow> 'c \<Rightarrow> bytes list \<Rightarrow> ('e + Packet) list" where
  "dec_all dec d [] = []"
| "dec_all dec d (w # ws) = fst (dec d w) # dec_all dec (snd (dec d w)) ws"

text \<open>
  What the layers above use of a codec: a well-formed codec stays well-formed, and what one end
  encodes the other, keyed alike, decodes to the view of the packet that the wire carries. The
  laws are stated for the packets \<open>fit\<close> admits.
\<close>

locale packet_codec =
  fixes enc :: "bytes \<Rightarrow> 'c \<Rightarrow> Packet \<Rightarrow> (codec_error failure + bytes) \<times> Packet \<times> 'c"
    and dec :: "'c \<Rightarrow> bytes \<Rightarrow> (codec_error failure + Packet) \<times> 'c"
    and wf :: "'c \<Rightarrow> bool"
    and peer :: "'c \<Rightarrow> 'c \<Rightarrow> bool"
    and nonce_ok :: "bytes \<Rightarrow> bool"
    and fit :: "'c \<Rightarrow> Packet \<Rightarrow> bool"
  assumes enc_wf: "wf c \<Longrightarrow> wf (snd (snd (enc n c p)))"
    and dec_wf: "wf c \<Longrightarrow> wf (snd (dec c w))"
    and enc_peer: "peer c d \<Longrightarrow> peer (snd (snd (enc n c p))) d"
    and dec_peer: "peer c d \<Longrightarrow> peer c (snd (dec d w))"
    and dec_enc: "wf c \<Longrightarrow> wf d \<Longrightarrow> peer c d \<Longrightarrow> nonce_ok n \<Longrightarrow> fit c p \<Longrightarrow>
      fst (enc n c p) = Inr w \<Longrightarrow> fst (dec d w) = Inr (wire_view p)"
begin

lemma dec_enc_all:
  assumes "wf c" and "wf d" and "peer c d" and "list_all nonce_ok ns"
    and "\<And>c p. p \<in> set ps \<Longrightarrow> fit c p"
    and "enc_all enc ns c ps = Some ws"
  shows "dec_all dec d ws = map (Inr \<circ> wire_view) ps"
  using assms
proof (induction ps arbitrary: ns c d ws)
  case (Cons p ps)
  then obtain n ns' where ns: "ns = n # ns'" by (cases ns) auto
  obtain w p' c' where e: "enc n c p = (Inr w, p', c')"
    using Cons.prems(6) ns by (auto split: sum.splits prod.splits)
  then obtain ws' where ws: "enc_all enc ns' c' ps = Some ws'" "ws = w # ws'"
    using Cons.prems(6) ns by (auto split: option.splits)
  have "fst (dec d w) = Inr (wire_view p)"
    using dec_enc [of c d n p w] Cons.prems e ns by simp
  moreover have "dec_all dec (snd (dec d w)) ws' = map (Inr \<circ> wire_view) ps"
  proof (rule Cons.IH)
    show "wf c'" using enc_wf [of c n p] Cons.prems(1) e by simp
    show "wf (snd (dec d w))" using dec_wf Cons.prems(2) by simp
    show "peer c' (snd (dec d w))"
      using dec_peer enc_peer [of c d n p] Cons.prems(3) e by simp
  qed (use Cons.prems ns ws in auto)
  ultimately show ?case using ws by simp
qed simp

end

text \<open>Packets that keep within the receiver's varint reading.\<close>

definition codec_fit :: "externals \<Rightarrow> PacketCodec \<Rightarrow> Packet \<Rightarrow> bool" where
  "codec_fit x c p \<longleftrightarrow> aead_correct x \<and> zstd_correct x \<and> length (Payload p) < 2 ^ 32
     \<and> flag_consistent x c p \<and> \<not> isInitial p"

lemma Codec_Close_wf: "codec_wf x c \<Longrightarrow> codec_wf x (Codec_Close c)"
  by (auto simp: Codec_Close_def codec_wf_def initCompressor_def split: option.splits)

lemma Encode_peer: "codec_peer c d \<Longrightarrow> codec_peer (snd (snd (Encode x n c p))) d"
  by (auto simp: Encode_def Let_def codec_peer_def dest: compress_stage_same
      split: prod.splits sum.splits)

lemma parse_plaintext_codec:
  "snd (parse_plaintext x d pt) = d \<or> (\<exists>k. snd (parse_plaintext x d pt) = d\<lparr>compressor := Some k\<rparr>)"
proof -
  have "snd (parse_plaintext x d pt) = d
      \<or> (\<exists>raw. snd (parse_plaintext x d pt) = snd (decompressPayload x d raw))"
    by (auto simp: parse_plaintext_def Let_def split: prod.splits sum.splits failure.splits)
       (metis snd_conv)+
  then show ?thesis using decompressPayload_codec by (metis prod.collapse)
qed

lemma Decode_same:
  assumes "Decode x d w = (r, d')"
  shows "sharedKey d' = sharedKey d" "dcid d' = dcid d" "scid d' = scid d"
    "compressCfg d' = compressCfg d"
proof -
  have "d' = d \<or> (\<exists>pt. d' = snd (parse_plaintext x d pt))"
    using assms
    by (auto simp: Decode_def Let_def split: if_split_asm sum.splits option.splits) (metis snd_conv)+
  then have "d' = d \<or> (\<exists>k. d' = d\<lparr>compressor := Some k\<rparr>)"
    using parse_plaintext_codec [of x d] by auto
  then show "sharedKey d' = sharedKey d" "dcid d' = dcid d" "scid d' = scid d"
    "compressCfg d' = compressCfg d" by auto
qed

lemma Decode_peer: "codec_peer c d \<Longrightarrow> codec_peer c (snd (Decode x d w))"
  using Decode_same [OF prod.collapse [symmetric], of x d w] by (auto simp: codec_peer_def)

lemma decode_encode_fst:
  assumes "aead_correct x" "zstd_correct x" "codec_wf x c" "codec_wf x d" "codec_peer c d"
    and "length n = 24" and "flag_consistent x c p" "length (Payload p) < 2 ^ 32"
    and "fst (Encode x (Some n) c p) = Inr w" and "isInitial p \<Longrightarrow> 90 \<le> length w"
  shows "fst (Decode x d w) = Inr (wire_view p)"
proof -
  obtain p' c' where "Encode x (Some n) c p = (Inr w, p', c')"
    using assms(9) by (cases "Encode x (Some n) c p") auto
  from decode_encode [OF assms(1-8) this] assms(10) show ?thesis by (metis fst_conv)
qed

interpretation wire: packet_codec
  "\<lambda>n. Encode x (Some n)" "Decode x" "codec_wf x" codec_peer "\<lambda>n. length n = 24" "codec_fit x"
  for x
proof
  fix c d :: PacketCodec and n w :: bytes and p :: Packet
  show "codec_wf x c \<Longrightarrow> codec_wf x (snd (snd (Encode x (Some n) c p)))" by (rule Encode_wf)
  show "codec_wf x c \<Longrightarrow> codec_wf x (snd (Decode x c w))" by (rule Decode_wf)
  show "codec_peer c d \<Longrightarrow> codec_peer (snd (snd (Encode x (Some n) c p))) d" by (rule Encode_peer)
  show "codec_peer c d \<Longrightarrow> codec_peer c (snd (Decode x d w))" by (rule Decode_peer)
  show "fst (Decode x d w) = Inr (wire_view p)"
    if "codec_wf x c" "codec_wf x d" "codec_peer c d" "length n = 24" "codec_fit x c p"
      "fst (Encode x (Some n) c p) = Inr w"
    using decode_encode_fst [of x c d n p w] that by (auto simp: codec_fit_def)
qed

section \<open>Properties\<close>

text \<open>A codec for the witnesses, and a nonce the demo AEAD rejects when shifted.\<close>

definition demo_codec :: PacketCodec where
  "demo_codec = NewPacketCodec demo ''k''"

definition demo_packet :: "u8 \<Rightarrow> bytes \<Rightarrow> Packet" where
  "demo_packet t pl = \<lparr>Type = t, SeqNum = 7, AckNum = 9, Flags = 0, Payload = pl, SACKBlocks = []\<rparr>"

lemma demo_codec_wf [simp]: "codec_wf demo demo_codec"
  unfolding demo_codec_def NewPacketCodec_def by (rule NewPacketCodec_wf) simp

lemma demo_codec_off [simp]: "\<not> compression_on demo_codec"
  by (simp add: demo_codec_def NewPacketCodec_def NewPacketCodecWithConfig_def Let_def
      compression_on_def)

lemma demo_codec_peer [simp]: "codec_peer c c"
  by (simp add: codec_peer_def)

lemma demo_packet_simps [simp]:
  "Payload (demo_packet t pl) = pl" "sack_part (demo_packet t pl) = []"
  "isInitial (demo_packet t pl) = (t = 3 \<or> t = 4)" "flag_consistent x c (demo_packet t pl)"
  "SeqNum (demo_packet t pl) = 7"
  "wire_view (demo_packet t pl) = demo_packet t pl"
  by (simp_all add: demo_packet_def sack_part_def isInitial_def flag_consistent_def wire_view_def)

lemma demo_open_zero: "aead_open demo k n (0 # c) = None"
proof -
  have "hd demo_tag = 0xAA" by (simp add: demo_tag_def)
  moreover have "hd (take 16 (0 # c)) = 0" by simp
  moreover have "(0xAA :: u8) \<noteq> 0" by simp
  ultimately have "take 16 (0 # c) \<noteq> demo_tag" by metis
  then show ?thesis by (simp add: demo_def)
qed

text \<open>C2. What one end encodes, the other end, holding the same secret, DCID and compression
  configuration, decodes to the same packet: type, sequence and acknowledgement numbers,
  payload (through compression and its flag) and SACK blocks. A SYN or SYN-ACK must fill at
  least 90 bytes of datagram, which is where the length varint the encoder writes is the one
  the decoder reads.\<close>

theorem packet_roundtrip:
  assumes "aead_correct x" and "zstd_correct x"
    and "codec_wf x c" and "codec_wf x d" and "codec_peer c d"
    and "length n = 24" and "flag_consistent x c p" and "length (Payload p) < 2 ^ 32"
    and "fst (Encode x (Some n) c p) = Inr w" and "isInitial p \<Longrightarrow> 90 \<le> length w"
  shows "fst (Decode x d w) = Inr (wire_view p)"
  using assms by (rule decode_encode_fst)

theorem packet_roundtrip_witness:
  "\<exists>w. fst (Encode demo (Some (replicate 24 0)) demo_codec (demo_packet 3 (replicate 20 65))) = Inr w
     \<and> fst (Decode demo demo_codec w) = Inr (demo_packet 3 (replicate 20 65))"
proof -
  let ?p = "demo_packet 3 (replicate 20 65)" and ?n = "replicate 24 (0::u8)"
  obtain w where w: "Encode demo (Some ?n) demo_codec ?p = (Inr w, ?p, demo_codec)"
    and "length w = wire_size ?p"
    by (rule Encode_off_total [of demo demo_codec ?n ?p]) simp_all
  then show ?thesis
    using packet_roundtrip [of demo demo_codec demo_codec ?n ?p w]
    by (simp add: wire_size_def)
qed

text \<open>A SYN or SYN-ACK with fewer than 11 bytes behind its header (such as the migration
  reply of the listener) is encoded without an error, and the decoder of the peer looks for its
  payload one byte too early: it takes the packet-number byte as the first byte of the nonce
  and the last byte of the nonce as the first of the ciphertext, and loses the last byte. The
  packet is lost unless the AEAD accepts that shifted reading.\<close>

theorem short_initial_shifted:
  assumes "aead_correct x" and "codec_wf x c" and "codec_wf x d" and "codec_peer c d"
    and "length n = 24" and "\<not> compression_on c" and "isInitial p"
    and "length (Payload p) + length (sack_part p) < 11"
    and "aead_open x (sharedKey c) (ucast (SeqNum p) # butlast n)
      (last n # butlast (aead_seal x (sharedKey c) n (plaintext_of p (Payload p)))) = None"
  shows "\<exists>w. Encode x (Some n) c p = (Inr w, p, c) \<and> Decode x d w = (Inl (Err ErrDecrypt), d)"
  using short_initial [OF assms(1-8) refl] assms(9) by simp

theorem short_initial_shifted_witness:
  "\<exists>w. Encode demo (Some (replicate 24 0)) demo_codec (demo_packet 4 [79, 75])
       = (Inr w, demo_packet 4 [79, 75], demo_codec)
     \<and> Decode demo demo_codec w = (Inl (Err ErrDecrypt), demo_codec)"
proof (rule short_initial_shifted)
  show "aead_open demo (sharedKey demo_codec) (ucast (SeqNum (demo_packet 4 [79, 75]))
      # butlast (replicate 24 0)) (last (replicate 24 0)
      # butlast (aead_seal demo (sharedKey demo_codec) (replicate 24 0)
          (plaintext_of (demo_packet 4 [79, 75]) (Payload (demo_packet 4 [79, 75]))))) = None"
    by (simp add: demo_open_zero)
qed simp_all

text \<open>\<^verbatim>\<open>Encode\<close> without compression is total: it fails only by the panic on a payload
  that does not fit the 2048-byte buffer, else gives a datagram of the payload, the SACK blocks
  and 62 bytes (79 for SYN and SYN-ACK), and leaves packet and codec as they were. Every
  payload up to \<^verbatim>\<open>MaxPayloadSize\<close> fits.\<close>

theorem encode_total:
  assumes "aead_correct x" and "codec_wf x c" and "\<not> compression_on c" and "length n = 24"
  shows "Encode x (Some n) c p =
      (if 2036 < length (Payload p) + length (sack_part p) then (Inl Panic, p, c)
       else (fst (Encode x (Some n) c p), p, c))
    \<and> (length (Payload p) + length (sack_part p) \<le> 2036 \<longrightarrow>
        (\<exists>w. fst (Encode x (Some n) c p) = Inr w \<and> length w = wire_size p))"
proof (cases "2036 < length (Payload p) + length (sack_part p)")
  case True
  then show ?thesis using assms by (simp add: Encode_off seal_wire_total codec_wf_def)
next
  case False
  then have "length (Payload p) + length (sack_part p) \<le> 2036" by simp
  from Encode_off_total [OF assms this] show ?thesis using False by (metis fst_conv)
qed

theorem encode_total_witness:
  "\<exists>w. fst (Encode demo (Some (replicate 24 0)) demo_codec (demo_packet 1 (replicate 1200 5)))
       = Inr w \<and> length w = 1262"
  using encode_total [of demo demo_codec "replicate 24 0" "demo_packet 1 (replicate 1200 5)"]
  by (simp add: wire_size_def)



text \<open>Whatever arrives, a codec without compression neither panics nor changes: every
  malformed datagram is an error value.\<close>

theorem decode_no_panic:
  assumes "\<not> compression_on d"
  shows "fst (Decode x d w) \<noteq> Inl Panic \<and> snd (Decode x d w) = d"
  using assms by (rule Decode_off)

theorem decode_no_panic_witness:
  "fst (Decode demo demo_codec (replicate 40 0xC0)) \<noteq> Inl Panic"
  using decode_no_panic [of demo_codec demo "replicate 40 0xC0"] by simp

text \<open>DCID rotation is not negotiated: once one side has rotated to a different DCID,
  every packet the other side encodes is rejected.\<close>

theorem rotation_rejects:
  assumes "digests_correct x" and "codec_wf x c" and "length n = 24"
    and "dcid (rotateDCID x d) \<noteq> dcid c"
    and "fst (Encode x (Some n) c p) = Inr w"
  shows "Decode x (rotateDCID x d) w = (Inl (Err ErrDcidMismatch), rotateDCID x d)"
proof -
  obtain p' c' where "Encode x (Some n) c p = (Inr w, p', c')"
    using assms(5) by (cases "Encode x (Some n) c p") auto
  then show ?thesis by (rule decode_mismatch [OF assms(2,4,3)])
qed

theorem rotation_rejects_witness:
  "\<exists>w. Decode demo (rotateDCID demo demo_codec) w
     = (Inl (Err ErrDcidMismatch), rotateDCID demo demo_codec)"
proof -
  let ?p = "demo_packet 1 [1]" and ?n = "replicate 24 (0::u8)"
  obtain w where "Encode demo (Some ?n) demo_codec ?p = (Inr w, ?p, demo_codec)"
    by (rule Encode_off_total [of demo demo_codec ?n ?p]) simp_all
  moreover have "dcid (rotateDCID demo demo_codec) \<noteq> dcid demo_codec"
    by (simp add: rotateDCID_def demo_codec_def NewPacketCodec_def NewPacketCodecWithConfig_def
        demo_def demo_digest_def Let_def bytes_of_string_def numeral_eq_Suc)
  ultimately show ?thesis
    using rotation_rejects [of demo demo_codec ?n demo_codec ?p w] by auto
qed

text \<open>A codec is well-formed from its construction (32-byte key, 8-byte ids, a compressor
  only ever the one its configuration asks for) and stays so through encoding, decoding,
  rotation and closing, failures included.\<close>

theorem codec_invariant:
  assumes "digests_correct x"
  shows "codec_wf x (NewPacketCodecWithConfig x cfg)
    \<and> (codec_wf x c \<longrightarrow> codec_wf x (snd (snd (Encode x nonce c p)))
         \<and> codec_wf x (snd (Decode x c w)) \<and> codec_wf x (rotateDCID x c)
         \<and> codec_wf x (Codec_Close c))"
  using assms NewPacketCodec_wf Encode_wf Decode_wf rotateDCID_wf Codec_Close_wf by blast

theorem codec_invariant_witness:
  "codec_wf demo (rotateDCID demo demo_codec)"
  using codec_invariant [of demo _ demo_codec] by simp

text \<open>The varints of the long header: values from 64 to 16383 are read back in two bytes,
  a value below 64 is read back from the first of the two bytes written, and a larger value
  loses its high bits.\<close>

theorem varint_roundtrip:
  "decodeVarint (encodeVarint v @ r) = (if v < 64 then (v, 1) else (v AND 0x3FFF, 2))"
  by (rule varint_roundtrip_lemma)

text \<open>A whole sequence of packets: whatever datagrams one end encodes of it, one after the
  other, the other end decodes to the same packets in the same order, the compressor state of
  both ends carried along.\<close>

theorem packet_stream_roundtrip:
  assumes "aead_correct x" and "zstd_correct x"
    and "codec_wf x c" and "codec_wf x d" and "codec_peer c d"
    and "list_all (\<lambda>n. length n = 24) ns"
    and "\<forall>p\<in>set ps. Flags p AND FlagCompressed = 0 \<and> \<not> isInitial p \<and> length (Payload p) < 2 ^ 32"
    and "enc_all (\<lambda>n. Encode x (Some n)) ns c ps = Some ws"
  shows "dec_all (Decode x) d ws = map (Inr \<circ> wire_view) ps"
  by (rule wire.dec_enc_all [OF assms(3-6) _ assms(8)])
     (use assms(1,2,7) in \<open>simp add: codec_fit_def flag_consistent_def\<close>)

theorem packet_stream_roundtrip_witness:
  "\<exists>ws. enc_all (\<lambda>n. Encode demo (Some n)) [replicate 24 0] demo_codec [demo_packet 1 [1]] = Some ws
     \<and> dec_all (Decode demo) demo_codec ws = [Inr (demo_packet 1 [1])]"
proof -
  let ?p = "demo_packet 1 [1]" and ?n = "replicate 24 (0::u8)"
  obtain w where "Encode demo (Some ?n) demo_codec ?p = (Inr w, ?p, demo_codec)"
    by (rule Encode_off_total [of demo demo_codec ?n ?p]) simp_all
  then have "enc_all (\<lambda>n. Encode demo (Some n)) [?n] demo_codec [?p] = Some [w]" by simp
  moreover from this have "dec_all (Decode demo) demo_codec [w] = [Inr ?p]"
    using packet_stream_roundtrip [of demo demo_codec demo_codec "[?n]" "[?p]" "[w]"]
    by (simp add: demo_packet_def isInitial_def wire_view_def)
  ultimately show ?thesis by blast
qed

end
