(* ===== verification/Pacer.thy ===== *)
theory Pacer
  imports Prelude
begin

text \<open>
  The token bucket that paces outgoing packets (\<^verbatim>\<open>pkg/mtp/pacer.go\<close>). Every operation takes
  the clock reading \<^verbatim>\<open>time.Now()\<close> gives it and the rounding \<open>fl\<close> of its float64 arithmetic.
\<close>

record Pacer =
  tokens :: rat
  maxTokens :: int
  refillRate :: rat \<comment> \<open>packets per second\<close>
  lastRefill :: int
  pacer_stopped :: bool \<comment> \<open>stopCh has been closed\<close>

definition NewPacer :: "(rat \<Rightarrow> rat) \<Rightarrow> int \<Rightarrow> int \<Rightarrow> int \<Rightarrow> Pacer" where
  "NewPacer fl now rate burst =
     \<lparr> tokens = fl (of_int burst), maxTokens = burst, refillRate = fl (of_int rate),
       lastRefill = now, pacer_stopped = False \<rparr>"

definition tryConsume :: "(rat \<Rightarrow> rat) \<Rightarrow> int \<Rightarrow> Pacer \<Rightarrow> bool \<times> Pacer" where
  "tryConsume fl now p =
     (let elapsed = Seconds fl (now - lastRefill p);
          t = fl (tokens p + fl (elapsed * refillRate p));
          t = (if fl (of_int (maxTokens p)) < t then fl (of_int (maxTokens p)) else t)
      in if 1 \<le> t then (True, p\<lparr>tokens := fl (t - 1), lastRefill := now\<rparr>)
         else (False, p\<lparr>tokens := t, lastRefill := now\<rparr>))"

text \<open>
  \<^verbatim>\<open>Wait\<close> polls. Its environment is the list of its iterations: the clock reading, and whether
  the stop channel is closed by the time it is looked at. \<open>None\<close>: still polling at the end of
  the list.
\<close>

fun Wait :: "(rat \<Rightarrow> rat) \<Rightarrow> (int \<times> bool) list \<Rightarrow> Pacer \<Rightarrow> Pacer option" where
  "Wait fl [] p = None"
| "Wait fl ((now, stop) # polls) p =
     (case tryConsume fl now p of
        (True, p') \<Rightarrow> Some p'
      | (False, p') \<Rightarrow>
          let p'' = p'\<lparr>pacer_stopped := pacer_stopped p' \<or> stop\<rparr>
          in if pacer_stopped p'' then Some p'' else Wait fl polls p'')"

definition Pacer_Close :: "Pacer \<Rightarrow> Pacer" where
  "Pacer_Close p = (if pacer_stopped p then p else p\<lparr>pacer_stopped := True\<rparr>)"

definition SetRate :: "(rat \<Rightarrow> rat) \<Rightarrow> int \<Rightarrow> Pacer \<Rightarrow> Pacer" where
  "SetRate fl rate p = p\<lparr>refillRate := fl (of_int rate)\<rparr>"

definition SetBurst :: "(rat \<Rightarrow> rat) \<Rightarrow> int \<Rightarrow> Pacer \<Rightarrow> Pacer" where
  "SetBurst fl burst p =
     (let p = p\<lparr>maxTokens := burst\<rparr>
      in if fl (of_int burst) < tokens p then p\<lparr>tokens := fl (of_int burst)\<rparr> else p)"

definition GetTokens :: "Pacer \<Rightarrow> rat" where
  "GetTokens p = tokens p"

section \<open>The contract of a rate limiter\<close>

text \<open>
  A limiter grants or refuses at a clock reading, and keeps a level that a grant lowers by one
  and that rises between two readings by at most what \<open>refill\<close> says. The number of grants is
  then bounded by the level at the start and the refill over the whole time, whatever the
  readings.
\<close>

locale rate_limiter =
  fixes grant :: "int \<Rightarrow> 'p \<Rightarrow> bool \<times> 'p"
    and level :: "'p \<Rightarrow> rat"
    and clock :: "'p \<Rightarrow> int"
    and refill :: "int \<Rightarrow> 'p \<Rightarrow> rat"
    and good :: "'p \<Rightarrow> bool"
  assumes grant_good: "good p \<Longrightarrow> clock p \<le> t \<Longrightarrow> good (snd (grant t p))"
    and grant_clock: "good p \<Longrightarrow> clock p \<le> t \<Longrightarrow> clock (snd (grant t p)) = t"
    and grant_level: "good p \<Longrightarrow> clock p \<le> t \<Longrightarrow>
      level (snd (grant t p)) + (if fst (grant t p) then 1 else 0) \<le> level p + refill (t - clock p) p"
    and level_nonneg: "good p \<Longrightarrow> 0 \<le> level p"
    and refill_add: "0 \<le> a \<Longrightarrow> 0 \<le> b \<Longrightarrow> good p \<Longrightarrow> clock p \<le> t \<Longrightarrow>
      refill a p + refill b (snd (grant t p)) = refill (a + b) p"
    and refill_zero: "good p \<Longrightarrow> refill 0 p = 0"

text \<open>The grants a limiter gives over a list of readings.\<close>

fun grants :: "(int \<Rightarrow> 'p \<Rightarrow> bool \<times> 'p) \<Rightarrow> int list \<Rightarrow> 'p \<Rightarrow> nat" where
  "grants grant [] p = 0"
| "grants grant (t # ts) p =
     (case grant t p of (g, p') \<Rightarrow> (if g then 1 else 0) + grants grant ts p')"

context rate_limiter
begin

lemma grants_bounded:
  assumes "good p" and "sorted (clock p # ts)"
  shows "of_nat (grants grant ts p) \<le> level p + refill (last (clock p # ts) - clock p) p"
  using assms
proof (induction ts arbitrary: p)
  case Nil
  then show ?case using level_nonneg refill_zero by simp
next
  case (Cons t ts)
  obtain g p' where g: "grant t p = (g, p')" by fastforce
  have t: "clock p \<le> t" and s: "sorted (t # ts)" using Cons.prems(2) by auto
  have p': "good p'" "clock p' = t"
    using grant_good [OF Cons.prems(1) t] grant_clock [OF Cons.prems(1) t] g by simp_all
  have "t \<le> last (t # ts)" using s by (cases ts) (auto simp: sorted_wrt_append)
  then have "refill (t - clock p) p + refill (last (t # ts) - t) p'
      = refill (last (t # ts) - clock p) p"
    using refill_add [of "t - clock p" "last (t # ts) - t" p t] Cons.prems(1) t g by simp
  moreover have "of_nat (grants grant ts p') \<le> level p' + refill (last (t # ts) - t) p'"
    using Cons.IH [OF p'(1)] p'(2) s by simp
  moreover have "level p' + (if g then 1 else 0) \<le> level p + refill (t - clock p) p"
    using grant_level [OF Cons.prems(1) t] g by simp
  ultimately show ?case using g by auto
qed

end

section \<open>Lemmas\<close>

definition pacer_wf :: "(rat \<Rightarrow> rat) \<Rightarrow> Pacer \<Rightarrow> bool" where
  "pacer_wf fl p \<longleftrightarrow> 0 \<le> tokens p \<and> tokens p \<le> of_int (maxTokens p)
     \<and> 0 \<le> maxTokens p \<and> maxTokens p \<le> 2 ^ 53 \<and> 0 \<le> refillRate p"

lemma NewPacer_wf:
  "float_rounding fl \<Longrightarrow> 0 \<le> rate \<Longrightarrow> 0 \<le> burst \<Longrightarrow> burst \<le> 2 ^ 53 \<Longrightarrow>
    pacer_wf fl (NewPacer fl now rate burst)"
  by (simp add: NewPacer_def pacer_wf_def fl_int fl_nonneg)

lemma tryConsume_wf:
  assumes "float_rounding fl" and "pacer_wf fl p" and "lastRefill p \<le> now"
  shows "pacer_wf fl (snd (tryConsume fl now p))"
proof -
  let ?t = "fl (tokens p + fl (Seconds fl (now - lastRefill p) * refillRate p))"
  have m: "fl (of_int (maxTokens p)) = of_int (maxTokens p)"
    using assms by (simp add: pacer_wf_def fl_int)
  have t0: "0 \<le> ?t"
    using assms by (intro fl_nonneg [OF assms(1)] add_nonneg_nonneg mult_nonneg_nonneg Seconds_nonneg)
      (simp_all add: pacer_wf_def)
  have "0 \<le> fl (min ?t (of_int (maxTokens p)) - 1)
      \<and> fl (min ?t (of_int (maxTokens p)) - 1) \<le> of_int (maxTokens p)"
    if "1 \<le> min ?t (of_int (maxTokens p))"
  proof
    show "0 \<le> fl (min ?t (of_int (maxTokens p)) - 1)"
      using that by (intro fl_nonneg [OF assms(1)]) simp
    show "fl (min ?t (of_int (maxTokens p)) - 1) \<le> of_int (maxTokens p)"
      using fl_mono [OF assms(1), of "min ?t (of_int (maxTokens p)) - 1" "of_int (maxTokens p)"] m
      by simp
  qed
  with t0 m assms(2) show ?thesis
    by (auto simp: tryConsume_def Let_def pacer_wf_def min_def split: if_splits)
qed

lemma tryConsume_fields [simp]:
  "lastRefill (snd (tryConsume fl now p)) = now"
  "maxTokens (snd (tryConsume fl now p)) = maxTokens p"
  "refillRate (snd (tryConsume fl now p)) = refillRate p"
  "pacer_stopped (snd (tryConsume fl now p)) = pacer_stopped p"
  by (simp_all add: tryConsume_def Let_def)

lemma SetRate_wf:
  "float_rounding fl \<Longrightarrow> pacer_wf fl p \<Longrightarrow> 0 \<le> rate \<Longrightarrow> pacer_wf fl (SetRate fl rate p)"
  by (simp add: SetRate_def pacer_wf_def fl_nonneg)

lemma SetBurst_wf:
  "float_rounding fl \<Longrightarrow> pacer_wf fl p \<Longrightarrow> 0 \<le> burst \<Longrightarrow> burst \<le> 2 ^ 53 \<Longrightarrow>
    pacer_wf fl (SetBurst fl burst p)"
  by (simp add: SetBurst_def pacer_wf_def Let_def fl_int not_less)

lemma Pacer_Close_wf: "pacer_wf fl p \<Longrightarrow> pacer_wf fl (Pacer_Close p)"
  by (simp add: Pacer_Close_def pacer_wf_def)

lemma Wait_wf:
  assumes "float_rounding fl"
  shows "pacer_wf fl p \<Longrightarrow> sorted (lastRefill p # map fst polls) \<Longrightarrow> Wait fl polls p = Some p'
    \<Longrightarrow> pacer_wf fl p'"
proof (induction polls arbitrary: p)
  case (Cons poll polls)
  obtain now stop where poll: "poll = (now, stop)" by (cases poll)
  have wf: "pacer_wf fl (snd (tryConsume fl now p))"
    using tryConsume_wf [OF assms] Cons.prems poll by simp
  have wf': "pacer_wf fl (q\<lparr>pacer_stopped := b\<rparr>) = pacer_wf fl q" for q b
    by (simp add: pacer_wf_def)
  obtain g q where q: "tryConsume fl now p = (g, q)" by fastforce
  then have "lastRefill q = now" using tryConsume_fields(1) [of fl now p] by simp
  with Cons.prems Cons.IH [of "q\<lparr>pacer_stopped := pacer_stopped q \<or> stop\<rparr>"] wf wf' q poll
  show ?case by (auto simp: Let_def split: if_splits bool.splits)
qed simp

interpretation bucket: rate_limiter
  "tryConsume (\<lambda>r. r)" tokens lastRefill
  "\<lambda>d p. of_int d / 1000000000 * refillRate p" "pacer_wf (\<lambda>r. r)"
proof
  fix p :: Pacer and t a b :: int
  assume wf: "pacer_wf (\<lambda>r. r) p"
  { assume t: "lastRefill p \<le> t"
    show "pacer_wf (\<lambda>r. r) (snd (tryConsume (\<lambda>r. r) t p))"
      using tryConsume_wf [OF float_rounding_id wf t] .
    show "lastRefill (snd (tryConsume (\<lambda>r. r) t p)) = t" by simp
    show "tokens (snd (tryConsume (\<lambda>r. r) t p)) + (if fst (tryConsume (\<lambda>r. r) t p) then 1 else 0)
        \<le> tokens p + of_int (t - lastRefill p) / 1000000000 * refillRate p"
      using Seconds_exact [of "t - lastRefill p"] t
      by (auto simp only: tryConsume_def Let_def split: if_split) simp_all
    show "of_int a / 1000000000 * refillRate p
        + of_int b / 1000000000 * refillRate (snd (tryConsume (\<lambda>r. r) t p))
        = of_int (a + b) / 1000000000 * refillRate p"
      by (simp add: field_simps) }
  show "0 \<le> tokens p" using wf by (simp add: pacer_wf_def)
  show "of_int 0 / 1000000000 * refillRate p = 0" by simp
qed

lemma tryConsume_granted:
  assumes "float_rounding fl" and "pacer_wf fl p" and "lastRefill p + 1000000000 \<le> now"
    and "now - lastRefill p \<le> 2 ^ 53" and "1 \<le> refillRate p" and "1 \<le> maxTokens p"
  shows "fst (tryConsume fl now p)"
proof -
  let ?d = "now - lastRefill p"
  have "1 \<le> ?d sdiv 1000000000" using assms(3) by (simp add: sdiv_nonneg)
  moreover have "?d sdiv 1000000000 \<le> 2 ^ 53" using assms(3,4) by (simp add: sdiv_nonneg)
  ultimately have "1 \<le> fl (of_int (?d sdiv 1000000000))"
    using fl_int [OF assms(1), of "?d sdiv 1000000000"] by simp
  moreover have "0 \<le> fl (fl (of_int (?d smod 1000000000)) / 1000000000)"
    using assms(3) by (intro fl_nonneg [OF assms(1)] divide_nonneg_nonneg) (simp_all add: smod_nonneg)
  ultimately have "1 \<le> Seconds fl ?d"
    unfolding Seconds_def using fl_mono [OF assms(1), of 1] assms(1) by simp
  then have "1 \<le> Seconds fl ?d * refillRate p"
    using assms(5) mult_mono [of 1 "Seconds fl ?d" 1 "refillRate p"] by simp
  then have "1 \<le> fl (Seconds fl ?d * refillRate p)"
    using fl_mono [OF assms(1), of 1] assms(1) by simp
  then have "1 \<le> fl (tokens p + fl (Seconds fl ?d * refillRate p))"
    using fl_mono [OF assms(1), of 1] assms(1,2) by (simp add: pacer_wf_def)
  moreover have "1 \<le> fl (of_int (maxTokens p))"
    using assms(2,6) fl_int [OF assms(1), of "maxTokens p"] by (simp add: pacer_wf_def)
  ultimately show ?thesis by (simp add: tryConsume_def Let_def)
qed

lemma tryConsume_granted_ms:
  assumes "pacer_wf (\<lambda>r. r) p" and "lastRefill p + 1000000 \<le> now"
    and "1000 \<le> refillRate p" and "1 \<le> maxTokens p"
  shows "fst (tryConsume (\<lambda>r. r) now p)"
proof -
  have "(1000000 :: rat) \<le> of_int (now - lastRefill p)" using assms(2) by linarith
  then have "1 / 1000 \<le> Seconds (\<lambda>r. r) (now - lastRefill p)"
    using assms(2) by (simp add: Seconds_exact)
  then have "1 \<le> Seconds (\<lambda>r. r) (now - lastRefill p) * refillRate p"
    using assms(3) mult_mono [of "1/1000" "Seconds (\<lambda>r. r) (now - lastRefill p)" 1000 "refillRate p"]
    by simp
  with assms(1,4) show ?thesis by (auto simp: tryConsume_def Let_def pacer_wf_def)
qed

section \<open>Properties\<close>

text \<open>The bucket never holds a negative number of tokens nor more than its burst size:
  construction, consumption at clock readings that do not go back, whole waits, and changes of
  rate and burst keep it so, under every float64 rounding.\<close>

theorem pacer_invariant:
  assumes "float_rounding fl" and "0 \<le> rate" and "0 \<le> burst" and "burst \<le> 2 ^ 53"
  shows "pacer_wf fl (NewPacer fl now rate burst)
    \<and> (pacer_wf fl p \<longrightarrow>
         (lastRefill p \<le> now \<longrightarrow> pacer_wf fl (snd (tryConsume fl now p)))
       \<and> (sorted (lastRefill p # map fst polls) \<and> Wait fl polls p = Some p' \<longrightarrow> pacer_wf fl p')
       \<and> pacer_wf fl (SetRate fl rate p) \<and> pacer_wf fl (SetBurst fl burst p)
       \<and> pacer_wf fl (Pacer_Close p))"
  using NewPacer_wf [OF assms] tryConsume_wf [OF assms(1), of p now]
    Wait_wf [OF assms(1), of p polls p'] SetRate_wf [OF assms(1) _ assms(2), of p]
    SetBurst_wf [OF assms(1) _ assms(3,4), of p] Pacer_Close_wf [of fl p]
  by auto

theorem pacer_invariant_witness:
  "pacer_wf (\<lambda>r. r) (SetBurst (\<lambda>r. r) 8 (NewPacer (\<lambda>r. r) 0 10000 64))"
proof -
  have "pacer_wf (\<lambda>r. r) (NewPacer (\<lambda>r. r) 0 10000 64)"
    using pacer_invariant [of "\<lambda>r. r" 10000 64] by auto
  then show ?thesis
    using pacer_invariant [of "\<lambda>r. r" 10000 8 0 "NewPacer (\<lambda>r. r) 0 10000 64"] by auto
qed

text \<open>The rate limit: over any sequence of clock readings, the tokens granted are at most
  those in the bucket at the start and the refill rate times the time that passed (in exact
  arithmetic).\<close>

theorem pacer_rate_limit:
  assumes "pacer_wf (\<lambda>r. r) p" and "sorted (lastRefill p # ts)"
  shows "of_nat (grants (tryConsume (\<lambda>r. r)) ts p)
    \<le> tokens p + of_int (last (lastRefill p # ts) - lastRefill p) / 1000000000 * refillRate p"
  using assms by (rule bucket.grants_bounded)

theorem pacer_rate_limit_witness:
  "of_nat (grants (tryConsume (\<lambda>r. r)) [1000000, 3000000] (NewPacer (\<lambda>r. r) 0 1000 8)) \<le> (11 :: rat)"
  using pacer_rate_limit [of "NewPacer (\<lambda>r. r) 0 1000 8" "[1000000, 3000000]"]
    NewPacer_wf [of "\<lambda>r. r" 1000 8 0]
  by (simp add: NewPacer_def)

text \<open>\<^verbatim>\<open>Wait\<close> returns: at the rates the congestion control sets (1000 packets a second or
  more) the poll after a sleep of one millisecond is granted a token (in exact arithmetic), and
  a poll that finds the pacer closed returns too.\<close>

theorem pacer_wait_returns:
  assumes "pacer_wf (\<lambda>r. r) p" and "lastRefill p \<le> t1" and "t1 + 1000000 \<le> t2"
    and "1000 \<le> refillRate p" and "1 \<le> maxTokens p"
  shows "\<exists>p'. Wait (\<lambda>r. r) [(t1, s1), (t2, s2)] p = Some p'
    \<and> (pacer_stopped p' \<longrightarrow> pacer_stopped p \<or> s1 \<or> s2)"
proof -
  obtain g q where q: "tryConsume (\<lambda>r. r) t1 p = (g, q)" by fastforce
  have qf: "lastRefill q = t1" "refillRate q = refillRate p" "maxTokens q = maxTokens p"
    "pacer_stopped q = pacer_stopped p" "pacer_wf (\<lambda>r. r) q"
    using tryConsume_fields [of "\<lambda>r. r" t1 p] tryConsume_wf [OF float_rounding_id assms(1,2)] q
    by simp_all
  let ?q = "q\<lparr>pacer_stopped := pacer_stopped q \<or> s1\<rparr>"
  have "fst (tryConsume (\<lambda>r. r) t2 ?q)"
    using qf assms(3-5) by (intro tryConsume_granted_ms) (simp_all add: pacer_wf_def)
  then obtain r where r: "tryConsume (\<lambda>r. r) t2 ?q = (True, r)"
    by (metis prod.collapse)
  then have "pacer_stopped r \<longleftrightarrow> pacer_stopped q \<or> s1"
    using tryConsume_fields(4) [of "\<lambda>r. r" t2 ?q] by simp
  with q r qf show ?thesis by (cases g) (auto simp: Let_def)
qed

theorem pacer_wait_returns_witness:
  "\<exists>p'. Wait (\<lambda>r. r) [(0, False), (1000000, False)]
     ((NewPacer (\<lambda>r. r) 0 1000 8)\<lparr>tokens := 0\<rparr>) = Some p'"
  using pacer_wait_returns [of "(NewPacer (\<lambda>r. r) 0 1000 8)\<lparr>tokens := 0\<rparr>" 0 1000000 False False]
  by (auto simp: NewPacer_def pacer_wf_def)

end
