(* ===== verification/Fec.thy ===== *)
theory Fec
  imports Externals
begin

text \<open>
  Forward error correction (\<^verbatim>\<open>pkg/mtp/fec.go\<close>, and its configuration from
  \<^verbatim>\<open>pkg/mtp/arq.go\<close>): the encoder that groups outgoing payloads into shards and emits parity,
  the decoder that groups what arrives and reconstructs what is missing, and the goroutines
  that hand new configurations to both. A callback (\<^verbatim>\<open>onParity\<close>, \<^verbatim>\<open>onRecover\<close>) is a list of
  its calls, returned; \<open>None\<close> is a run-time panic (index or slice out of range, division by
  zero). A reedsolomon.Encoder is the pair of its shard counts.
\<close>

section \<open>Configuration\<close>

record FECConfig =
  DataShards :: int
  ParityShards :: int
  AutoAdjust :: bool
  PacketLoss :: rat

definition NewFECConfig :: FECConfig where
  "NewFECConfig = \<lparr>DataShards = 8, ParityShards = 2, AutoAdjust = True, PacketLoss = 0\<rparr>"

definition GetAdjusted :: "(rat \<Rightarrow> rat) \<Rightarrow> FECConfig \<Rightarrow> rat \<Rightarrow> FECConfig" where
  "GetAdjusted fl c loss =
     (let new = c\<lparr>PacketLoss := loss\<rparr>
      in if \<not> AutoAdjust new then new
         else if loss < fl (5 / 1000) then new\<lparr>DataShards := 32, ParityShards := 1\<rparr>
         else if loss < fl (2 / 100) then new\<lparr>DataShards := 24, ParityShards := 2\<rparr>
         else if loss < fl (5 / 100) then new\<lparr>DataShards := 16, ParityShards := 2\<rparr>
         else if loss < fl (10 / 100) then new\<lparr>DataShards := 12, ParityShards := 3\<rparr>
         else new\<lparr>DataShards := 8, ParityShards := 4\<rparr>)"

definition same_shape :: "FECConfig \<Rightarrow> FECConfig \<Rightarrow> bool" where
  "same_shape a b \<longleftrightarrow> DataShards a = DataShards b \<and> ParityShards a = ParityShards b"

definition FECMaxPayload :: nat where "FECMaxPayload = 1200"

section \<open>Encoder\<close>

record FecEncoder =
  fe_encoder :: "int \<times> int"
  fe_shards :: "bytes list"
  dataCount :: nat
  fe_startSeq :: u32
  flushTimer :: bool
  fe_config :: FECConfig
  fe_configCh :: "FECConfig list" \<comment> \<open>capacity 1\<close>

definition NewFecEncoder :: "externals \<Rightarrow> FECConfig option \<Rightarrow> FecEncoder option" where
  "NewFecEncoder x config =
     (let cfg = (case config of None \<Rightarrow> NewFECConfig | Some c \<Rightarrow> c)
      in if rs_new x (DataShards cfg) (ParityShards cfg)
         then Some \<lparr> fe_encoder = (DataShards cfg, ParityShards cfg), fe_shards = [],
                dataCount = 0, fe_startSeq = 0, flushTimer = False, fe_config = cfg,
                fe_configCh = [] \<rparr>
         else None)"

text \<open>One iteration of \<^verbatim>\<open>FecEncoder.configLoop\<close>, on the configuration received.\<close>

definition enc_configure :: "externals \<Rightarrow> FECConfig \<Rightarrow> FecEncoder \<Rightarrow> FecEncoder" where
  "enc_configure x new f =
     (if \<not> same_shape new (fe_config f)
      then (if rs_new x (DataShards new) (ParityShards new)
            then f\<lparr> fe_encoder := (DataShards new, ParityShards new), fe_config := new,
                    dataCount := 0, fe_shards := [] \<rparr>
            else f)
      else f\<lparr>fe_config := new\<rparr>)"

text \<open>reedsolomon's \<^verbatim>\<open>Encode\<close>: the shards with the parity filled in, \<open>None\<close> for its error.\<close>

definition rs_encode :: "externals \<Rightarrow> int \<times> int \<Rightarrow> bytes list \<Rightarrow> bytes list option" where
  "rs_encode x shape shards =
     (let d = nat (fst shape); p = nat (snd shape)
      in if length shards \<noteq> d + p then None
         else case rs_parity x d p (take d shards) of
                None \<Rightarrow> None | Some par \<Rightarrow> Some (take d shards @ par))"

definition flushLocked ::
  "externals \<Rightarrow> FecEncoder \<Rightarrow> (FecEncoder \<times> (u32 \<times> u8 \<times> bytes) list) option" where
  "flushLocked x f =
     (if dataCount f = 0 then Some (f, [])
      else let f = f\<lparr>flushTimer := False\<rparr>;
               d = nat (DataShards (fe_config f)); p = nat (ParityShards (fe_config f))
      in if length (fe_shards f) < d + p then Some (f\<lparr>dataCount := 0\<rparr>, [])
      else case rs_encode x (fe_encoder f) (fe_shards f) of
             None \<Rightarrow> Some (f\<lparr>dataCount := 0\<rparr>, [])
           | Some shards \<Rightarrow>
               if length shards < d + p then None
               else Some (f\<lparr>dataCount := 0, fe_shards := shards\<rparr>,
                          map (\<lambda>i. (fe_startSeq f, of_nat i, shards ! (d + i))) [0..<p]))"

text \<open>The 50 ms timer of an open group fires.\<close>

definition flush :: "externals \<Rightarrow> FecEncoder \<Rightarrow> (FecEncoder \<times> (u32 \<times> u8 \<times> bytes) list) option" where
  "flush x f = flushLocked x f"

text \<open>The shard of a payload: its 16-bit length and as much of it as fits.\<close>

definition fill_shard :: "bytes \<Rightarrow> bytes \<Rightarrow> bytes" where
  "fill_shard shard payload =
     put_be16 (of_nat (length payload)) @ go_copy (drop 2 shard) payload"

definition AddDataPacket ::
  "externals \<Rightarrow> u32 \<Rightarrow> bytes \<Rightarrow> FecEncoder \<Rightarrow> (FecEncoder \<times> (u32 \<times> u8 \<times> bytes) list) option" where
  "AddDataPacket x seq payload f =
     (let f = (if dataCount f = 0
               then f\<lparr> fe_startSeq := seq,
                       fe_shards := replicate (nat (DataShards (fe_config f) + ParityShards (fe_config f)))
                         (replicate FECMaxPayload 0),
                       flushTimer := True \<rparr>
               else f)
      in if length (fe_shards f) \<le> dataCount f then None
         else let f = f\<lparr> fe_shards := (fe_shards f)[dataCount f :=
                           fill_shard (fe_shards f ! dataCount f) payload],
                         dataCount := dataCount f + 1 \<rparr>
              in if DataShards (fe_config f) \<le> int (dataCount f) then flushLocked x f
                 else Some (f, []))"

section \<open>Decoder\<close>

record FecGroup =
  g_startSeq :: u32
  g_shards :: "bytes option list"
  received :: int
  g_timer :: bool \<comment> \<open>the 200 ms timer is running\<close>

record FecDecoder =
  fd_encoder :: "int \<times> int"
  groups :: "(u32, FecGroup) gomap"
  fd_config :: FECConfig
  fd_configCh :: "FECConfig list"

definition NewFecDecoder :: "externals \<Rightarrow> FECConfig option \<Rightarrow> FecDecoder option" where
  "NewFecDecoder x config =
     (let cfg = (case config of None \<Rightarrow> NewFECConfig | Some c \<Rightarrow> c)
      in if rs_new x (DataShards cfg) (ParityShards cfg)
         then Some \<lparr> fd_encoder = (DataShards cfg, ParityShards cfg), groups = [],
                fd_config = cfg, fd_configCh = [] \<rparr>
         else None)"

definition dec_configure :: "externals \<Rightarrow> FECConfig \<Rightarrow> FecDecoder \<Rightarrow> FecDecoder" where
  "dec_configure x new f =
     (if \<not> same_shape new (fd_config f)
      then (if rs_new x (DataShards new) (ParityShards new)
            then f\<lparr> fd_encoder := (DataShards new, ParityShards new), fd_config := new,
                    groups := [] \<rparr>
            else f)
      else f\<lparr>fd_config := new\<rparr>)"

definition getOrCreateGroup :: "u32 \<Rightarrow> FecDecoder \<Rightarrow> FecGroup \<times> FecDecoder" where
  "getOrCreateGroup startSeq f =
     (case map_of (groups f) startSeq of
        Some g \<Rightarrow> (g, f)
      | None \<Rightarrow>
          let g = \<lparr> g_startSeq = startSeq,
                    g_shards = replicate (nat (DataShards (fd_config f) + ParityShards (fd_config f))) None,
                    received = 0, g_timer = True \<rparr>
          in (g, f\<lparr>groups := AList.update startSeq g (groups f)\<rparr>))"

text \<open>The 200 ms timer of a group fires.\<close>

definition group_timeout :: "u32 \<Rightarrow> FecDecoder \<Rightarrow> FecDecoder" where
  "group_timeout startSeq f = f\<lparr>groups := AList.delete startSeq (groups f)\<rparr>"

text \<open>The payload a reconstructed shard holds, if it is handed to \<^verbatim>\<open>onRecover\<close>:
  \<open>None\<close> a panic, \<open>Some None\<close> a shard passed over.\<close>

definition shard_payload :: "bytes \<Rightarrow> bytes option option" where
  "shard_payload shard =
     (if length shard < 2 then None
      else let n = unat (get_be16 shard)
           in if 0 < n \<and> n \<le> FECMaxPayload - 2
              then (if length shard < 2 + n then None else Some (Some (take n (drop 2 shard))))
              else Some None)"

fun recover_shards :: "u32 \<Rightarrow> bytes option list \<Rightarrow> (u32 \<times> bytes) list option" where
  "recover_shards seq [] = Some []"
| "recover_shards seq (None # shards) = recover_shards (seq + 1) shards"
| "recover_shards seq (Some shard # shards) =
     (case shard_payload shard of
        None \<Rightarrow> None
      | Some pl \<Rightarrow>
          (case recover_shards (seq + 1) shards of
             None \<Rightarrow> None
           | Some rest \<Rightarrow> Some (case pl of None \<Rightarrow> rest | Some b \<Rightarrow> (seq, b) # rest)))"

text \<open>\<open>g\<close> has just been stored in the map; reedsolomon's \<^verbatim>\<open>Reconstruct\<close> fails on a slice of
  the wrong number of shards.\<close>

definition checkRecover ::
  "externals \<Rightarrow> FecGroup \<Rightarrow> FecDecoder \<Rightarrow> (FecDecoder \<times> (u32 \<times> bytes) list) option" where
  "checkRecover x g f =
     (let d = nat (DataShards (fd_config f))
      in if DataShards (fd_config f) \<le> received g
         then let done = f\<lparr>groups := AList.delete (g_startSeq g) (groups f)\<rparr>
              in if length (g_shards g) < d then None
                 else if None \<in> set (take d (g_shards g))
                 then (case (if length (g_shards g) = nat (fst (fd_encoder f)) + nat (snd (fd_encoder f))
                             then rs_reconstruct x (nat (fst (fd_encoder f))) (nat (snd (fd_encoder f)))
                                    (g_shards g)
                             else None) of
                         None \<Rightarrow> Some (done, [])
                       | Some shards \<Rightarrow>
                           (case recover_shards (g_startSeq g) (take d shards) of
                              None \<Rightarrow> None | Some rs \<Rightarrow> Some (done, rs)))
                 else Some (done, [])
         else Some (f, []))"

text \<open>Store a shard in a group and see whether the group is complete.\<close>

definition store_shard ::
  "externals \<Rightarrow> FecGroup \<Rightarrow> nat \<Rightarrow> bytes \<Rightarrow> FecDecoder \<Rightarrow> (FecDecoder \<times> (u32 \<times> bytes) list) option" where
  "store_shard x g idx shard f =
     (let g = g\<lparr>g_shards := (g_shards g)[idx := Some shard], received := received g + 1\<rparr>
      in checkRecover x g (f\<lparr>groups := AList.update (g_startSeq g) g (groups f)\<rparr>))"

definition AddData ::
  "externals \<Rightarrow> u32 \<Rightarrow> bytes \<Rightarrow> FecDecoder \<Rightarrow> (FecDecoder \<times> (u32 \<times> bytes) list) option" where
  "AddData x seq payload f =
     (let ds = of_int (DataShards (fd_config f)) :: u32
      in if ds = 0 then None
         else let (g, f) = getOrCreateGroup (seq div ds * ds) f; idx = unat (seq mod ds)
         in if length (g_shards g) \<le> idx then None
            else if g_shards g ! idx = None
            then store_shard x g idx (fill_shard (replicate FECMaxPayload 0) payload) f
            else Some (f, []))"

definition AddParity ::
  "externals \<Rightarrow> u32 \<Rightarrow> u8 \<Rightarrow> bytes \<Rightarrow> FecDecoder \<Rightarrow> (FecDecoder \<times> (u32 \<times> bytes) list) option" where
  "AddParity x startSeq parityIdx payload f =
     (let (g, f) = getOrCreateGroup startSeq f;
          idx = nat (DataShards (fd_config f)) + unat parityIdx
      in if idx < length (g_shards g) \<and> g_shards g ! idx = None
         then store_shard x g idx payload f
         else Some (f, []))"

section \<open>Handing over a configuration\<close>

text \<open>
  \<^verbatim>\<open>Reconfigure\<close> against the goroutine that drains the channel: the caller, having found the
  channel full, receives from it in a second step, so the goroutine can empty the channel
  between the two. The state is the channel (capacity 1), what the goroutine has taken, and
  where the caller is.
\<close>

datatype reconfigure_pc = Selecting | Draining | Sending | Done

inductive reconf_step :: "FECConfig \<Rightarrow> reconfigure_pc \<times> FECConfig list \<times> FECConfig list
    \<Rightarrow> reconfigure_pc \<times> FECConfig list \<times> FECConfig list \<Rightarrow> bool"
  for c :: FECConfig where
  sent: "reconf_step c (Selecting, [], taken) (Done, [c], taken)"
| found_full: "ch \<noteq> [] \<Longrightarrow> reconf_step c (Selecting, ch, taken) (Draining, ch, taken)"
| drained: "reconf_step c (Draining, d # ch, taken) (Sending, ch, taken)"
| resent: "reconf_step c (Sending, [], taken) (Done, [c], taken)"
| loop_takes: "reconf_step c (pc, d # ch, taken) (pc, ch, taken @ [d])"

code_pred reconf_step .

inductive_cases reconf_stepE: "reconf_step c s t"
inductive_cases stuck_stepE: "reconf_step c (Draining, [], taken) t"

section \<open>Runs\<close>

text \<open>The packets of one sender, and what reaches one receiver, in order; the callbacks'
  calls are concatenated.\<close>

fun enc_run :: "externals \<Rightarrow> FecEncoder \<Rightarrow> (u32 \<times> bytes) list
    \<Rightarrow> (FecEncoder \<times> (u32 \<times> u8 \<times> bytes) list) option" where
  "enc_run x f [] = Some (f, [])"
| "enc_run x f ((seq, pl) # ps) =
     (case AddDataPacket x seq pl f of
        None \<Rightarrow> None
      | Some (f', out) \<Rightarrow>
          (case enc_run x f' ps of None \<Rightarrow> None | Some (f'', out') \<Rightarrow> Some (f'', out @ out')))"

datatype fec_event = GotData u32 bytes | GotParity u32 u8 bytes | GroupTimeout u32
  | Configured FECConfig

fun dec_event :: "externals \<Rightarrow> FecDecoder \<Rightarrow> fec_event \<Rightarrow> (FecDecoder \<times> (u32 \<times> bytes) list) option" where
  "dec_event x f (GotData seq pl) = AddData x seq pl f"
| "dec_event x f (GotParity s i pl) = AddParity x s i pl f"
| "dec_event x f (GroupTimeout s) = Some (group_timeout s f, [])"
| "dec_event x f (Configured c) = Some (dec_configure x c f, [])"

fun dec_run :: "externals \<Rightarrow> FecDecoder \<Rightarrow> fec_event list
    \<Rightarrow> (FecDecoder \<times> (u32 \<times> bytes) list) option" where
  "dec_run x f [] = Some (f, [])"
| "dec_run x f (e # es) =
     (case dec_event x f e of
        None \<Rightarrow> None
      | Some (f', out) \<Rightarrow>
          (case dec_run x f' es of None \<Rightarrow> None | Some (f'', out') \<Rightarrow> Some (f'', out @ out')))"

section \<open>Lemmas\<close>

subsection \<open>Shards\<close>

definition data_shard :: "bytes \<Rightarrow> bytes" where
  "data_shard pl = fill_shard (replicate FECMaxPayload 0) pl"

lemma length_fill_shard [simp]: "2 \<le> length s \<Longrightarrow> length (fill_shard s pl) = length s"
  by (simp add: fill_shard_def)

lemma length_data_shard [simp]: "length (data_shard pl) = 1200"
  by (simp add: data_shard_def FECMaxPayload_def)

lemma shard_payload_data:
  assumes "length pl < 2 ^ 16"
  shows "shard_payload (data_shard pl) =
     Some (if 0 < length pl \<and> length pl \<le> 1198 then Some pl else None)"
proof -
  have "get_be16 (data_shard pl) = of_nat (length pl)"
    by (simp add: data_shard_def fill_shard_def)
  then have "unat (get_be16 (data_shard pl)) = length pl"
    using assms by (simp add: unat_of_nat_small)
  moreover have "length pl \<le> 1198 \<Longrightarrow> take (length pl) (drop 2 (data_shard pl)) = pl"
    by (simp add: data_shard_def fill_shard_def go_copy_def FECMaxPayload_def)
  ultimately show ?thesis by (auto simp: shard_payload_def FECMaxPayload_def)
qed

text \<open>What the decoder hands on of a complete group: the payloads it can hold whole.\<close>

definition recoverable :: "bytes \<Rightarrow> bool" where
  "recoverable pl \<longleftrightarrow> 0 < length pl \<and> length pl \<le> FECMaxPayload - 2"

fun recovered :: "u32 \<Rightarrow> bytes list \<Rightarrow> (u32 \<times> bytes) list" where
  "recovered seq [] = []"
| "recovered seq (pl # pls) =
     (if recoverable pl then [(seq, pl)] else []) @ recovered (seq + 1) pls"

lemma recover_data_shards:
  "\<forall>pl\<in>set pls. length pl < 2 ^ 16 \<Longrightarrow>
     recover_shards seq (map (Some \<circ> data_shard) pls) = Some (recovered seq pls)"
  by (induction pls arbitrary: seq)
     (auto simp: shard_payload_data recoverable_def FECMaxPayload_def)

subsection \<open>Groups of sequence numbers\<close>

lemma group_index:
  fixes start :: u32
  assumes "0 < D" and "D < 2 ^ 32" and "unat start mod D = 0" and "unat start + D \<le> 2 ^ 32"
    and "i < D"
  shows "(start + of_nat i) div of_nat D * of_nat D = start"
    and "unat ((start + of_nat i) mod of_nat D) = i"
proof -
  obtain k where k: "unat start = k * D" using assms(3)
    by (metis dvd_def mod_0_imp_dvd mult.commute)
  have st: "of_nat (k * D) = start" by (simp flip: k del: of_nat_mult)
  have uD: "unat (of_nat D :: u32) = D" using assms(2) by (simp add: unat_of_nat_small)
  have ui: "unat (start + of_nat i) = k * D + i"
  proof -
    have "start + of_nat i = of_nat (k * D + i)"
      by (simp only: of_nat_add st)
    moreover have "unat (of_nat (k * D + i) :: u32) = k * D + i"
      by (rule unat_of_nat_small) (use assms(4,5) k in simp)
    ultimately show ?thesis by (simp only:)
  qed
  have "(k * D + i) div D = k" using assms(5) by simp
  then have "(start + of_nat i) div of_nat D = of_nat k"
    by (simp only: word_arith_nat_div ui uD)
  moreover have "of_nat k * of_nat D = start" using st by (simp only: of_nat_mult)
  ultimately show "(start + of_nat i) div of_nat D * of_nat D = start" by simp
  have "(k * D + i) mod D = i" using assms(5) by simp
  then show "unat ((start + of_nat i) mod of_nat D) = i"
    by (simp only: unat_mod_distrib ui uD)
qed

lemma unat_u8_index: "i < p \<Longrightarrow> p \<le> 256 \<Longrightarrow> unat (of_nat i :: u8) = i"
  by (simp add: unat_of_nat_small)

subsection \<open>The encoder\<close>

definition fe_wf :: "FecEncoder \<Rightarrow> bool" where
  "fe_wf f \<longleftrightarrow> 0 < DataShards (fe_config f) \<and> 0 \<le> ParityShards (fe_config f)
     \<and> fe_encoder f = (DataShards (fe_config f), ParityShards (fe_config f))
     \<and> int (dataCount f) < DataShards (fe_config f)
     \<and> (0 < dataCount f \<longrightarrow> length (fe_shards f)
           = nat (DataShards (fe_config f)) + nat (ParityShards (fe_config f)))"

lemma NewFecEncoder_wf: "rs_valid x \<Longrightarrow> NewFecEncoder x cfg = Some f \<Longrightarrow> fe_wf f"
  by (auto simp: NewFecEncoder_def Let_def fe_wf_def rs_valid_def split: if_splits)

lemma enc_configure_wf: "rs_valid x \<Longrightarrow> fe_wf f \<Longrightarrow> fe_wf (enc_configure x c f)"
  by (auto simp: enc_configure_def fe_wf_def rs_valid_def same_shape_def)

lemma rs_encode_length:
  "rs_valid x \<Longrightarrow> rs_encode x shape shards = Some s \<Longrightarrow> length s = length shards"
  by (auto simp: rs_encode_def rs_valid_def Let_def split: if_splits option.splits)

lemma flushLocked_wf:
  assumes "rs_valid x" and "0 < DataShards (fe_config f)" and "0 \<le> ParityShards (fe_config f)"
    and "fe_encoder f = (DataShards (fe_config f), ParityShards (fe_config f))"
  shows "\<exists>f' out. flushLocked x f = Some (f', out) \<and> fe_wf f' \<and> dataCount f' = 0
    \<and> fe_config f' = fe_config f"
proof (cases "rs_encode x (fe_encoder f) (fe_shards f)")
  case None
  with assms show ?thesis by (simp add: flushLocked_def Let_def fe_wf_def)
next
  case (Some shards)
  then have "length shards = length (fe_shards f)" by (rule rs_encode_length [OF assms(1)])
  with Some assms show ?thesis by (simp add: flushLocked_def Let_def fe_wf_def)
qed

lemma AddDataPacket_wf:
  assumes "rs_valid x" and "fe_wf f"
  shows "\<exists>f' out. AddDataPacket x seq pl f = Some (f', out) \<and> fe_wf f'"
proof -
  define f1 where "f1 = (if dataCount f = 0 then f\<lparr> fe_startSeq := seq,
      fe_shards := replicate (nat (DataShards (fe_config f) + ParityShards (fe_config f)))
        (replicate FECMaxPayload 0), flushTimer := True \<rparr> else f)"
  have c: "fe_config f1 = fe_config f" "fe_encoder f1 = fe_encoder f" "dataCount f1 = dataCount f"
    by (simp_all add: f1_def)
  have l: "length (fe_shards f1) = nat (DataShards (fe_config f)) + nat (ParityShards (fe_config f))"
    using assms(2) by (auto simp: f1_def fe_wf_def nat_add_distrib)
  let ?f2 = "f1\<lparr> fe_shards := (fe_shards f1)[dataCount f1 :=
      fill_shard (fe_shards f1 ! dataCount f1) pl], dataCount := dataCount f1 + 1 \<rparr>"
  have "dataCount f1 < length (fe_shards f1)" using assms(2) c unfolding l fe_wf_def by linarith
  then have e: "AddDataPacket x seq pl f =
      (if DataShards (fe_config ?f2) \<le> int (dataCount ?f2) then flushLocked x ?f2
       else Some (?f2, []))"
    unfolding AddDataPacket_def Let_def f1_def [symmetric] by (simp add: c)
  show ?thesis
  proof (cases "DataShards (fe_config ?f2) \<le> int (dataCount ?f2)")
    case True
    then show ?thesis using flushLocked_wf [OF assms(1), of ?f2] assms(2) e c
      by (auto simp: fe_wf_def)
  next
    case False
    then have "fe_wf ?f2" using assms(2) l c by (simp add: fe_wf_def)
    then show ?thesis using e False by simp
  qed
qed

text \<open>The shards of a group that holds the payloads \<open>pls\<close> so far.\<close>

definition group_shards :: "nat \<Rightarrow> nat \<Rightarrow> bytes list \<Rightarrow> bytes list" where
  "group_shards D P pls =
     map data_shard pls @ replicate (D - length pls + P) (replicate FECMaxPayload 0)"

lemma group_shards_put:
  "length pls < D \<Longrightarrow>
     (group_shards D P pls)[length pls := fill_shard (group_shards D P pls ! length pls) pl]
       = group_shards D P (pls @ [pl])"
proof -
  assume "length pls < D"
  then obtain m where m: "D - length pls = Suc m" by (cases "D - length pls") auto
  then have "D - length (pls @ [pl]) = m" by simp
  with m show ?thesis by (simp add: group_shards_def data_shard_def list_update_append nth_append)
qed

definition collecting :: "nat \<Rightarrow> nat \<Rightarrow> u32 \<Rightarrow> bytes list \<Rightarrow> FecEncoder \<Rightarrow> bool" where
  "collecting D P start pls f \<longleftrightarrow> fe_wf f \<and> DataShards (fe_config f) = int D
     \<and> ParityShards (fe_config f) = int P \<and> dataCount f = length pls
     \<and> (pls \<noteq> [] \<longrightarrow> fe_startSeq f = start \<and> fe_shards f = group_shards D P pls)"

lemma AddDataPacket_collecting:
  assumes "collecting D P start pls f" and "pls = [] \<longrightarrow> seq = start"
  shows "\<exists>f'. AddDataPacket x seq pl f =
      (if Suc (length pls) < D then Some (f', []) else flushLocked x f')
    \<and> fe_config f' = fe_config f \<and> fe_encoder f' = (int D, int P)
    \<and> dataCount f' = Suc (length pls) \<and> fe_startSeq f' = start
    \<and> fe_shards f' = group_shards D P (pls @ [pl])
    \<and> (Suc (length pls) < D \<longrightarrow> collecting D P start (pls @ [pl]) f')"
proof -
  have wf: "length pls < D" "fe_encoder f = (int D, int P)" "DataShards (fe_config f) = int D"
    "ParityShards (fe_config f) = int P" "dataCount f = length pls"
    using assms(1) by (auto simp: collecting_def fe_wf_def)
  define f1 where "f1 = (if dataCount f = 0 then f\<lparr> fe_startSeq := seq,
      fe_shards := replicate (nat (DataShards (fe_config f) + ParityShards (fe_config f)))
        (replicate FECMaxPayload 0), flushTimer := True \<rparr> else f)"
  have f1: "fe_config f1 = fe_config f" "fe_encoder f1 = (int D, int P)"
    "dataCount f1 = length pls" "fe_startSeq f1 = start" "fe_shards f1 = group_shards D P pls"
    using assms wf by (auto simp: f1_def collecting_def group_shards_def nat_add_distrib)
  let ?f2 = "f1\<lparr> fe_shards := (fe_shards f1)[dataCount f1 :=
      fill_shard (fe_shards f1 ! dataCount f1) pl], dataCount := dataCount f1 + 1 \<rparr>"
  have s: "fe_shards ?f2 = group_shards D P (pls @ [pl])"
    using f1 wf(1) by (simp add: group_shards_put)
  have "\<not> length (fe_shards f1) \<le> dataCount f1" using f1 wf(1) by (simp add: group_shards_def)
  then have e: "AddDataPacket x seq pl f =
      (if Suc (length pls) < D then Some (?f2, []) else flushLocked x ?f2)"
    unfolding AddDataPacket_def Let_def f1_def [symmetric] using f1 wf by auto
  have "Suc (length pls) < D \<longrightarrow> collecting D P start (pls @ [pl]) ?f2"
    using s f1 wf assms(1) by (auto simp: collecting_def fe_wf_def group_shards_def)
  then show ?thesis using e s f1 by (intro exI [of _ ?f2]) simp
qed

definition parity_packets :: "u32 \<Rightarrow> bytes list \<Rightarrow> (u32 \<times> u8 \<times> bytes) list" where
  "parity_packets start par = map (\<lambda>i. (start, of_nat i, par ! i)) [0..<length par]"

lemma flush_group:
  assumes "fe_config f = cfg" "DataShards cfg = int D" "ParityShards cfg = int P"
    and "fe_encoder f = (int D, int P)" "fe_startSeq f = start" "dataCount f = D" "0 < D"
    and "fe_shards f = group_shards D P pls" "length pls = D"
    and "rs_parity x D P (map data_shard pls) = Some par" "length par = P"
  shows "\<exists>f'. flushLocked x f = Some (f', parity_packets start par)"
proof -
  have t: "take D (group_shards D P pls) = map data_shard pls"
    using assms(9) by (simp add: group_shards_def)
  then have "rs_encode x (fe_encoder f) (fe_shards f) = Some (map data_shard pls @ par)"
    using assms by (simp add: rs_encode_def Let_def group_shards_def)
  then show ?thesis
    using assms by (auto simp: flushLocked_def Let_def parity_packets_def group_shards_def
        nth_append intro!: exI)
qed

lemma enc_run_group:
  assumes "collecting D P start pls f" and "pls = [] \<longrightarrow> ps \<noteq> [] \<and> fst (hd ps) = start"
    and "length pls + length ps = D" and "ps \<noteq> []"
    and "rs_parity x D P (map data_shard (pls @ map snd ps)) = Some par" and "length par = P"
  shows "\<exists>f'. enc_run x f ps = Some (f', parity_packets start par)"
  using assms
proof (induction ps arbitrary: pls f)
  case (Cons p ps)
  obtain seq pl where p: "p = (seq, pl)" by (cases p)
  obtain f1 where f1: "AddDataPacket x seq pl f =
      (if Suc (length pls) < D then Some (f1, []) else flushLocked x f1)"
    "fe_config f1 = fe_config f" "fe_encoder f1 = (int D, int P)"
    "dataCount f1 = Suc (length pls)" "fe_startSeq f1 = start"
    "fe_shards f1 = group_shards D P (pls @ [pl])"
    "Suc (length pls) < D \<longrightarrow> collecting D P start (pls @ [pl]) f1"
    using AddDataPacket_collecting [OF Cons.prems(1), of seq x pl] Cons.prems(2) p by auto
  show ?case
  proof (cases "ps = []")
    case True
    then have "Suc (length pls) = D" using Cons.prems(3) by simp
    then have "\<exists>f'. flushLocked x f1 = Some (f', parity_packets start par)"
      using flush_group [of f1 "fe_config f" D P start "pls @ [pl]" x par] f1 Cons.prems p True
      by (auto simp: collecting_def)
    then show ?thesis using f1(1) \<open>Suc (length pls) = D\<close> p True by auto
  next
    case False
    then have lt: "Suc (length pls) < D" using Cons.prems(3) by (cases ps) auto
    then have "\<exists>f'. enc_run x f1 ps = Some (f', parity_packets start par)"
      using Cons.IH [of "pls @ [pl]" f1] f1(7) Cons.prems p False by auto
    then show ?thesis using f1(1) lt p by auto
  qed
qed simp

subsection \<open>The decoder\<close>

definition group_wf :: "FECConfig \<Rightarrow> u32 \<Rightarrow> FecGroup \<Rightarrow> bool" where
  "group_wf c k g \<longleftrightarrow> g_startSeq g = k
     \<and> length (g_shards g) = nat (DataShards c) + nat (ParityShards c)
     \<and> received g = int (length (filter (\<lambda>q. q \<noteq> None) (g_shards g)))
     \<and> (\<forall>i<nat (DataShards c). \<forall>a. g_shards g ! i = Some a \<longrightarrow> length a = FECMaxPayload)"

definition shape_ok :: "FECConfig \<Rightarrow> bool" where
  "shape_ok c \<longleftrightarrow> 0 < DataShards c \<and> 0 \<le> ParityShards c \<and> ParityShards c < DataShards c
     \<and> DataShards c < 2 ^ 32"

definition fd_wf :: "FecDecoder \<Rightarrow> bool" where
  "fd_wf f \<longleftrightarrow> shape_ok (fd_config f)
     \<and> fd_encoder f = (DataShards (fd_config f), ParityShards (fd_config f))
     \<and> amap_wf (groups f)
     \<and> (\<forall>k g. map_of (groups f) k = Some g \<longrightarrow>
          group_wf (fd_config f) k g \<and> received g < DataShards (fd_config f))"

lemma group_of_wf:
  "fd_wf f \<Longrightarrow> map_of (groups f) k = Some g \<Longrightarrow>
     group_wf (fd_config f) k g \<and> received g < DataShards (fd_config f)"
  by (simp add: fd_wf_def)

lemma fd_wf_groups:
  assumes "fd_wf f" and "amap_wf gs"
    and "\<And>k g. map_of gs k = Some g \<Longrightarrow>
      group_wf (fd_config f) k g \<and> received g < DataShards (fd_config f)"
  shows "fd_wf (f\<lparr>groups := gs\<rparr>)"
  using assms by (simp add: fd_wf_def)

lemma length_filter_update:
  "i < length xs \<Longrightarrow> xs ! i = None \<Longrightarrow>
     length (filter (\<lambda>q. q \<noteq> None) (xs[i := Some a])) = Suc (length (filter (\<lambda>q. q \<noteq> None) xs))"
  by (induction xs arbitrary: i) (auto split: nat.splits simp: nth_Cons')

lemma getOrCreateGroup_wf:
  assumes "fd_wf f" and "getOrCreateGroup k f = (g, f')"
  shows "fd_wf f' \<and> map_of (groups f') k = Some g \<and> group_wf (fd_config f') k g
    \<and> received g < DataShards (fd_config f') \<and> fd_config f' = fd_config f
    \<and> fd_encoder f' = fd_encoder f"
proof (cases "map_of (groups f) k")
  case (Some h)
  then show ?thesis using assms group_of_wf [OF assms(1) Some] by (simp add: getOrCreateGroup_def)
next
  case None
  then have g: "g = \<lparr> g_startSeq = k,
      g_shards = replicate (nat (DataShards (fd_config f) + ParityShards (fd_config f))) None,
      received = 0, g_timer = True \<rparr>"
    and f': "f' = f\<lparr>groups := AList.update k g (groups f)\<rparr>"
    using assms(2) by (auto simp: getOrCreateGroup_def Let_def)
  have "group_wf (fd_config f) k g" "received g < DataShards (fd_config f)"
    using assms(1) by (auto simp: g group_wf_def fd_wf_def shape_ok_def nat_add_distrib)
  moreover from this have "fd_wf f'"
    unfolding f' using assms(1) group_of_wf [OF assms(1)]
    by (intro fd_wf_groups) (auto simp: amap_simps fd_wf_def split: if_splits)
  ultimately show ?thesis by (simp add: f' amap_simps)
qed

lemma recover_shards_some:
  "(\<And>a. Some a \<in> set s \<Longrightarrow> length a = 1200) \<Longrightarrow> recover_shards seq s \<noteq> None"
proof (induction seq s rule: recover_shards.induct)
  case (3 seq shard shards)
  have "shard_payload shard \<noteq> None"
    using "3.prems" [of shard] by (simp add: shard_payload_def FECMaxPayload_def Let_def)
  moreover have "recover_shards (seq + 1) shards \<noteq> None" if "shard_payload shard = Some pl" for pl
    using "3.IH" [OF that] "3.prems" by simp
  ultimately show ?case by (auto split: option.splits)
qed simp_all

lemma some_data_shard:
  assumes "length s = d + p" and "p < d" and "d \<le> length (filter (\<lambda>q. q \<noteq> None) s)"
  shows "\<exists>i<d. \<exists>a. s ! i = Some a"
proof (rule ccontr)
  assume "\<not> ?thesis"
  then have n: "\<forall>i<d. s ! i = None" by auto
  have "filter (\<lambda>q. q \<noteq> None) (take d s) = []"
    using n assms(1) by (auto simp: filter_empty_conv in_set_conv_nth)
  then have "length (filter (\<lambda>q. q \<noteq> None) s) = length (filter (\<lambda>q. q \<noteq> None) (drop d s))"
    by (metis append_Nil append_take_drop_id filter_append)
  also have "\<dots> \<le> p" using assms(1) length_filter_le [of _ "drop d s"] by simp
  finally show False using assms(2,3) by simp
qed

lemma checkRecover_wf:
  assumes "rs_valid x" and "fd_wf (f\<lparr>groups := AList.delete k (groups f)\<rparr>)"
    and "map_of (groups f) k = Some g" and "group_wf (fd_config f) k g"
    and "amap_wf (groups f)"
  shows "\<exists>f' out. checkRecover x g f = Some (f', out) \<and> fd_wf f' \<and> fd_config f' = fd_config f"
proof (cases "DataShards (fd_config f) \<le> received g")
  case False
  have "fd_wf ((f\<lparr>groups := AList.delete k (groups f)\<rparr>)\<lparr>groups := groups f\<rparr>)"
  proof (rule fd_wf_groups [OF assms(2)])
    fix j h
    assume "map_of (groups f) j = Some h"
    with assms(3,4) False group_of_wf [OF assms(2), of j h] show "group_wf (fd_config (f\<lparr>groups := AList.delete k (groups f)\<rparr>)) j h
        \<and> received h < DataShards (fd_config (f\<lparr>groups := AList.delete k (groups f)\<rparr>))"
      by (cases "j = k") (auto simp: amap_simps)
  qed (simp add: assms(5))
  with False show ?thesis by (simp add: checkRecover_def Let_def)
next
  case True
  let ?d = "nat (DataShards (fd_config f))" and ?p = "nat (ParityShards (fd_config f))"
  let ?done = "f\<lparr>groups := AList.delete (g_startSeq g) (groups f)\<rparr>"
  have cfg: "shape_ok (fd_config f)"
    "fd_encoder f = (DataShards (fd_config f), ParityShards (fd_config f))"
    using assms(2) by (simp_all add: fd_wf_def)
  have g: "g_startSeq g = k" "length (g_shards g) = ?d + ?p"
    "?d \<le> length (filter (\<lambda>q. q \<noteq> None) (g_shards g))"
    "\<And>i a. i < ?d \<Longrightarrow> g_shards g ! i = Some a \<Longrightarrow> length a = 1200"
    using assms(4) True by (auto simp: group_wf_def FECMaxPayload_def)
  have "?p < ?d" using cfg(1) by (auto simp: shape_ok_def)
  then obtain i a where i: "i < ?d" "g_shards g ! i = Some a"
    using some_data_shard [OF g(2) _ g(3)] by blast
  have rec: "recover_shards (g_startSeq g) (take ?d s) \<noteq> None"
    if r: "rs_reconstruct x ?d ?p (g_shards g) = Some s" for s
  proof (rule recover_shards_some)
    fix b
    assume b: "Some b \<in> set (take ?d s)"
    have "Some a \<in> set (g_shards g)" "a \<noteq> []" "length a = 1200"
      using i g(2) g(4) [OF i] nth_mem [of i "g_shards g"] by auto
    moreover have "\<exists>L. (\<forall>a. Some a \<in> set (g_shards g) \<and> a \<noteq> [] \<longrightarrow> length a = L)
        \<and> (\<forall>a. Some a \<in> set s \<longrightarrow> length a = L)"
      using assms(1) r by (simp add: rs_valid_def)
    ultimately show "length b = 1200" using b by (metis in_set_takeD)
  qed
  have "checkRecover x g f \<noteq> None \<and> (\<forall>f' out. checkRecover x g f = Some (f', out) \<longrightarrow> f' = ?done)"
    using True rec g(2) cfg(2)
    by (auto simp: checkRecover_def Let_def split: option.splits)
  then show ?thesis using assms(2) g(1) by fastforce
qed

lemma store_shard_wf:
  assumes "rs_valid x" and "fd_wf f" and "map_of (groups f) k = Some g"
    and "idx < length (g_shards g)" and "g_shards g ! idx = None"
    and "idx < nat (DataShards (fd_config f)) \<Longrightarrow> length shard = FECMaxPayload"
  shows "\<exists>f' out. store_shard x g idx shard f = Some (f', out) \<and> fd_wf f'
    \<and> fd_config f' = fd_config f"
proof -
  let ?g = "g\<lparr>g_shards := (g_shards g)[idx := Some shard], received := received g + 1\<rparr>"
  let ?f = "f\<lparr>groups := AList.update (g_startSeq ?g) ?g (groups f)\<rparr>"
  have k: "g_startSeq g = k" "group_wf (fd_config f) k g"
    using group_of_wf [OF assms(2,3)] by (simp_all add: group_wf_def)
  have "group_wf (fd_config ?f) k ?g"
    using k(2) assms(4-6) length_filter_update [OF assms(4,5), of shard]
    by (auto simp: group_wf_def nth_list_update)
  moreover have "fd_wf (?f\<lparr>groups := AList.delete k (groups ?f)\<rparr>)"
    using assms(2) k(1) by (auto simp: fd_wf_def amap_simps split: if_splits)
  ultimately show ?thesis
    using checkRecover_wf [OF assms(1), of k ?f ?g] assms(2) k(1)
    by (simp add: store_shard_def Let_def amap_simps fd_wf_def)
qed

lemma shard_count_word:
  fixes c :: int
  assumes "0 < c" and "c < 2 ^ 32"
  shows "unat (of_int c :: u32) = nat c" and "(of_int c :: u32) \<noteq> 0"
proof -
  have "of_int c = (of_nat (nat c) :: u32)" using assms(1) by simp
  moreover have "unat (of_nat (nat c) :: u32) = nat c"
    by (rule unat_of_nat_small) (use assms in simp)
  ultimately show "unat (of_int c :: u32) = nat c" by (simp only:)
  then show "(of_int c :: u32) \<noteq> 0" using assms(1) by fastforce
qed

lemma AddData_wf:
  assumes "rs_valid x" and "fd_wf f"
  shows "\<exists>f' out. AddData x seq pl f = Some (f', out) \<and> fd_wf f' \<and> fd_config f' = fd_config f"
proof -
  define ds where "ds = (of_int (DataShards (fd_config f)) :: u32)"
  have ds: "unat ds = nat (DataShards (fd_config f))" "ds \<noteq> 0" "0 < DataShards (fd_config f)"
    using shard_count_word assms(2) by (simp_all add: ds_def fd_wf_def shape_ok_def)
  have idx: "unat (seq mod ds) < nat (DataShards (fd_config f))"
    using ds(3) by (simp add: unat_mod_distrib ds(1))
  obtain g f1 where g: "getOrCreateGroup (seq div ds * ds) f = (g, f1)" by fastforce
  note w = getOrCreateGroup_wf [OF assms(2) g]
  have l: "length (g_shards g) = nat (DataShards (fd_config f)) + nat (ParityShards (fd_config f))"
    using w by (simp add: group_wf_def)
  have "AddData x seq pl f = (if g_shards g ! unat (seq mod ds) = None
      then store_shard x g (unat (seq mod ds)) (data_shard pl) f1 else Some (f1, []))"
    unfolding AddData_def Let_def ds_def [symmetric] using g ds l idx by (simp add: data_shard_def)
  moreover have "\<exists>f' out. store_shard x g (unat (seq mod ds)) (data_shard pl) f1 = Some (f', out)
        \<and> fd_wf f' \<and> fd_config f' = fd_config f1" if "g_shards g ! unat (seq mod ds) = None"
    by (rule store_shard_wf [OF assms(1), of f1 "seq div ds * ds"])
       (use w l idx that in \<open>auto simp: FECMaxPayload_def\<close>)
  ultimately show ?thesis using w by (cases "g_shards g ! unat (seq mod ds) = None") auto
qed

lemma AddParity_wf:
  assumes "rs_valid x" and "fd_wf f"
  shows "\<exists>f' out. AddParity x s i pl f = Some (f', out) \<and> fd_wf f' \<and> fd_config f' = fd_config f"
proof -
  obtain g f1 where g: "getOrCreateGroup s f = (g, f1)" by fastforce
  note w = getOrCreateGroup_wf [OF assms(2) g]
  let ?idx = "nat (DataShards (fd_config f1)) + unat i"
  show ?thesis
  proof (cases "?idx < length (g_shards g) \<and> g_shards g ! ?idx = None")
    case True
    have "\<exists>f' out. store_shard x g ?idx pl f1 = Some (f', out) \<and> fd_wf f' \<and> fd_config f' = fd_config f1"
      by (rule store_shard_wf [OF assms(1), of f1 s]) (use w True in auto)
    then show ?thesis using g True w by (simp add: AddParity_def Let_def)
  next
    case False
    then show ?thesis using g w by (auto simp: AddParity_def Let_def)
  qed
qed

lemma group_timeout_wf: "fd_wf f \<Longrightarrow> fd_wf (group_timeout s f)"
  by (auto simp: group_timeout_def fd_wf_def amap_simps split: if_splits)

lemma dec_configure_wf:
  assumes "fd_wf f" and "shape_ok c"
  shows "fd_wf (dec_configure x c f)"
proof (cases "same_shape c (fd_config f)")
  case True
  then have s: "DataShards c = DataShards (fd_config f)" "ParityShards c = ParityShards (fd_config f)"
    by (simp_all add: same_shape_def)
  then have "group_wf c = group_wf (fd_config f)" by (intro ext) (simp add: group_wf_def)
  with True assms s show ?thesis by (simp add: dec_configure_def fd_wf_def)
next
  case False
  with assms show ?thesis by (simp add: dec_configure_def fd_wf_def)
qed

definition fec_event_ok :: "fec_event \<Rightarrow> bool" where
  "fec_event_ok e \<longleftrightarrow> (case e of Configured c \<Rightarrow> shape_ok c | _ \<Rightarrow> True)"

lemma dec_event_wf:
  assumes "rs_valid x" and "fd_wf f" and "fec_event_ok e"
  shows "\<exists>f' out. dec_event x f e = Some (f', out) \<and> fd_wf f'"
  using assms AddData_wf [OF assms(1,2)] AddParity_wf [OF assms(1,2)]
    group_timeout_wf [OF assms(2)] dec_configure_wf [OF assms(2)]
  by (cases e) (fastforce simp: fec_event_ok_def)+

lemma dec_run_wf:
  assumes "rs_valid x"
  shows "fd_wf f \<Longrightarrow> list_all fec_event_ok es \<Longrightarrow> \<exists>f' out. dec_run x f es = Some (f', out) \<and> fd_wf f'"
proof (induction es arbitrary: f)
  case (Cons e es)
  then obtain f1 out1 where "dec_event x f e = Some (f1, out1)" "fd_wf f1"
    using dec_event_wf [OF assms, of f e] by auto
  moreover then obtain f2 out2 where "dec_run x f1 es = Some (f2, out2)" "fd_wf f2"
    using Cons.IH [of f1] Cons.prems(2) by auto
  ultimately show ?case by simp
qed simp

subsection \<open>A group from the encoder to the decoder\<close>

definition partial :: "'a list \<Rightarrow> nat list \<Rightarrow> 'a option list" where
  "partial word js = map (\<lambda>i. if i \<in> set js then Some (word ! i) else None) [0..<length word]"

lemma partial_Nil: "partial word [] = replicate (length word) None"
  by (simp add: partial_def map_replicate_trivial)

lemma partial_put:
  "i < length word \<Longrightarrow> (partial word js)[i := Some (word ! i)] = partial word (js @ [i])"
  by (rule nth_equalityI) (auto simp: partial_def nth_list_update)

lemma length_partial [simp]: "length (partial word js) = length word"
  by (simp add: partial_def)

lemma nth_partial: "i < length word \<Longrightarrow>
    partial word js ! i = (if i \<in> set js then Some (word ! i) else None)"
  by (simp add: partial_def)

lemma erasure_partial: "erasure_of word (partial word js)"
  by (simp add: erasure_of_def nth_partial)

lemma filter_partial:
  assumes "distinct js" and "set js \<subseteq> {..<length word}"
  shows "length (filter (\<lambda>q. q \<noteq> None) (partial word js)) = length js"
proof -
  have "length (filter (\<lambda>q. q \<noteq> None) (partial word js))
      = card {i. i < length word \<and> partial word js ! i \<noteq> None}"
    by (simp add: length_filter_conv_card)
  also have "{i. i < length word \<and> partial word js ! i \<noteq> None} = set js"
    using assms(2) by (auto simp: nth_partial split: if_splits)
  finally show ?thesis using assms(1) by (simp add: distinct_card)
qed

definition gathering :: "nat \<Rightarrow> nat \<Rightarrow> u32 \<Rightarrow> bytes list \<Rightarrow> nat list \<Rightarrow> FecDecoder \<Rightarrow> bool" where
  "gathering D P start word js f \<longleftrightarrow> fd_wf f \<and> DataShards (fd_config f) = int D
     \<and> ParityShards (fd_config f) = int P \<and> length word = D + P
     \<and> (case map_of (groups f) start of None \<Rightarrow> js = []
        | Some g \<Rightarrow> g_shards g = partial word js)"

lemma gathering_group:
  assumes "gathering D P start word js f" and "distinct js" and "set js \<subseteq> {..<D + P}"
  shows "\<exists>g f1. getOrCreateGroup start f = (g, f1) \<and> g_shards g = partial word js
    \<and> received g = int (length js) \<and> g_startSeq g = start \<and> fd_config f1 = fd_config f
    \<and> fd_encoder f1 = (int D, int P) \<and> fd_wf f1 \<and> map_of (groups f1) start = Some g"
proof -
  have wf: "fd_wf f" "length word = D + P" "fd_encoder f = (int D, int P)"
    using assms(1) unfolding gathering_def fd_wf_def by auto
  obtain g f1 where g: "getOrCreateGroup start f = (g, f1)" by fastforce
  note w = getOrCreateGroup_wf [OF wf(1) g]
  have s: "g_shards g = partial word js"
    using assms(1) g by (auto simp: gathering_def getOrCreateGroup_def Let_def partial_Nil
        nat_add_distrib split: option.splits)
  have "received g = int (length js)"
    using w s filter_partial [of js word] assms(2,3) wf(2) by (simp add: group_wf_def)
  with g w s wf show ?thesis by (auto simp: group_wf_def)
qed

text \<open>The \<open>i\<close>th packet of a group: a data packet, or a parity packet.\<close>

definition piece :: "nat \<Rightarrow> u32 \<Rightarrow> bytes list \<Rightarrow> bytes list \<Rightarrow> nat \<Rightarrow> fec_event" where
  "piece D start pls par i =
     (if i < D then GotData (start + of_nat i) (pls ! i)
      else GotParity start (of_nat (i - D)) (par ! (i - D)))"

text \<open>The packets of one aligned group and its parity; the code word is all the shards.\<close>

definition fec_group :: "externals \<Rightarrow> nat \<Rightarrow> nat \<Rightarrow> u32 \<Rightarrow> bytes list \<Rightarrow> bytes list \<Rightarrow> bool" where
  "fec_group x D P start pls par \<longleftrightarrow> length pls = D \<and> length par = P \<and> P \<le> 256
     \<and> unat start mod D = 0 \<and> unat start + D \<le> 2 ^ 32
     \<and> (\<forall>pl\<in>set pls. length pl < 2 ^ 16)
     \<and> rs_parity x D P (map data_shard pls) = Some par \<and> rs_correct x D P"

definition code_word :: "bytes list \<Rightarrow> bytes list \<Rightarrow> bytes list" where
  "code_word pls par = map data_shard pls @ par"

lemma fec_groupD:
  assumes "fec_group x D P start pls par"
  shows "length pls = D" "length par = P" "P \<le> 256" "unat start mod D = 0"
    "unat start + D \<le> 2 ^ 32" "\<forall>pl\<in>set pls. length pl < 2 ^ 16"
    "rs_parity x D P (map data_shard pls) = Some par" "rs_correct x D P"
  using assms by (simp_all add: fec_group_def)

lemma code_word_facts:
  assumes "fec_group x D P start pls par"
  shows "length (code_word pls par) = D + P" "take D (code_word pls par) = map data_shard pls"
  using fec_groupD [OF assms] by (simp_all add: code_word_def)

lemma reconstructs:
  assumes "D \<le> length (filter (\<lambda>q. q \<noteq> None) s)" and "erasure_of (code_word pls par) s"
    and grp: "fec_group x D P start pls par"
  shows "rs_reconstruct x D P s = Some (map Some (code_word pls par))"
proof -
  note lengths = fec_groupD(1-3) [OF grp] and aligned = fec_groupD(4,5) [OF grp]
    and small = fec_groupD(6) [OF grp] and parity = fec_groupD(7) [OF grp]
    and correct = fec_groupD(8) [OF grp] and code_word_facts = code_word_facts [OF grp]
  have c: "length (map data_shard pls) = D \<and> (0::nat) < 1200
      \<and> (\<forall>s\<in>set (map data_shard pls). length s = 1200)"
    using lengths by auto
  then obtain par' where "rs_parity x D P (map data_shard pls) = Some par'"
    "\<forall>s. erasure_of (map data_shard pls @ par') s \<and> D \<le> length (filter (\<lambda>q. q \<noteq> None) s)
       \<longrightarrow> rs_reconstruct x D P s = Some (map Some (map data_shard pls @ par'))"
    using correct [unfolded rs_correct_def, THEN spec, of "map data_shard pls", THEN spec,
        of 1200, THEN mp, OF c] by blast
  with parity assms show ?thesis by (simp add: code_word_def)
qed

lemma piece_event:
  assumes "gathering D P start (code_word pls par) js f" and "distinct js" and "set js \<subseteq> {..<D + P}"
    and "i < D + P" and "i \<notin> set js" and grp: "fec_group x D P start pls par"
  shows "\<exists>g f1. dec_event x f (piece D start pls par i) = store_shard x g i ((code_word pls par) ! i) f1
    \<and> g_shards g = partial (code_word pls par) js \<and> received g = int (length js) \<and> g_startSeq g = start
    \<and> fd_config f1 = fd_config f \<and> fd_encoder f1 = (int D, int P) \<and> fd_wf f1
    \<and> map_of (groups f1) start = Some g"
proof -
  note lengths = fec_groupD(1-3) [OF grp] and aligned = fec_groupD(4,5) [OF grp]
    and small = fec_groupD(6) [OF grp] and parity = fec_groupD(7) [OF grp]
    and correct = fec_groupD(8) [OF grp] and code_word_facts = code_word_facts [OF grp]
  obtain g f1 where g: "getOrCreateGroup start f = (g, f1)" "g_shards g = partial (code_word pls par) js"
    "received g = int (length js)" "g_startSeq g = start" "fd_config f1 = fd_config f"
    "fd_encoder f1 = (int D, int P)" "fd_wf f1" "map_of (groups f1) start = Some g"
    using gathering_group [OF assms(1-3)] by blast
  have c: "DataShards (fd_config f) = int D" "0 < D" "D < 2 ^ 32" "length (code_word pls par) = D + P"
    using assms(1) by (auto simp: gathering_def fd_wf_def shape_ok_def)
  have none: "partial (code_word pls par) js ! i = None" using assms(4,5) c(4) by (simp add: nth_partial)
  have "dec_event x f (piece D start pls par i) = store_shard x g i ((code_word pls par) ! i) f1"
  proof (cases "i < D")
    case True
    note idx = group_index [OF c(2,3) aligned True]
    have "(of_nat D :: u32) \<noteq> 0"
      using c(2,3) shard_count_word(2) [of "int D"] by simp
    then have "AddData x (start + of_nat i) (pls ! i) f = store_shard x g i (data_shard (pls ! i)) f1"
      unfolding AddData_def Let_def c(1) of_int_of_nat_eq idx
      using g none True c(4) by (simp add: data_shard_def)
    moreover have "(code_word pls par) ! i = data_shard (pls ! i)"
      using True lengths by (simp add: code_word_def nth_append)
    ultimately show ?thesis using True by (simp add: piece_def)
  next
    case False
    then have "unat (of_nat (i - D) :: u8) = i - D"
      using assms(4) lengths(3) by (intro unat_u8_index [of _ P]) auto
    moreover have "(code_word pls par) ! i = par ! (i - D)"
      using False lengths by (simp add: code_word_def nth_append)
    ultimately show ?thesis
      using False g none c assms(4) by (simp add: piece_def AddParity_def Let_def)
  qed
  with g show ?thesis by blast
qed

lemma piece_more:
  assumes "gathering D P start (code_word pls par) js f" and "distinct js" and "set js \<subseteq> {..<D + P}"
    and "i < D + P" and "i \<notin> set js" and "Suc (length js) < D"
    and grp: "fec_group x D P start pls par"
  shows "\<exists>f'. dec_event x f (piece D start pls par i) = Some (f', [])
    \<and> gathering D P start (code_word pls par) (js @ [i]) f'"
proof -
  note lengths = fec_groupD(1-3) [OF grp] and aligned = fec_groupD(4,5) [OF grp]
    and small = fec_groupD(6) [OF grp] and parity = fec_groupD(7) [OF grp]
    and correct = fec_groupD(8) [OF grp] and code_word_facts = code_word_facts [OF grp]
  obtain g f1 where e: "dec_event x f (piece D start pls par i) = store_shard x g i ((code_word pls par) ! i) f1"
    and g: "g_shards g = partial (code_word pls par) js" "received g = int (length js)" "g_startSeq g = start"
    and f1: "fd_config f1 = fd_config f" "fd_encoder f1 = (int D, int P)" "fd_wf f1"
      "map_of (groups f1) start = Some g"
    using piece_event [OF assms(1-5) grp] by blast
  have w: "length (code_word pls par) = D + P" "DataShards (fd_config f) = int D" "ParityShards (fd_config f) = int P"
    using assms(1) by (simp_all add: gathering_def)
  let ?g = "g\<lparr>g_shards := (g_shards g)[i := Some ((code_word pls par) ! i)], received := received g + 1\<rparr>"
  let ?f = "f1\<lparr>groups := AList.update start ?g (groups f1)\<rparr>"
  have s: "store_shard x g i ((code_word pls par) ! i) f1 = Some (?f, [])"
    using g f1 w assms(6) by (simp add: store_shard_def checkRecover_def Let_def)
  have "i < D \<Longrightarrow> length ((code_word pls par) ! i) = FECMaxPayload"
    using lengths by (simp add: code_word_def nth_append FECMaxPayload_def)
  then have "\<exists>f' out. store_shard x g i ((code_word pls par) ! i) f1 = Some (f', out) \<and> fd_wf f'"
  proof -
    assume l: "i < D \<Longrightarrow> length ((code_word pls par) ! i) = FECMaxPayload"
    have "group_wf (fd_config f1) start ?g \<and> received ?g < DataShards (fd_config f1)"
      using group_of_wf [OF f1(3,4)] l g f1 w assms(4-6)
        length_filter_update [of i "partial (code_word pls par) js" "(code_word pls par) ! i"]
      by (auto simp: group_wf_def nth_list_update nth_partial)
    then have "fd_wf ?f"
      using f1(3,4) group_of_wf [OF f1(3)]
      by (intro fd_wf_groups [OF f1(3)]) (auto simp: amap_simps fd_wf_def split: if_splits)
    then show ?thesis using s by blast
  qed
  then have "gathering D P start (code_word pls par) (js @ [i]) ?f"
    using s g(1) f1 w assms(4) partial_put [of i "code_word pls par" js]
    by (simp add: gathering_def amap_simps)
  then show ?thesis using e s by auto
qed

lemma piece_last:
  assumes "gathering D P start (code_word pls par) js f" and "distinct js" and "set js \<subseteq> {..<D + P}"
    and "i < D + P" and "i \<notin> set js" and "Suc (length js) = D"
    and grp: "fec_group x D P start pls par"
  shows "\<exists>f'. dec_event x f (piece D start pls par i) =
     Some (f', if set (js @ [i]) = {..<D} then [] else recovered start pls)"
proof -
  note lengths = fec_groupD(1-3) [OF grp] and aligned = fec_groupD(4,5) [OF grp]
    and small = fec_groupD(6) [OF grp] and parity = fec_groupD(7) [OF grp]
    and correct = fec_groupD(8) [OF grp] and code_word_facts = code_word_facts [OF grp]
  obtain g f1 where e: "dec_event x f (piece D start pls par i) = store_shard x g i ((code_word pls par) ! i) f1"
    and g: "g_shards g = partial (code_word pls par) js" "received g = int (length js)" "g_startSeq g = start"
    and f1: "fd_config f1 = fd_config f" "fd_encoder f1 = (int D, int P)"
    using piece_event [OF assms(1-5) grp] by blast
  have w: "length (code_word pls par) = D + P" "DataShards (fd_config f) = int D"
    using assms(1) by (simp_all add: gathering_def)
  let ?js = "js @ [i]"
  have js: "distinct ?js" "set ?js \<subseteq> {..<D + P}" "length ?js = D" using assms(2-6) by auto
  have p: "(g_shards g)[i := Some ((code_word pls par) ! i)] = partial (code_word pls par) ?js"
    using g(1) w(1) assms(4) partial_put [of i "code_word pls par" js] by simp
  have rec: "rs_reconstruct x D P (partial (code_word pls par) ?js) = Some (map Some (code_word pls par))"
    using filter_partial [of ?js "code_word pls par"] js w(1) by (intro reconstructs [OF _ _ grp] erasure_partial) simp
  have out: "recover_shards start (take D (map Some (code_word pls par))) = Some (recovered start pls)"
    using recover_data_shards [OF small] by (simp add: take_map code_word_facts)
  have missing: "None \<in> set (take D (partial (code_word pls par) ?js)) \<longleftrightarrow> set ?js \<noteq> {..<D}"
  proof -
    have "None \<in> set (take D (partial (code_word pls par) ?js)) \<longleftrightarrow> \<not> {..<D} \<subseteq> set ?js"
      using w(1) by (auto simp: in_set_conv_nth nth_partial)
    also have "{..<D} \<subseteq> set ?js \<longleftrightarrow> set ?js = {..<D}"
      using js(1,3) distinct_card [OF js(1)] card_subset_eq [of "set ?js" "{..<D}"] by auto
    finally show ?thesis .
  qed
  show ?thesis
    using e g f1 w assms(6) p rec out missing
    by (simp add: store_shard_def checkRecover_def Let_def)
qed

lemma run_pieces:
  assumes "gathering D P start (code_word pls par) js f" and "distinct (js @ is)" and "set (js @ is) \<subseteq> {..<D + P}"
    and "length js + length is = D" and "is \<noteq> []"
    and grp: "fec_group x D P start pls par"
  shows "\<exists>f'. dec_run x f (map (piece D start pls par) is) =
     Some (f', if set (js @ is) = {..<D} then [] else recovered start pls)"
  using assms(1-5)
proof (induction "is" arbitrary: js f)
  case (Cons i "is")
  have i: "distinct js" "set js \<subseteq> {..<D + P}" "i < D + P" "i \<notin> set js"
    using Cons.prems by auto
  show ?case
  proof (cases "is = []")
    case True
    then have "Suc (length js) = D" using Cons.prems(4) by simp
    from piece_last [OF Cons.prems(1) i this grp] obtain f' where
      "dec_event x f (piece D start pls par i) =
         Some (f', if set (js @ [i]) = {..<D} then [] else recovered start pls)" by blast
    with True show ?thesis by simp
  next
    case False
    then have lt: "Suc (length js) < D" using Cons.prems(4) by (cases "is") auto
    obtain f1 where f1: "dec_event x f (piece D start pls par i) = Some (f1, [])"
      "gathering D P start (code_word pls par) (js @ [i]) f1"
      using piece_more [OF Cons.prems(1) i lt grp] by blast
    have "set (js @ i # is) = set ((js @ [i]) @ is)" by simp
    moreover obtain f' where "dec_run x f1 (map (piece D start pls par) is) =
        Some (f', if set ((js @ [i]) @ is) = {..<D} then [] else recovered start pls)"
      using Cons.IH [OF f1(2)] Cons.prems False by auto
    ultimately show ?thesis using f1(1) by (simp only: list.map dec_run.simps option.case prod.case
        append_Nil) blast
  qed
qed simp

subsection \<open>Parity that never meets its data\<close>

text \<open>Groups by what they hold: data only at an aligned key, parity only elsewhere.\<close>

definition split_group :: "nat \<Rightarrow> u32 \<Rightarrow> FecGroup \<Rightarrow> bool" where
  "split_group D k g \<longleftrightarrow>
     (if unat k mod D = 0 then \<forall>i<length (g_shards g). D \<le> i \<longrightarrow> g_shards g ! i = None
      else \<forall>i<length (g_shards g). i < D \<longrightarrow> g_shards g ! i = None)"

definition split_groups :: "FecDecoder \<Rightarrow> bool" where
  "split_groups f \<longleftrightarrow> (\<forall>k g. map_of (groups f) k = Some g \<longrightarrow>
     split_group (nat (DataShards (fd_config f))) k g)"

lemma getOrCreateGroup_split:
  assumes "split_groups f" and "getOrCreateGroup k f = (g, f')"
  shows "split_groups f' \<and> split_group (nat (DataShards (fd_config f))) k g"
proof (cases "map_of (groups f) k")
  case (Some h)
  with assms show ?thesis by (auto simp: getOrCreateGroup_def split_groups_def)
next
  case None
  then have f': "f' = f\<lparr>groups := AList.update k g (groups f)\<rparr>"
    and "split_group (nat (DataShards (fd_config f))) k g"
    using assms(2) by (auto simp: getOrCreateGroup_def Let_def split_group_def)
  with assms(1) show ?thesis by (simp add: split_groups_def amap_simps)
qed

lemma full_count:
  assumes "length s = d + p" and "\<forall>i<d + p. d \<le> i \<longrightarrow> s ! i = None"
    and "d \<le> length (filter (\<lambda>q. q \<noteq> None) s)"
  shows "None \<notin> set (take d s)"
proof -
  have e: "filter (\<lambda>q. q \<noteq> None) (drop d s) = []"
    using assms(1,2) by (auto simp: filter_empty_conv in_set_conv_nth)
  have "filter (\<lambda>q. q \<noteq> None) (take d s @ drop d s) = filter (\<lambda>q. q \<noteq> None) (take d s)"
    unfolding filter_append e by (rule append_Nil2)
  then have "d \<le> length (filter (\<lambda>q. q \<noteq> None) (take d s))"
    using assms(3) by (simp only: append_take_drop_id)
  moreover have "length (take d s) = d" using assms(1) by simp
  ultimately show ?thesis using length_filter_less [of None "take d s" "\<lambda>q. q \<noteq> None"] by auto
qed

lemma store_shard_split:
  assumes "fd_wf f" and "split_groups f" and "map_of (groups f) k = Some g"
    and "idx < length (g_shards g)" and "g_shards g ! idx = None"
    and "unat k mod nat (DataShards (fd_config f)) = 0 \<longleftrightarrow> idx < nat (DataShards (fd_config f))"
    and "store_shard x g idx shard f = Some (f', out)"
  shows "split_groups f' \<and> out = []"
proof -
  let ?D = "nat (DataShards (fd_config f))" and ?P = "nat (ParityShards (fd_config f))"
  let ?g = "g\<lparr>g_shards := (g_shards g)[idx := Some shard], received := received g + 1\<rparr>"
  let ?f = "f\<lparr>groups := AList.update k ?g (groups f)\<rparr>"
  have wg: "group_wf (fd_config f) k g" "g_startSeq g = k" "length (g_shards g) = ?D + ?P"
    using group_of_wf [OF assms(1,3)] by (simp_all add: group_wf_def)
  have sg: "split_group ?D k ?g"
    using assms(2,3,6) by (auto simp: split_groups_def split_group_def nth_list_update)
  have sf: "split_groups ?f" "split_groups (f\<lparr>groups := AList.delete k (AList.update k ?g (groups f))\<rparr>)"
    using assms(2) sg by (auto simp: split_groups_def amap_simps)
  have count: "received ?g = int (length (filter (\<lambda>q. q \<noteq> None) (g_shards ?g)))"
    using wg(1) length_filter_update [OF assms(4,5), of shard] by (simp add: group_wf_def)
  have e: "checkRecover x ?g ?f = Some (f', out)"
    using assms(7) wg(2) by (simp add: store_shard_def Let_def)
  show ?thesis
  proof (cases "DataShards (fd_config f) \<le> received ?g")
    case False
    then show ?thesis using e sf by (simp add: checkRecover_def Let_def)
  next
    case True
    have l: "length (g_shards ?g) = ?D + ?P" and c: "?D \<le> length (filter (\<lambda>q. q \<noteq> None) (g_shards ?g))"
      using wg(3) True count by simp_all
    have "None \<notin> set (take ?D (g_shards ?g))"
    proof (cases "unat k mod ?D = 0")
      case True
      then show ?thesis using sg l by (intro full_count [OF l _ c]) (simp add: split_group_def)
    next
      case False
      have "?P < ?D" using assms(1) by (auto simp: fd_wf_def shape_ok_def)
      then obtain i a where "i < ?D" "g_shards ?g ! i = Some a"
        using some_data_shard [OF l _ c] by blast
      then show ?thesis using sg False l by (auto simp: split_group_def)
    qed
    then show ?thesis using e sf True wg(2) by (auto simp: checkRecover_def Let_def split: if_splits)
  qed
qed

definition parity_misaligned :: "nat \<Rightarrow> fec_event \<Rightarrow> bool" where
  "parity_misaligned D e \<longleftrightarrow>
     (case e of GotParity s i pl \<Rightarrow> unat s mod D \<noteq> 0 | Configured c \<Rightarrow> False | _ \<Rightarrow> True)"

lemma AddData_split:
  assumes "fd_wf f" and "split_groups f" and "AddData x seq pl f = Some (f', out)"
  shows "split_groups f' \<and> out = []"
proof -
  define ds where "ds = (of_int (DataShards (fd_config f)) :: u32)"
  have ds: "unat ds = nat (DataShards (fd_config f))" "ds \<noteq> 0" "0 < DataShards (fd_config f)"
    using shard_count_word assms(1) by (simp_all add: ds_def fd_wf_def shape_ok_def)
  have idx: "unat (seq mod ds) < nat (DataShards (fd_config f))"
    using ds(3) by (simp add: unat_mod_distrib ds(1))
  have "unat (seq div ds * ds) = unat (seq div ds) * unat ds"
  proof -
    have "unat (seq div ds) * unat ds \<le> unat seq" by (simp add: unat_div_distrib)
    also have "unat seq < 2 ^ LENGTH(32)" by (rule unsigned_less)
    finally show ?thesis by (simp add: unat_word_ariths)
  qed
  then have aligned: "unat (seq div ds * ds) mod nat (DataShards (fd_config f)) = 0"
    by (simp add: ds(1))
  obtain g f1 where g: "getOrCreateGroup (seq div ds * ds) f = (g, f1)" by fastforce
  note w = getOrCreateGroup_wf [OF assms(1) g] and s = getOrCreateGroup_split [OF assms(2) g]
  have e: "AddData x seq pl f = (if g_shards g ! unat (seq mod ds) = None
      then store_shard x g (unat (seq mod ds)) (data_shard pl) f1 else Some (f1, []))"
    unfolding AddData_def Let_def ds_def [symmetric]
    using g ds w idx by (simp add: data_shard_def group_wf_def)
  show ?thesis
  proof (cases "g_shards g ! unat (seq mod ds) = None")
    case True
    show ?thesis
      by (rule store_shard_split [of f1 "seq div ds * ds" g "unat (seq mod ds)" x "data_shard pl"])
         (use w s True idx aligned e assms(3) in \<open>auto simp: group_wf_def\<close>)
  next
    case False
    then have "f' = f1" "out = []" using e assms(3) by auto
    then show ?thesis using s by simp
  qed
qed

lemma AddParity_split:
  assumes "fd_wf f" and "split_groups f" and "AddParity x k i pl f = Some (f', out)"
    and "unat k mod nat (DataShards (fd_config f)) \<noteq> 0"
  shows "split_groups f' \<and> out = []"
proof -
  obtain g f1 where g: "getOrCreateGroup k f = (g, f1)" by fastforce
  note w = getOrCreateGroup_wf [OF assms(1) g] and s = getOrCreateGroup_split [OF assms(2) g]
  let ?idx = "nat (DataShards (fd_config f1)) + unat i"
  show ?thesis
  proof (cases "?idx < length (g_shards g) \<and> g_shards g ! ?idx = None")
    case True
    then have "store_shard x g ?idx pl f1 = Some (f', out)"
      using assms(3) g by (simp add: AddParity_def Let_def)
    then show ?thesis
      using w s assms(4) True by (intro store_shard_split [of f1 k g ?idx x pl f' out]) auto
  next
    case False
    then show ?thesis using assms(3) g s by (auto simp: AddParity_def Let_def)
  qed
qed

lemma dec_run_split:
  assumes "rs_valid x"
  shows "fd_wf f \<Longrightarrow> split_groups f \<Longrightarrow>
    list_all (parity_misaligned (nat (DataShards (fd_config f)))) es \<Longrightarrow>
    dec_run x f es = Some (f', out) \<Longrightarrow> out = []"
proof (induction es arbitrary: f out)
  case (Cons e es)
  obtain f1 o1 o2 where r: "dec_event x f e = Some (f1, o1)" "dec_run x f1 es = Some (f', o2)"
    "out = o1 @ o2"
    using Cons.prems(4) by (auto split: option.splits)
  have "fd_wf f1 \<and> fd_config f1 = fd_config f \<and> split_groups f1 \<and> o1 = []"
  proof (cases e)
    case (GotData seq pl)
    then show ?thesis using r(1) AddData_wf [OF assms Cons.prems(1), of seq pl]
      AddData_split [OF Cons.prems(1,2), of x seq pl f1 o1] by auto
  next
    case (GotParity s i pl)
    then show ?thesis using r(1) AddParity_wf [OF assms Cons.prems(1), of s i pl] Cons.prems(3)
      AddParity_split [OF Cons.prems(1,2), of x s i pl f1 o1] by (auto simp: parity_misaligned_def)
  next
    case (GroupTimeout s)
    then show ?thesis using r(1) group_timeout_wf [OF Cons.prems(1), of s] Cons.prems(2)
      by (auto simp: group_timeout_def split_groups_def amap_simps split: if_splits)
  next
    case (Configured c)
    then show ?thesis using Cons.prems(3) by (simp add: parity_misaligned_def)
  qed
  with r Cons.IH [of f1 o2] Cons.prems(3) show ?case by simp
qed simp

lemma flush_wf:
  assumes "rs_valid x" and "fe_wf f"
  shows "\<exists>f' out. flush x f = Some (f', out) \<and> fe_wf f'"
  using flushLocked_wf [OF assms(1), of f] assms(2) unfolding flush_def
  by (auto simp: fe_wf_def)

subsection \<open>The hand-over\<close>

lemma reconf_invariant:
  assumes "reconf_step c s t" and "fst s = Done \<longrightarrow> snd (snd s) @ fst (snd s) \<noteq> []
      \<and> last (snd (snd s) @ fst (snd s)) = c"
    and "length (fst (snd s)) \<le> 1"
  shows "(fst t = Done \<longrightarrow> snd (snd t) @ fst (snd t) \<noteq> [] \<and> last (snd (snd t) @ fst (snd t)) = c)
    \<and> length (fst (snd t)) \<le> 1"
  using assms by (cases rule: reconf_stepE) auto

interpretation handover: invariant_system
  "\<lambda>s. fst s = Selecting \<and> length (fst (snd s)) \<le> 1" "reconf_step c"
  "\<lambda>s. (fst s = Done \<longrightarrow> snd (snd s) @ fst (snd s) \<noteq> [] \<and> last (snd (snd s) @ fst (snd s)) = c)
     \<and> length (fst (snd s)) \<le> 1"
  for c
  by unfold_locales (auto dest: reconf_invariant)

subsection \<open>The demo code\<close>

lemma map2_xor_cancel:
  "length a = length b \<Longrightarrow> map2 (XOR) b (map2 (XOR) a b) = (a :: bytes)"
  "length a = length b \<Longrightarrow> map2 (XOR) a (map2 (XOR) a b) = (b :: bytes)"
proof -
  have x: "u XOR (v XOR u) = v" "v XOR (v XOR u) = u" for u v :: u8
    by (auto intro!: bit_word_eqI simp: bit_simps)
  show "length a = length b \<Longrightarrow> map2 (XOR) b (map2 (XOR) a b) = a"
    by (induction a b rule: list_induct2) (simp_all add: x)
  show "length a = length b \<Longrightarrow> map2 (XOR) a (map2 (XOR) a b) = b"
    by (induction a b rule: list_induct2) (simp_all add: x)
qed

lemma map2_xor_commute: "map2 (XOR) a b = map2 (XOR) b (a :: bytes)"
  by (induction a b rule: list_induct2') (simp_all add: xor.commute)

lemma map2_xor_zeros:
  "length a = n \<Longrightarrow> map2 (XOR) a (replicate n 0) = (a :: bytes)"
  by (induction a arbitrary: n) (auto simp: Suc_length_conv)

lemma demo_rs_correct: "rs_correct demo 2 1"
  unfolding rs_correct_def
proof (intro allI impI)
  fix data :: "bytes list" and L
  assume d: "length data = 2 \<and> 0 < L \<and> (\<forall>s\<in>set data. length s = L)"
  then obtain a b where ab: "data = [a, b]" "length a = length b"
    by (auto simp: length_Suc_conv numeral_2_eq_2)
  let ?c = "map2 (XOR) a b"
  have par: "rs_parity demo 2 1 data = Some [?c]"
    using ab by (simp add: demo_def demo_parity_def xor_shards_def)
  have "rs_reconstruct demo 2 1 s = Some [Some a, Some b, Some ?c]"
    if "erasure_of [a, b, ?c] s" and "2 \<le> length (filter (\<lambda>q. q \<noteq> None) s)" for s
  proof -
    have l: "length s = 3" and "\<forall>i<3. s ! i = None \<or> s ! i = Some ([a, b, ?c] ! i)"
      using that(1) by (simp_all add: erasure_of_def)
    then have "s ! 0 \<in> {None, Some a}" "s ! 1 \<in> {None, Some b}" "s ! 2 \<in> {None, Some ?c}"
      by (auto simp: numeral_3_eq_3 less_Suc_eq numeral_2_eq_2)
    moreover have "s = [s ! 0, s ! 1, s ! 2]"
      using l by (intro nth_equalityI) (auto simp: numeral_3_eq_3 less_Suc_eq numeral_2_eq_2)
    ultimately have "s = [None, Some b, Some ?c] \<or> s = [Some a, None, Some ?c]
        \<or> s = [Some a, Some b, None] \<or> s = [Some a, Some b, Some ?c]"
      using that(2) by (elim insertE emptyE) auto
    then show ?thesis
      using ab(2) by (elim disjE)
        (simp_all add: demo_def demo_reconstruct_def xor_shards_def map2_xor_cancel)
  qed
  then show "\<exists>par. rs_parity demo 2 1 data = Some par \<and> length par = 1
      \<and> (\<forall>s. erasure_of (data @ par) s \<and> 2 \<le> length (filter (\<lambda>q. q \<noteq> None) s)
           \<longrightarrow> rs_reconstruct demo 2 1 s = Some (map Some (data @ par)))"
    using par ab(1) by (intro exI [of _ "[?c]"]) simp
qed

definition demo_fec :: "int \<Rightarrow> FECConfig" where
  "demo_fec d = \<lparr>DataShards = d, ParityShards = 1, AutoAdjust = False, PacketLoss = 0\<rparr>"

definition demo_enc :: "int \<Rightarrow> FecEncoder" where
  "demo_enc d = the (NewFecEncoder demo (Some (demo_fec d)))"

definition demo_dec :: "int \<Rightarrow> FecDecoder" where
  "demo_dec d = the (NewFecDecoder demo (Some (demo_fec d)))"

lemma demo_enc_simps: "0 < d \<Longrightarrow> demo_enc d = \<lparr> fe_encoder = (d, 1), fe_shards = [],
    dataCount = 0, fe_startSeq = 0, flushTimer = False, fe_config = demo_fec d, fe_configCh = [] \<rparr>"
  by (simp add: demo_enc_def NewFecEncoder_def demo_fec_def demo_def)

lemma demo_dec_simps: "0 < d \<Longrightarrow> demo_dec d =
    \<lparr> fd_encoder = (d, 1), groups = [], fd_config = demo_fec d, fd_configCh = [] \<rparr>"
  by (simp add: demo_dec_def NewFecDecoder_def demo_fec_def demo_def)

lemma demo_fec_wf: "1 < d \<Longrightarrow> d < 2 ^ 32 \<Longrightarrow> fe_wf (demo_enc d) \<and> fd_wf (demo_dec d)"
  by (simp add: demo_enc_simps demo_dec_simps fe_wf_def fd_wf_def shape_ok_def demo_fec_def)

lemma replicate_3: "replicate 3 a = [a, a, a]"
  by (simp add: numeral_eq_Suc)

lemma replicate_4: "replicate 4 a = [a, a, a, a]"
  by (simp add: numeral_eq_Suc)

lemma nth_parity_packets:
  "i < length par \<Longrightarrow> parity_packets start par ! i = (start, of_nat i, par ! i)"
  by (simp add: parity_packets_def)

text \<open>The run in which a group of three is flushed after its first packet.\<close>

lemma partial_flush_enc:
  "\<exists>fe1 fe2. AddDataPacket demo 0 A (demo_enc 3) = Some (fe1, [])
     \<and> flush demo fe1 = Some (fe2, [(0, 0, data_shard A)])"
proof -
  have "collecting 3 1 0 [] (demo_enc 3)"
    using demo_fec_wf [of 3] by (simp add: collecting_def demo_enc_simps demo_fec_def)
  from AddDataPacket_collecting [OF this, of 0 demo A] obtain fe1 where
    a: "AddDataPacket demo 0 A (demo_enc 3) = Some (fe1, [])" and
    f: "fe_config fe1 = fe_config (demo_enc 3)" "fe_encoder fe1 = (3, 1)" "dataCount fe1 = 1"
      "fe_startSeq fe1 = 0" "fe_shards fe1 = group_shards 3 1 [A]"
    by auto
  let ?z = "replicate 1200 (0 :: u8)"
  have x: "map2 (XOR) (map2 (XOR) (data_shard A) ?z) ?z = data_shard A"
    using map2_xor_zeros [of "data_shard A" 1200] by simp
  have "group_shards 3 1 [A] = [data_shard A, ?z, ?z, ?z]"
    by (simp add: group_shards_def FECMaxPayload_def replicate_3)
  then have "flush demo fe1 = Some (fe1\<lparr>flushTimer := False, dataCount := 0,
      fe_shards := [data_shard A, ?z, ?z, data_shard A]\<rparr>, [(0, 0, data_shard A)])"
    using f x by (simp add: flush_def flushLocked_def demo_enc_simps demo_fec_def rs_encode_def
        demo_def demo_parity_def xor_shards_def Let_def numeral_3_eq_3 upt_rec)
  with a show ?thesis by blast
qed

lemma partial_flush_dec:
  assumes "recoverable A" and "recoverable B"
  shows "\<exists>fd'. dec_run demo (demo_dec 3) [GotData 0 A, GotData 1 B, GotParity 0 0 (data_shard A)]
      = Some (fd', [(0, A), (1, B), (2, B)])"
proof -
  let ?g = "\<lambda>s n. \<lparr>g_startSeq = (0 :: u32), g_shards = s, received = n, g_timer = True\<rparr>"
  let ?f = "\<lambda>gs. \<lparr> fd_encoder = (3, 1), groups = gs, fd_config = demo_fec 3, fd_configCh = [] \<rparr>"
  let ?A = "data_shard A" and ?B = "data_shard B"
  note ev = AddData_def AddParity_def getOrCreateGroup_def store_shard_def checkRecover_def Let_def
    demo_fec_def
  have 1: "AddData demo 0 A (demo_dec 3) = Some (?f [(0, ?g [Some ?A, None, None, None] 1)], [])"
    by (simp add: ev demo_dec_simps replicate_4 data_shard_def)
  have 2: "AddData demo 1 B (?f [(0, ?g [Some ?A, None, None, None] 1)])
      = Some (?f [(0, ?g [Some ?A, Some ?B, None, None] 2)], [])"
    by (simp add: ev data_shard_def)
  have x: "map2 (XOR) (map2 (XOR) ?A ?B) ?A = ?B"
    using map2_xor_cancel(2) [of ?A ?B] by (simp add: map2_xor_commute)
  have r: "rs_reconstruct demo 3 1 [Some ?A, Some ?B, None, Some ?A]
      = Some [Some ?A, Some ?B, Some ?B, Some ?A]"
    using x by (simp add: demo_def demo_reconstruct_def xor_shards_def)
  have s: "recover_shards 0 [Some ?A, Some ?B, Some ?B] = Some [(0, A), (1, B), (2, B)]"
    using recover_data_shards [of "[A, B, B]" 0] assms by (simp add: recoverable_def FECMaxPayload_def)
  have 3: "AddParity demo 0 0 ?A (?f [(0, ?g [Some ?A, Some ?B, None, None] 2)])
      = Some (?f [], [(0, A), (1, B), (2, B)])"
    using r s by (simp add: ev numeral_3_eq_3)
  show ?thesis using 1 2 3 by simp
qed

section \<open>Properties\<close>

text \<open>C6. Recovery. A sender hands its FEC encoder a whole group of payloads with
  consecutive sequence numbers from a multiple of the group size; the receiver's decoder, of the
  same shape, sees any \<open>D\<close> of the data and parity packets, in any order, at least one data
  packet missing. Then the decoder hands on every payload of the group with its own sequence
  number, those of 1 to 1198 bytes: a payload of 1199 or 1200 bytes (the segment size the
  connection writes) was cut to fit its shard and is never recovered.\<close>

theorem fec_recovers:
  assumes "rs_correct x D P" and "P \<le> 256"
    and "fe_wf fe" and "dataCount fe = 0"
    and "DataShards (fe_config fe) = int D" and "ParityShards (fe_config fe) = int P"
    and "fd_wf fd" and "DataShards (fd_config fd) = int D" and "ParityShards (fd_config fd) = int P"
    and "map_of (groups fd) start = None"
    and "unat start mod D = 0" and "unat start + D \<le> 2 ^ 32"
    and "length pls = D" and "\<forall>pl\<in>set pls. length pl < 2 ^ 16"
    and "distinct is" and "set is \<subseteq> {..<D + P}" and "length is = D" and "set is \<noteq> {..<D}"
  shows "\<exists>fe' out. enc_run x fe (zip (map (\<lambda>i. start + of_nat i) [0..<D]) pls) = Some (fe', out)
    \<and> (\<exists>fd'. dec_run x fd (map (\<lambda>i. if i < D then GotData (start + of_nat i) (pls ! i)
          else GotParity (fst (out ! (i - D))) (fst (snd (out ! (i - D)))) (snd (snd (out ! (i - D))))) is)
        = Some (fd', recovered start pls))"
proof -
  let ?ps = "zip (map (\<lambda>i. start + of_nat i) [0..<D]) pls"
  have D: "0 < D" using assms(3,5) by (simp add: fe_wf_def)
  have "length (map data_shard pls) = D \<and> (0::nat) < 1200
      \<and> (\<forall>s\<in>set (map data_shard pls). length s = 1200)" using assms(13) by auto
  then obtain par where par: "rs_parity x D P (map data_shard pls) = Some par" "length par = P"
    using assms(1) unfolding rs_correct_def by (metis (no_types, lifting))
  have "collecting D P start [] fe" using assms(3-6) by (simp add: collecting_def)
  moreover have "?ps \<noteq> []" "fst (hd ?ps) = start" "length ?ps = D" "map snd ?ps = pls"
    using D assms(13) by (cases pls; simp add: hd_zip hd_map)+
  ultimately obtain fe' where fe': "enc_run x fe ?ps = Some (fe', parity_packets start par)"
    using enc_run_group [of D P start "[]" fe ?ps x par] par by auto
  have grp: "fec_group x D P start pls par"
    using assms(1,2,11-14) par by (simp add: fec_group_def)
  have "gathering D P start (code_word pls par) [] fd"
    using assms(7-10) code_word_facts [OF grp] by (simp add: gathering_def)
  then obtain fd' where "dec_run x fd (map (piece D start pls par) is) = Some (fd', recovered start pls)"
    using run_pieces [of D P start pls par "[]" fd "is" x, OF _ _ _ _ _ grp] assms(15-18) D by auto
  moreover have "map (piece D start pls par) is = map (\<lambda>i. if i < D then GotData (start + of_nat i) (pls ! i)
      else GotParity (fst (parity_packets start par ! (i - D)))
        (fst (snd (parity_packets start par ! (i - D)))) (snd (snd (parity_packets start par ! (i - D))))) is"
    using assms(16) par(2) by (auto simp: piece_def nth_parity_packets subset_iff)
  ultimately show ?thesis using fe' by auto
qed

theorem fec_recovers_witness:
  "\<exists>fe' out. enc_run demo (demo_enc 2) [(0, [1]), (1, [2, 3])] = Some (fe', out)
    \<and> (\<exists>fd'. dec_run demo (demo_dec 2) [GotData 0 [1], GotParity (fst (out ! 0)) (fst (snd (out ! 0)))
          (snd (snd (out ! 0)))] = Some (fd', [(0, [1]), (1, [2, 3])]))"
proof -
  have z: "zip (map (\<lambda>i. 0 + of_nat i) [0..<2]) [[1], [2, 3]] = [(0 :: u32, [1 :: u8]), (1, [2, 3])]"
    by (simp add: upt_rec)
  have r: "recovered 0 [[1], [2, 3]] = [(0, [1]), (1, [2, 3])]"
    by (simp add: recoverable_def FECMaxPayload_def)
  have f: "dataCount (demo_enc 2) = 0" "DataShards (fe_config (demo_enc 2)) = 2"
    "ParityShards (fe_config (demo_enc 2)) = 1" "DataShards (fd_config (demo_dec 2)) = 2"
    "ParityShards (fd_config (demo_dec 2)) = 1" "groups (demo_dec 2) = []"
    by (simp_all add: demo_enc_simps demo_dec_simps demo_fec_def)
  have s: "set [0, 2] \<noteq> {..<2 :: nat}" by auto
  show ?thesis
    using fec_recovers [of demo 2 1 "demo_enc 2" "demo_dec 2" 0 "[[1], [2, 3]]" "[0, 2]"]
      demo_rs_correct demo_fec_wf [of 2] f s unfolding z r
    by (simp del: enc_run.simps dec_run.simps)
qed

text \<open>Parity whose group does not start at a multiple of the group size is never put
  together with data: the decoder keys data by multiples, so as long as every parity packet that
  arrives is of such a group (which is what follows the first flush of an incomplete group),
  nothing is ever recovered, whatever else arrives or times out.\<close>

theorem fec_misaligned_useless:
  assumes "rs_valid x" and "fd_wf fd" and "groups fd = []"
    and "list_all (parity_misaligned (nat (DataShards (fd_config fd)))) es"
    and "dec_run x fd es = Some (fd', out)"
  shows "out = []"
  by (rule dec_run_split [OF assms(1,2) _ assms(4,5)]) (simp add: split_groups_def assms(3))

theorem fec_misaligned_useless_witness:
  "\<exists>fd' out. dec_run demo (demo_dec 2) [GotData 0 [1], GotParity 1 0 [5, 5]] = Some (fd', out) \<and> out = []"
proof -
  have "fd_wf (demo_dec 2)" using demo_fec_wf [of 2] by simp
  then obtain fd' out where r: "dec_run demo (demo_dec 2) [GotData 0 [1], GotParity 1 0 [5, 5]] = Some (fd', out)"
    using dec_run_wf [OF demo_rs_valid, of "demo_dec 2" "[GotData 0 [1], GotParity 1 0 [5, 5]]"]
    by (auto simp: fec_event_ok_def)
  have "out = []"
    by (rule fec_misaligned_useless [OF demo_rs_valid \<open>fd_wf (demo_dec 2)\<close> _ _ r])
       (simp_all add: demo_dec_simps demo_fec_def parity_misaligned_def)
  with r show ?thesis by blast
qed

text \<open>An incomplete group that the 50 ms timer flushes has its parity computed over zero
  shards, while the receiver fills those places with the packets that follow: with three data
  shards, the timer after packet 0, packets 0 and 1 received and packet 2 lost, the decoder
  announces packet 2 with the contents of packet 1.\<close>

theorem fec_partial_flush_corrupts:
  assumes "recoverable A" and "recoverable B"
  shows "\<exists>fe1 fe2 s k pl fd'. AddDataPacket demo 0 A (demo_enc 3) = Some (fe1, [])
    \<and> flush demo fe1 = Some (fe2, [(s, k, pl)])
    \<and> dec_run demo (demo_dec 3) [GotData 0 A, GotData 1 B, GotParity s k pl]
        = Some (fd', [(0, A), (1, B), (2, B)])"
  using partial_flush_enc [of A] partial_flush_dec [OF assms] by blast

theorem fec_partial_flush_corrupts_witness:
  "\<exists>fe1 fe2 s k pl fd'. AddDataPacket demo 0 [1] (demo_enc 3) = Some (fe1, [])
    \<and> flush demo fe1 = Some (fe2, [(s, k, pl)])
    \<and> dec_run demo (demo_dec 3) [GotData 0 [1], GotData 1 [9], GotParity s k pl]
        = Some (fd', [(0, [1]), (1, [9]), (2, [9])])"
  by (rule fec_partial_flush_corrupts) (simp_all add: recoverable_def FECMaxPayload_def)

text \<open>C30. Neither end can be made to panic, and both keep their invariants (shard counts
  agree with the configuration, a group holds as many shards as it has counted and fewer than
  it needs): whatever packets the encoder is given, and whatever data, parity of any size,
  timeouts and configurations with more data than parity shards reach the decoder.\<close>

theorem fec_no_panic:
  assumes "rs_valid x"
  shows "(fe_wf fe \<longrightarrow> (\<exists>fe' out. AddDataPacket x seq pl fe = Some (fe', out) \<and> fe_wf fe')
        \<and> (\<exists>fe' out. flush x fe = Some (fe', out) \<and> fe_wf fe') \<and> fe_wf (enc_configure x c fe))
    \<and> (fd_wf fd \<and> list_all fec_event_ok es \<longrightarrow> (\<exists>fd' out. dec_run x fd es = Some (fd', out) \<and> fd_wf fd'))"
  using AddDataPacket_wf [OF assms] flush_wf [OF assms] enc_configure_wf [OF assms]
    dec_run_wf [OF assms] by blast

theorem fec_no_panic_witness:
  "\<exists>fd' out. dec_run demo (demo_dec 3) [GotParity 3 0 [], GotData 4 [], GotData 3 [], GroupTimeout 3]
     = Some (fd', out) \<and> fd_wf fd'"
  using fec_no_panic [OF demo_rs_valid, of "demo_enc 3" 0 "[]" "demo_fec 3" "demo_dec 3"
      "[GotParity 3 0 [], GotData 4 [], GotData 3 [], GroupTimeout 3]"] demo_fec_wf [of 3]
  by (simp add: fec_event_ok_def)

text \<open>The adaptive configuration: the shard counts it sets are always ones Reed-Solomon
  and the decoder accept, at most 36 shards in all, and a higher loss never lowers the share of
  parity; with automatic adjustment off the shape is untouched.\<close>

theorem fec_adaptive_shape:
  assumes "mono fl"
  shows "PacketLoss (GetAdjusted fl c l) = l \<and> AutoAdjust (GetAdjusted fl c l) = AutoAdjust c
    \<and> (if AutoAdjust c
       then shape_ok (GetAdjusted fl c l)
         \<and> DataShards (GetAdjusted fl c l) + ParityShards (GetAdjusted fl c l) \<le> 36
         \<and> (l \<le> l' \<longrightarrow> ParityShards (GetAdjusted fl c l) * DataShards (GetAdjusted fl c l')
                \<le> ParityShards (GetAdjusted fl c l') * DataShards (GetAdjusted fl c l))
       else same_shape (GetAdjusted fl c l) c)"
proof -
  have m: "fl (5 / 1000) \<le> fl (2 / 100)" "fl (2 / 100) \<le> fl (5 / 100)" "fl (5 / 100) \<le> fl (10 / 100)"
    using assms by (auto intro!: monoD [OF assms])
  show ?thesis
  proof (cases "AutoAdjust c")
    case True
    show ?thesis
      unfolding GetAdjusted_def Let_def using True m
      by (simp add: shape_ok_def)
  next
    case False
    then show ?thesis by (simp add: GetAdjusted_def Let_def same_shape_def)
  qed
qed

theorem fec_adaptive_shape_witness:
  "DataShards (GetAdjusted (\<lambda>r. r) NewFECConfig (1 / 2)) + ParityShards (GetAdjusted (\<lambda>r. r) NewFECConfig (1 / 2))
     \<le> 36"
  using fec_adaptive_shape [of "\<lambda>r. r" NewFECConfig "1 / 2" 0]
  by (simp add: NewFECConfig_def mono_def split: if_splits)

text \<open>Handing over a configuration. Whatever the interleaving, once \<^verbatim>\<open>Reconfigure\<close>
  returns, the configuration the goroutine will see last is the one handed over; but if the
  goroutine empties the channel between the caller's two looks at it, the caller, which in the
  engine holds the send lock, waits for a configuration nobody will send: no step is left.\<close>

theorem fec_reconfigure:
  "(reachable (\<lambda>s. fst s = Selecting \<and> length (fst (snd s)) \<le> 1) (reconf_step c) (pc, ch, taken)
      \<longrightarrow> length ch \<le> 1 \<and> (pc = Done \<longrightarrow> taken @ ch \<noteq> [] \<and> last (taken @ ch) = c))
   \<and> (\<forall>old. \<exists>taken. reachable (\<lambda>s. s = (Selecting, [old], [])) (reconf_step c) (Draining, [], taken)
      \<and> (\<forall>t. \<not> reconf_step c (Draining, [], taken) t))"
proof -
  have "length ch \<le> 1 \<and> (pc = Done \<longrightarrow> taken @ ch \<noteq> [] \<and> last (taken @ ch) = c)"
    if "reachable (\<lambda>s. fst s = Selecting \<and> length (fst (snd s)) \<le> 1) (reconf_step c) (pc, ch, taken)"
    using handover.reachable_inv [OF that] by simp
  moreover have "reachable (\<lambda>s. s = (Selecting, [old], [])) (reconf_step c) (Draining, [], [old])" for old
  proof -
    have "reachable (\<lambda>s. s = (Selecting, [old], [])) (reconf_step c) (Draining, [old], [])"
      by (rule reach_step [OF reach_start]) (auto intro: found_full)
    then show ?thesis by (rule reach_step) (use loop_takes [of c Draining old "[]" "[]"] in simp)
  qed
  moreover have "\<not> reconf_step c (Draining, [], [old]) t" for old t
    by (auto elim: stuck_stepE)
  ultimately show ?thesis by blast
qed

theorem fec_reconfigure_witness:
  "\<exists>taken. \<forall>t. \<not> reconf_step NewFECConfig (Draining, [], taken) t"
  using fec_reconfigure [of NewFECConfig Selecting "[]" "[]"] by blast

end
