(* ===== verification/Arq.thy ===== *)
theory Arq
  imports Packet Pacer Fec "HOL-Library.Sublist"
begin

text \<open>
  The reliable-delivery engine (\<^verbatim>\<open>pkg/mtp/arq.go\<close>). The state is the whole of
  \<^verbatim>\<open>ARQEngine\<close>, with its codec, pacer and FEC ends; the bytes handed to \<^verbatim>\<open>sendFunc\<close> are
  appended to \<open>outbox\<close>, and the goroutines \<^verbatim>\<open>go arq.HandlePacket(pkt)\<close> that the FEC decoder
  starts are collected in \<open>spawned\<close>. Each section of the source that runs under a lock is one
  definition; an operation that takes a lock several times is the composition of such
  definitions. What the environment supplies is an argument: clock readings, nonces, the order
  in which a map is ranged over. An \<open>option\<close> result is \<open>None\<close> where the source panics.
\<close>

section \<open>Constants and state\<close>

definition MaxWindowSize :: int where "MaxWindowSize = 2048"
definition InitialRTO :: int where "InitialRTO = 100000000"
definition MinRTO :: int where "MinRTO = 10000000"
definition MaxRTO :: int where "MaxRTO = 5000000000"
definition MaxRetransmissions :: int where "MaxRetransmissions = 8"
definition DelayedACKThreshold :: int where "DelayedACKThreshold = 32"
definition MinRetransmitCheck :: int where "MinRetransmitCheck = 5000000"

record inflight =
  inf_pkt :: Packet
  inf_encoded :: bytes
  sentAt :: int
  retries :: int
  inf_delivered :: u64
  inf_size :: int

record ARQEngine =
  sendSeq :: u32
  sendWindow :: int
  ssthresh :: int
  unacked :: "(u32, inflight) gomap"
  recvNext :: u32
  recvBuf :: "(u32, Packet) gomap"
  delivered :: "Packet list" \<comment> \<open>the delivery channel\<close>
  deliverBufSize :: nat \<comment> \<open>its capacity\<close>
  unackedRecv :: int
  delayedACKTimer :: bool
  srtt :: int
  rttvar :: int
  rto :: int
  rttInit :: bool
  minRTT :: int
  btlBw :: rat
  bytesDelivered :: u64
  packetsLost :: u64
  packetsSent :: u64
  arq_codec :: PacketCodec
  pacer :: Pacer
  fecConfig :: FECConfig
  totalRetransmissions :: u64
  totalPacketsSent :: u64
  totalPacketsRecv :: u64
  totalBytesSent :: u64
  totalBytesRecv :: u64
  fecEnc :: "FecEncoder option" \<comment> \<open>None: nil\<close>
  fecDec :: "FecDecoder option"
  arq_closed :: bool
  outbox :: "bytes list"
  spawned :: "Packet list"

datatype arq_error = ErrEngineClosed | ErrEncode codec_error | ErrSend

definition NewARQEngine ::
  "externals \<Rightarrow> (rat \<Rightarrow> rat) \<Rightarrow> int \<Rightarrow> PacketCodec \<Rightarrow> nat \<Rightarrow> ARQEngine" where
  "NewARQEngine x fl now codec bufSize =
     \<lparr> sendSeq = 0, sendWindow = 256, ssthresh = 1024, unacked = [], recvNext = 0, recvBuf = [],
       delivered = [], deliverBufSize = bufSize, unackedRecv = 0, delayedACKTimer = False,
       srtt = 0, rttvar = 0, rto = InitialRTO, rttInit = False, minRTT = 10000000000, btlBw = 0,
       bytesDelivered = 0, packetsLost = 0, packetsSent = 0, arq_codec = codec,
       pacer = NewPacer fl now 10000 64, fecConfig = NewFECConfig, totalRetransmissions = 0,
       totalPacketsSent = 0, totalPacketsRecv = 0, totalBytesSent = 0, totalBytesRecv = 0,
       fecEnc = NewFecEncoder x (Some NewFECConfig), fecDec = NewFecDecoder x (Some NewFECConfig),
       arq_closed = False, outbox = [], spawned = [] \<rparr>"

text \<open>\<^verbatim>\<open>codec.Encode\<close> through the engine, and \<^verbatim>\<open>sendFunc\<close>.\<close>

definition arq_encode :: "externals \<Rightarrow> bytes option \<Rightarrow> Packet \<Rightarrow> ARQEngine
    \<Rightarrow> (codec_error failure + bytes) \<times> Packet \<times> ARQEngine" where
  "arq_encode x nonce pkt a =
     (case Encode x nonce (arq_codec a) pkt of
        (r, pkt', c') \<Rightarrow> (r, pkt', a\<lparr>arq_codec := c'\<rparr>))"

definition transmit :: "bytes \<Rightarrow> ARQEngine \<Rightarrow> ARQEngine" where
  "transmit w a = a\<lparr>outbox := outbox a @ [w]\<rparr>"

section \<open>Sending\<close>

text \<open>
  The wait for a free place in the window. The argument lists the engine as each round of the
  loop finds it under the lock, with the time since the wait began. After 30 seconds the
  source logs that it forces its way and executes \<^verbatim>\<open>break\<close>, which leaves the \<^verbatim>\<open>select\<close> and
  not the loop.
\<close>

datatype send_wait = Proceed | Refused | Waiting

fun Send_wait :: "(int \<times> ARQEngine) list \<Rightarrow> send_wait" where
  "Send_wait [] = Waiting"
| "Send_wait ((since, a) # rounds) =
     (if arq_closed a then Refused
      else if int (length (unacked a)) < sendWindow a then Proceed
      else Send_wait rounds)"

text \<open>The rest of the locked part of \<^verbatim>\<open>Send\<close>: number, encode, remember.\<close>

definition Send_enqueue :: "externals \<Rightarrow> bytes option \<Rightarrow> int \<Rightarrow> bytes \<Rightarrow> ARQEngine
    \<Rightarrow> (arq_error failure + u32 \<times> bytes) \<times> ARQEngine" where
  "Send_enqueue x nonce now payload a =
     (let seq = sendSeq a; a = a\<lparr>sendSeq := seq + 1\<rparr>;
          pkt = \<lparr> Type = PacketDATA, SeqNum = seq, AckNum = recvNext a, Flags = 0,
                  Payload = payload, SACKBlocks = [] \<rparr>
      in case arq_encode x nonce pkt a of
           (Inl (Err e), _, a) \<Rightarrow> (Inl (Err (ErrEncode e)), a)
         | (Inl Panic, _, a) \<Rightarrow> (Inl Panic, a)
         | (Inr encoded, pkt', a) \<Rightarrow>
             let infl = \<lparr> inf_pkt = pkt', inf_encoded = encoded, sentAt = now, retries = 0,
                         inf_delivered = bytesDelivered a, inf_size = int (length encoded) \<rparr>
             in (Inr (seq, encoded),
                 a\<lparr> unacked := AList.update seq infl (unacked a),
                    totalPacketsSent := totalPacketsSent a + 1, packetsSent := packetsSent a + 1,
                    totalBytesSent := totalBytesSent a + of_nat (length encoded) \<rparr>))"

text \<open>The \<^verbatim>\<open>onParity\<close> callback.\<close>

definition send_parity ::
  "externals \<Rightarrow> (u8 \<Rightarrow> bytes option) \<Rightarrow> u32 \<times> u8 \<times> bytes \<Rightarrow> ARQEngine \<Rightarrow> ARQEngine option" where
  "send_parity x nonces parity a =
     (case parity of (startSeq, idx, payload) \<Rightarrow>
        let pkt = \<lparr> Type = PacketFEC, SeqNum = startSeq, AckNum = recvNext a, Flags = idx,
                    Payload = payload, SACKBlocks = [] \<rparr>
        in case arq_encode x (nonces idx) pkt a of
             (Inl (Err e), _, a) \<Rightarrow> Some a
           | (Inl Panic, _, a) \<Rightarrow> None
           | (Inr encoded, _, a) \<Rightarrow> Some (transmit encoded a))"

definition Send_fec :: "externals \<Rightarrow> (u8 \<Rightarrow> bytes option) \<Rightarrow> u32 \<Rightarrow> bytes \<Rightarrow> ARQEngine
    \<Rightarrow> ARQEngine option" where
  "Send_fec x nonces seq payload a =
     (case fecEnc a of
        None \<Rightarrow> None
      | Some enc \<Rightarrow>
          (case AddDataPacket x seq payload enc of
             None \<Rightarrow> None
           | Some (enc', parity) \<Rightarrow>
               fold_opt (send_parity x nonces) parity (a\<lparr>fecEnc := Some enc'\<rparr>)))"

text \<open>The 50 ms timer of the FEC encoder.\<close>

definition fec_flush_timer :: "externals \<Rightarrow> (u8 \<Rightarrow> bytes option) \<Rightarrow> ARQEngine \<Rightarrow> ARQEngine option" where
  "fec_flush_timer x nonces a =
     (case fecEnc a of
        None \<Rightarrow> Some a
      | Some enc \<Rightarrow>
          (case flush x enc of
             None \<Rightarrow> None
           | Some (enc', parity) \<Rightarrow>
               fold_opt (send_parity x nonces) parity (a\<lparr>fecEnc := Some enc'\<rparr>)))"

text \<open>Pacing and transmission; \<open>None\<close> while \<^verbatim>\<open>pacer.Wait\<close> still polls.\<close>

definition Send_transmit :: "(rat \<Rightarrow> rat) \<Rightarrow> (int \<times> bool) list \<Rightarrow> bool \<Rightarrow> bytes \<Rightarrow> ARQEngine
    \<Rightarrow> ((arq_error failure + unit) \<times> ARQEngine) option" where
  "Send_transmit fl polls send_ok encoded a =
     (case Wait fl polls (pacer a) of
        None \<Rightarrow> None
      | Some p \<Rightarrow>
          let a = transmit encoded (a\<lparr>pacer := p\<rparr>)
          in Some (if send_ok then Inr () else Inl (Err ErrSend), a))"

text \<open>\<^verbatim>\<open>Send\<close> with nothing in between, after the wait for the window.\<close>

definition Send :: "externals \<Rightarrow> (rat \<Rightarrow> rat) \<Rightarrow> bytes option \<Rightarrow> int \<Rightarrow> (u8 \<Rightarrow> bytes option)
    \<Rightarrow> (int \<times> bool) list \<Rightarrow> bool \<Rightarrow> bytes \<Rightarrow> ARQEngine
    \<Rightarrow> ((arq_error failure + unit) \<times> ARQEngine) option" where
  "Send x fl nonce now nonces polls send_ok payload a =
     (if arq_closed a then Some (Inl (Err ErrEngineClosed), a)
      else case Send_enqueue x nonce now payload a of
             (Inl e, a) \<Rightarrow> Some (Inl e, a)
           | (Inr (seq, encoded), a) \<Rightarrow>
               (case Send_fec x nonces seq payload a of
                  None \<Rightarrow> Some (Inl Panic, a)
                | Some a \<Rightarrow> Send_transmit fl polls send_ok encoded a))"

definition SendControl :: "externals \<Rightarrow> bytes option \<Rightarrow> bool \<Rightarrow> Packet \<Rightarrow> ARQEngine
    \<Rightarrow> (arq_error failure + unit) \<times> ARQEngine" where
  "SendControl x nonce send_ok pkt a =
     (case arq_encode x nonce pkt a of
        (Inl (Err e), _, a) \<Rightarrow> (Inl (Err (ErrEncode e)), a)
      | (Inl Panic, _, a) \<Rightarrow> (Inl Panic, a)
      | (Inr encoded, _, a) \<Rightarrow>
          (if send_ok then Inr () else Inl (Err ErrSend), transmit encoded a))"

section \<open>Acknowledgements\<close>

definition updateRTT :: "int \<Rightarrow> ARQEngine \<Rightarrow> ARQEngine" where
  "updateRTT rtt a =
     (let a = (if \<not> rttInit a then a\<lparr>srtt := rtt, rttvar := rtt sdiv 2, rttInit := True\<rparr>
               else let a = a\<lparr>srtt := srtt a * 7 sdiv 8 + rtt sdiv 8\<rparr>;
                        diff = srtt a - rtt; diff = (if diff < 0 then - diff else diff)
                    in a\<lparr>rttvar := rttvar a * 3 sdiv 4 + diff sdiv 4\<rparr>);
          r = srtt a + 4 * rttvar a;
          r = (if r < MinRTO then MinRTO else r);
          r = (if MaxRTO < r then MaxRTO else r)
      in a\<lparr>rto := r\<rparr>)"

definition processAckedPacket ::
  "(rat \<Rightarrow> rat) \<Rightarrow> int \<Rightarrow> u32 \<Rightarrow> inflight \<Rightarrow> ARQEngine \<Rightarrow> ARQEngine" where
  "processAckedPacket fl now seq infl a =
     (let a = a\<lparr>bytesDelivered := bytesDelivered a + of_nat (length (Payload (inf_pkt infl)))\<rparr>;
          a = (if retries infl = 0
               then let deliveryTime = now - sentAt infl;
                        a = updateRTT deliveryTime a;
                        a = (if minRTT a = 0 \<or> deliveryTime < minRTT a
                             then a\<lparr>minRTT := deliveryTime\<rparr> else a)
                    in if 0 < deliveryTime
                       then let bytes = bytesDelivered a - inf_delivered infl;
                                rate = fl (fl (of_int (uint bytes)) / fl (of_int deliveryTime))
                            in a\<lparr>btlBw := (if btlBw a < rate then rate
                                 else fl (fl (btlBw a * fl (85 / 100)) + fl (rate * fl (15 / 100))))\<rparr>
                       else a
               else a)
      in a\<lparr>unacked := AList.delete seq (unacked a)\<rparr>)"

definition pacing_rate :: "(rat \<Rightarrow> rat) \<Rightarrow> ARQEngine \<Rightarrow> int" where
  "pacing_rate fl a =
     (let rate = go_int (fl (fl (btlBw a * 1000000000) / 1200));
          rate = (if rate < 1000 then 1000 else rate)
      in if 50000 < rate then 50000 else rate)"

definition pacing_burst :: "(rat \<Rightarrow> rat) \<Rightarrow> ARQEngine \<Rightarrow> int" where
  "pacing_burst fl a =
     (let bdp = go_int (fl (fl (btlBw a * fl (of_int (minRTT a))) / 1200));
          bdp = (if bdp < 8 then 8 else bdp)
      in if 128 < bdp then 128 else bdp)"

definition updatePacing :: "(rat \<Rightarrow> rat) \<Rightarrow> ARQEngine \<Rightarrow> ARQEngine" where
  "updatePacing fl a =
     (if 0 < btlBw a \<and> 0 < minRTT a
      then a\<lparr>pacer := SetBurst fl (pacing_burst fl a) (SetRate fl (pacing_rate fl a) (pacer a))\<rparr>
      else a)"

text \<open>
  \<^verbatim>\<open>Reconfigure\<close> of both FEC ends when nothing interferes: the channel then holds the new
  configuration. Sending on a channel \<^verbatim>\<open>Close\<close> has closed panics, as does a nil end.
\<close>

definition reconfigure_fec :: "FECConfig \<Rightarrow> ARQEngine \<Rightarrow> ARQEngine option" where
  "reconfigure_fec cfg a =
     (if arq_closed a then None
      else case (fecEnc a, fecDec a) of
             (Some e, Some d) \<Rightarrow>
               Some (a\<lparr> fecConfig := cfg, fecEnc := Some (e\<lparr>fe_configCh := [cfg]\<rparr>),
                        fecDec := Some (d\<lparr>fd_configCh := [cfg]\<rparr>) \<rparr>)
           | _ \<Rightarrow> None)"

definition adapt_fec :: "(rat \<Rightarrow> rat) \<Rightarrow> ARQEngine \<Rightarrow> ARQEngine option" where
  "adapt_fec fl a =
     (if 0 < packetsSent a
      then let lossRate = fl (fl (of_int (uint (packetsLost a))) / fl (of_int (uint (packetsSent a))));
               newCfg = GetAdjusted fl (fecConfig a) lossRate
           in if \<not> same_shape newCfg (fecConfig a) then reconfigure_fec newCfg a
              else Some (a\<lparr>fecConfig := (fecConfig a)\<lparr>PacketLoss := lossRate\<rparr>\<rparr>)
      else Some a)"

definition congestion_window :: "(rat \<Rightarrow> rat) \<Rightarrow> ARQEngine \<Rightarrow> int" where
  "congestion_window fl a =
     (if 0 < minRTT a \<and> 0 < btlBw a
      then let bdpBytes = fl (btlBw a * fl (of_int (minRTT a)));
               targetWindow = go_int (fl (fl (bdpBytes / 1000) * (3 / 2)));
               targetWindow = (if targetWindow < 16 then 16 else targetWindow);
               targetWindow = (if MaxWindowSize < targetWindow then MaxWindowSize else targetWindow)
           in if sendWindow a < targetWindow
              then min (sendWindow a + max (sendWindow a sdiv 10) 16) MaxWindowSize
              else if targetWindow < sendWindow a
              then max (sendWindow a - max (sendWindow a sdiv 20) 8) 16
              else sendWindow a
      else if sendWindow a < ssthresh a then min (sendWindow a * 2) MaxWindowSize
      else min (sendWindow a + 1) MaxWindowSize)"

text \<open>The two loops of \<^verbatim>\<open>handleACK\<close>; \<open>order\<close> is the order of the range over \<^verbatim>\<open>unacked\<close>, \<open>clock\<close>
  the reading when a packet is processed. \<^verbatim>\<open>isPacketAcked\<close> is constantly false.\<close>

definition ack_cumulative ::
  "(rat \<Rightarrow> rat) \<Rightarrow> (u32 \<Rightarrow> int) \<Rightarrow> u32 list \<Rightarrow> u32 \<Rightarrow> ARQEngine \<Rightarrow> ARQEngine" where
  "ack_cumulative fl clock order ackNum a =
     foldl (\<lambda>a seq. case map_of (unacked a) seq of
              Some infl \<Rightarrow>
                if seq < ackNum
                then processAckedPacket fl (clock seq) seq infl (a\<lparr>packetsLost := packetsLost a + 1\<rparr>)
                else a
            | None \<Rightarrow> a) a order"

definition ack_selective ::
  "(rat \<Rightarrow> rat) \<Rightarrow> (u32 \<Rightarrow> int) \<Rightarrow> u32 list \<Rightarrow> ARQEngine \<Rightarrow> ARQEngine" where
  "ack_selective fl clock blocks a =
     foldl (\<lambda>a seq. case map_of (unacked a) seq of
              Some infl \<Rightarrow> processAckedPacket fl (clock seq) seq infl a
            | None \<Rightarrow> a) a blocks"

definition handleACK :: "(rat \<Rightarrow> rat) \<Rightarrow> (u32 \<Rightarrow> int) \<Rightarrow> u32 list \<Rightarrow> Packet \<Rightarrow> ARQEngine
    \<Rightarrow> ARQEngine option" where
  "handleACK fl clock order pkt a =
     (let a = ack_cumulative fl clock order (AckNum pkt) a;
          a = (if Flags pkt AND FlagSACK \<noteq> 0 then ack_selective fl clock (SACKBlocks pkt) a else a);
          a = updatePacing fl a
      in case adapt_fec fl a of
           None \<Rightarrow> None
         | Some a \<Rightarrow> Some (a\<lparr>sendWindow := congestion_window fl a\<rparr>))"

section \<open>Receiving\<close>

definition deliverPacket :: "Packet \<Rightarrow> ARQEngine \<Rightarrow> ARQEngine" where
  "deliverPacket pkt a =
     (if arq_closed a then a
      else if length (delivered a) < deliverBufSize a then a\<lparr>delivered := delivered a @ [pkt]\<rparr>
      else a)"

lemma deliverPacket_fields [simp]:
  "recvBuf (deliverPacket p a) = recvBuf a" "recvNext (deliverPacket p a) = recvNext a"
  by (simp_all add: deliverPacket_def)

text \<open>The inner loop of \<^verbatim>\<open>handleDATA\<close>: deliver what the buffer holds in sequence.\<close>

function drain :: "ARQEngine \<Rightarrow> ARQEngine" where
  "drain a =
     (case map_of (recvBuf a) (recvNext a) of
        Some buffered \<Rightarrow>
          drain ((deliverPacket buffered a)
            \<lparr> recvBuf := AList.delete (recvNext a) (recvBuf a), recvNext := recvNext a + 1 \<rparr>)
      | None \<Rightarrow> a)"
  by auto
termination
  by (relation "measure (\<lambda>a. length (recvBuf a))") (auto simp: length_amap_delete)

declare drain.simps [simp del]

definition ack_packet :: "u32 list \<Rightarrow> ARQEngine \<Rightarrow> Packet" where
  "ack_packet order a =
     (let ack = \<lparr> Type = PacketACK, SeqNum = 0, AckNum = recvNext a, Flags = 0, Payload = [],
                  SACKBlocks = [] \<rparr>
      in if recvBuf a \<noteq> []
         then ack\<lparr>Flags := Flags ack OR FlagSACK, SACKBlocks := take 32 order\<rparr> else ack)"

definition sendACK :: "externals \<Rightarrow> bytes option \<Rightarrow> u32 list \<Rightarrow> ARQEngine \<Rightarrow> ARQEngine option" where
  "sendACK x nonce order a =
     (case arq_encode x nonce (ack_packet order a) a of
        (Inl (Err e), _, a) \<Rightarrow> Some a
      | (Inl Panic, _, a) \<Rightarrow> None
      | (Inr encoded, _, a) \<Rightarrow> Some (transmit encoded a))"

definition flushACK :: "externals \<Rightarrow> bytes option \<Rightarrow> u32 list \<Rightarrow> ARQEngine \<Rightarrow> ARQEngine option" where
  "flushACK x nonce order a =
     sendACK x nonce order (a\<lparr>delayedACKTimer := False, unackedRecv := 0\<rparr>)"

text \<open>\<open>order\<close> is the order of the range over \<^verbatim>\<open>recvBuf\<close> as the acknowledgement is built.\<close>

definition handleDATA :: "externals \<Rightarrow> bytes option \<Rightarrow> u32 list \<Rightarrow> Packet \<Rightarrow> ARQEngine
    \<Rightarrow> ARQEngine option" where
  "handleDATA x nonce order pkt a =
     (let seq = SeqNum pkt; outOfOrder = (recvNext a < seq);
          a = (if seq = recvNext a
               then drain ((deliverPacket pkt a)\<lparr>recvNext := recvNext a + 1\<rparr>)
               else if recvNext a < seq then a\<lparr>recvBuf := AList.update seq pkt (recvBuf a)\<rparr>
               else a);
          a = a\<lparr>unackedRecv := unackedRecv a + 1\<rparr>
      in if DelayedACKThreshold \<le> unackedRecv a \<or> outOfOrder then flushACK x nonce order a
         else if \<not> delayedACKTimer a then Some (a\<lparr>delayedACKTimer := True\<rparr>)
         else Some a)"

text \<open>The delayed-acknowledgement timer fires.\<close>

definition ack_timer :: "externals \<Rightarrow> bytes option \<Rightarrow> u32 list \<Rightarrow> ARQEngine \<Rightarrow> ARQEngine option" where
  "ack_timer x nonce order a = flushACK x nonce order a"

text \<open>The \<^verbatim>\<open>onRecover\<close> callback starts a goroutine for each payload.\<close>

definition recovered_packet :: "u32 \<times> bytes \<Rightarrow> Packet" where
  "recovered_packet r = \<lparr> Type = PacketDATA, SeqNum = fst r, AckNum = 0, Flags = 0,
     Payload = snd r, SACKBlocks = [] \<rparr>"

definition fec_receive :: "(FecDecoder \<Rightarrow> (FecDecoder \<times> (u32 \<times> bytes) list) option)
    \<Rightarrow> ARQEngine \<Rightarrow> ARQEngine option" where
  "fec_receive f a =
     (case fecDec a of
        None \<Rightarrow> None
      | Some d \<Rightarrow>
          (case f d of
             None \<Rightarrow> None
           | Some (d', rs) \<Rightarrow>
               Some (a\<lparr>fecDec := Some d', spawned := spawned a @ map recovered_packet rs\<rparr>)))"

definition HandlePacket :: "externals \<Rightarrow> (rat \<Rightarrow> rat) \<Rightarrow> bytes option \<Rightarrow> (u32 \<Rightarrow> int)
    \<Rightarrow> u32 list \<Rightarrow> Packet \<Rightarrow> ARQEngine \<Rightarrow> ARQEngine option" where
  "HandlePacket x fl nonce clock order pkt a =
     (if arq_closed a then Some a
      else let a = a\<lparr> totalPacketsRecv := totalPacketsRecv a + 1,
                      totalBytesRecv := totalBytesRecv a + of_nat (length (Payload pkt)) \<rparr>
      in if Type pkt = PacketACK then handleACK fl clock order pkt a
         else if Type pkt = PacketDATA
         then (case fec_receive (AddData x (SeqNum pkt) (Payload pkt)) a of
                 None \<Rightarrow> None | Some a \<Rightarrow> handleDATA x nonce order pkt a)
         else if Type pkt = PacketFEC
         then fec_receive (AddParity x (SeqNum pkt) (Flags pkt) (Payload pkt)) a
         else Some a)"

section \<open>Retransmission\<close>

definition checkInterval :: "ARQEngine \<Rightarrow> int" where
  "checkInterval a =
     (let i = rto a sdiv 4 in if i < MinRetransmitCheck then MinRetransmitCheck else i)"

definition retransmit_one ::
  "externals \<Rightarrow> (u32 \<Rightarrow> bytes option) \<Rightarrow> int \<Rightarrow> u32 \<Rightarrow> ARQEngine \<Rightarrow> ARQEngine option" where
  "retransmit_one x nonces now seq a =
     (case map_of (unacked a) seq of
        None \<Rightarrow> Some a
      | Some infl \<Rightarrow>
          let infl = infl\<lparr>retries := retries infl + 1\<rparr>
          in if MaxRetransmissions < retries infl
             then Some (a\<lparr>unacked := AList.delete seq (unacked a)\<rparr>)
             else (case arq_encode x (nonces seq) (inf_pkt infl) a of
                     (Inl Panic, _, _) \<Rightarrow> None
                   | (Inl (Err e), pkt', a) \<Rightarrow>
                       Some (a\<lparr>unacked := AList.update seq (infl\<lparr>inf_pkt := pkt'\<rparr>) (unacked a)\<rparr>)
                   | (Inr encoded, pkt', a) \<Rightarrow>
                       Some (transmit encoded
                         (a\<lparr> unacked := AList.update seq
                               (infl\<lparr>inf_pkt := pkt', inf_encoded := encoded, sentAt := now\<rparr>) (unacked a),
                             totalRetransmissions := totalRetransmissions a + 1 \<rparr>))))"

definition timed_out :: "int \<Rightarrow> u32 list \<Rightarrow> ARQEngine \<Rightarrow> u32 list" where
  "timed_out now order a =
     filter (\<lambda>seq. case map_of (unacked a) seq of
                     Some infl \<Rightarrow> rto a < now - sentAt infl | None \<Rightarrow> False) order"

text \<open>One round of \<^verbatim>\<open>retransmissionLoop\<close> after its sleep; \<open>order\<close> ranges over \<^verbatim>\<open>unacked\<close>.\<close>

definition retransmit_tick :: "externals \<Rightarrow> (rat \<Rightarrow> rat) \<Rightarrow> (u32 \<Rightarrow> bytes option) \<Rightarrow> int
    \<Rightarrow> u32 list \<Rightarrow> ARQEngine \<Rightarrow> ARQEngine option" where
  "retransmit_tick x fl nonces now order a =
     (if arq_closed a then Some a
      else let toRetransmit = timed_out now order a
      in case fold_opt (retransmit_one x nonces now) toRetransmit a of
           None \<Rightarrow> None
         | Some a \<Rightarrow>
             if toRetransmit \<noteq> []
             then let w = max (sendWindow a * 85 sdiv 100) 16
                  in Some (a\<lparr> ssthresh := w, sendWindow := w,
                       rto := go_int (min (fl (of_int (rto a * 2))) (fl (of_int MaxRTO))) \<rparr>)
             else Some a)"

section \<open>Configuration, statistics, closing\<close>

text \<open>One iteration of the configuration goroutines of the FEC ends.\<close>

definition enc_config_loop :: "externals \<Rightarrow> ARQEngine \<Rightarrow> ARQEngine" where
  "enc_config_loop x a =
     (case fecEnc a of
        Some e \<Rightarrow> (case fe_configCh e of
                     c # ch \<Rightarrow> a\<lparr>fecEnc := Some (enc_configure x c (e\<lparr>fe_configCh := ch\<rparr>))\<rparr>
                   | [] \<Rightarrow> a)
      | None \<Rightarrow> a)"

definition dec_config_loop :: "externals \<Rightarrow> ARQEngine \<Rightarrow> ARQEngine" where
  "dec_config_loop x a =
     (case fecDec a of
        Some d \<Rightarrow> (case fd_configCh d of
                     c # ch \<Rightarrow> a\<lparr>fecDec := Some (dec_configure x c (d\<lparr>fd_configCh := ch\<rparr>))\<rparr>
                   | [] \<Rightarrow> a)
      | None \<Rightarrow> a)"

definition SetFECConfig :: "FECConfig \<Rightarrow> ARQEngine \<Rightarrow> ARQEngine option" where
  "SetFECConfig config a =
     (case fecEnc (a\<lparr>fecConfig := config\<rparr>) of
        None \<Rightarrow> None
      | Some e \<Rightarrow> if arq_closed a then None
          else Some (a\<lparr>fecConfig := config, fecEnc := Some (e\<lparr>fe_configCh := [config]\<rparr>)\<rparr>))"

definition GetFECConfig :: "ARQEngine \<Rightarrow> FECConfig" where
  "GetFECConfig a = fecConfig a"

definition GetLossRate :: "(rat \<Rightarrow> rat) \<Rightarrow> ARQEngine \<Rightarrow> rat" where
  "GetLossRate fl a =
     (if packetsSent a = 0 then 0
      else fl (fl (of_int (uint (packetsLost a))) / fl (of_int (uint (packetsSent a)))))"

definition ARQ_Stats :: "ARQEngine \<Rightarrow> u64 \<times> u64 \<times> u64 \<times> int \<times> int" where
  "ARQ_Stats a = (totalPacketsSent a, totalPacketsRecv a, totalRetransmissions a, sendWindow a, rto a)"

text \<open>Taking from the delivery channel: \<open>None\<close> would block, \<open>Some None\<close> is closed and empty.\<close>

definition take_delivered :: "ARQEngine \<Rightarrow> Packet option option \<times> ARQEngine" where
  "take_delivered a =
     (case delivered a of
        p # ps \<Rightarrow> (Some (Some p), a\<lparr>delivered := ps\<rparr>)
      | [] \<Rightarrow> (if arq_closed a then Some None else None, a))"

definition ARQ_Close :: "ARQEngine \<Rightarrow> ARQEngine" where
  "ARQ_Close a =
     (if arq_closed a then a
      else a\<lparr> arq_closed := True, unacked := [], pacer := Pacer_Close (pacer a),
              delayedACKTimer := False \<rparr>)"

section \<open>Lemmas\<close>

subsection \<open>Ranges\<close>

lemma updateRTT_fields [simp]:
  "sendSeq (updateRTT d a) = sendSeq a" "sendWindow (updateRTT d a) = sendWindow a"
  "ssthresh (updateRTT d a) = ssthresh a" "unacked (updateRTT d a) = unacked a"
  "recvNext (updateRTT d a) = recvNext a" "recvBuf (updateRTT d a) = recvBuf a"
  "delivered (updateRTT d a) = delivered a" "deliverBufSize (updateRTT d a) = deliverBufSize a"
  "unackedRecv (updateRTT d a) = unackedRecv a" "delayedACKTimer (updateRTT d a) = delayedACKTimer a"
  "arq_codec (updateRTT d a) = arq_codec a" "pacer (updateRTT d a) = pacer a"
  "fecConfig (updateRTT d a) = fecConfig a" "fecEnc (updateRTT d a) = fecEnc a"
  "fecDec (updateRTT d a) = fecDec a" "arq_closed (updateRTT d a) = arq_closed a"
  "outbox (updateRTT d a) = outbox a" "packetsLost (updateRTT d a) = packetsLost a"
  "packetsSent (updateRTT d a) = packetsSent a" "bytesDelivered (updateRTT d a) = bytesDelivered a"
  "spawned (updateRTT d a) = spawned a"
  by (simp_all add: updateRTT_def Let_def)

lemma updateRTT_rto: "MinRTO \<le> rto (updateRTT d a) \<and> rto (updateRTT d a) \<le> MaxRTO"
  by (simp add: updateRTT_def Let_def MinRTO_def MaxRTO_def)

lemma processAckedPacket_fields [simp]:
  "sendSeq (processAckedPacket fl t s i a) = sendSeq a"
  "sendWindow (processAckedPacket fl t s i a) = sendWindow a"
  "ssthresh (processAckedPacket fl t s i a) = ssthresh a"
  "unacked (processAckedPacket fl t s i a) = AList.delete s (unacked a)"
  "recvNext (processAckedPacket fl t s i a) = recvNext a"
  "recvBuf (processAckedPacket fl t s i a) = recvBuf a"
  "delivered (processAckedPacket fl t s i a) = delivered a"
  "deliverBufSize (processAckedPacket fl t s i a) = deliverBufSize a"
  "unackedRecv (processAckedPacket fl t s i a) = unackedRecv a"
  "delayedACKTimer (processAckedPacket fl t s i a) = delayedACKTimer a"
  "arq_codec (processAckedPacket fl t s i a) = arq_codec a"
  "pacer (processAckedPacket fl t s i a) = pacer a"
  "fecConfig (processAckedPacket fl t s i a) = fecConfig a"
  "fecEnc (processAckedPacket fl t s i a) = fecEnc a"
  "fecDec (processAckedPacket fl t s i a) = fecDec a"
  "arq_closed (processAckedPacket fl t s i a) = arq_closed a"
  "outbox (processAckedPacket fl t s i a) = outbox a"
  "packetsLost (processAckedPacket fl t s i a) = packetsLost a"
  "packetsSent (processAckedPacket fl t s i a) = packetsSent a"
  "spawned (processAckedPacket fl t s i a) = spawned a"
  by (simp_all add: processAckedPacket_def Let_def)

lemma processAckedPacket_rto:
  "MinRTO \<le> rto a \<and> rto a \<le> MaxRTO \<Longrightarrow>
     MinRTO \<le> rto (processAckedPacket fl t s i a) \<and> rto (processAckedPacket fl t s i a) \<le> MaxRTO"
  using updateRTT_rto by (simp add: processAckedPacket_def Let_def)

lemma congestion_window_range:
  "16 \<le> sendWindow a \<Longrightarrow> sendWindow a \<le> MaxWindowSize \<Longrightarrow>
     16 \<le> congestion_window fl a \<and> congestion_window fl a \<le> MaxWindowSize"
  by (simp add: congestion_window_def Let_def MaxWindowSize_def sdiv_nonneg max_def)

subsection \<open>The invariant of an engine\<close>

text \<open>The parts of the engine that are state of their own component.\<close>

definition parts_wf :: "externals \<Rightarrow> (rat \<Rightarrow> rat) \<Rightarrow> ARQEngine \<Rightarrow> bool" where
  "parts_wf x fl a \<longleftrightarrow> codec_wf x (arq_codec a)
     \<and> pacer_wf fl (pacer a) \<and> 1000 \<le> refillRate (pacer a) \<and> 8 \<le> maxTokens (pacer a)
     \<and> shape_ok (fecConfig a)
     \<and> (case fecEnc a of None \<Rightarrow> False | Some e \<Rightarrow> fe_wf e)
     \<and> (case fecDec a of None \<Rightarrow> False | Some d \<Rightarrow> fd_wf d \<and> list_all shape_ok (fd_configCh d))"

definition sender_wf :: "ARQEngine \<Rightarrow> bool" where
  "sender_wf a \<longleftrightarrow> 16 \<le> sendWindow a \<and> sendWindow a \<le> MaxWindowSize
     \<and> MinRTO \<le> rto a \<and> rto a \<le> MaxRTO \<and> amap_wf (unacked a)
     \<and> (\<forall>s i. map_of (unacked a) s = Some i \<longrightarrow> SeqNum (inf_pkt i) = s
          \<and> Type (inf_pkt i) = PacketDATA \<and> 0 \<le> retries i \<and> retries i \<le> MaxRetransmissions)"

definition receiver_wf :: "ARQEngine \<Rightarrow> bool" where
  "receiver_wf a \<longleftrightarrow> amap_wf (recvBuf a) \<and> length (delivered a) \<le> deliverBufSize a
     \<and> 0 \<le> unackedRecv a \<and> unackedRecv a < DelayedACKThreshold
     \<and> (0 < unackedRecv a \<and> \<not> arq_closed a \<longrightarrow> delayedACKTimer a)"

definition arq_wf :: "externals \<Rightarrow> (rat \<Rightarrow> rat) \<Rightarrow> ARQEngine \<Rightarrow> bool" where
  "arq_wf x fl a \<longleftrightarrow> parts_wf x fl a \<and> sender_wf a \<and> receiver_wf a"

lemma parts_wf_cong:
  "arq_codec b = arq_codec a \<Longrightarrow> pacer b = pacer a \<Longrightarrow> fecConfig b = fecConfig a \<Longrightarrow>
   fecEnc b = fecEnc a \<Longrightarrow> fecDec b = fecDec a \<Longrightarrow> parts_wf x fl b = parts_wf x fl a"
  by (simp add: parts_wf_def)

lemma sender_wf_cong:
  "sendWindow b = sendWindow a \<Longrightarrow> rto b = rto a \<Longrightarrow> unacked b = unacked a \<Longrightarrow>
     sender_wf b = sender_wf a"
  by (simp add: sender_wf_def)

lemma receiver_wf_cong:
  "recvBuf b = recvBuf a \<Longrightarrow> delivered b = delivered a \<Longrightarrow> deliverBufSize b = deliverBufSize a \<Longrightarrow>
   unackedRecv b = unackedRecv a \<Longrightarrow> arq_closed b = arq_closed a \<Longrightarrow>
   delayedACKTimer b = delayedACKTimer a \<Longrightarrow> receiver_wf b = receiver_wf a"
  by (simp add: receiver_wf_def)

lemmas wf_congs = parts_wf_cong sender_wf_cong receiver_wf_cong

lemma arq_encode_cases:
  assumes "arq_encode x nonce p a = (r, p', a')"
  obtains c' where "Encode x nonce (arq_codec a) p = (r, p', c')" "a' = a\<lparr>arq_codec := c'\<rparr>"
  using assms by (auto simp: arq_encode_def split: prod.splits)

lemma Encode_pkt:
  assumes "Encode x nonce c p = (r, p', c')"
  shows "Type p' = Type p" "SeqNum p' = SeqNum p" "AckNum p' = AckNum p" "Payload p' = Payload p"
    "SACKBlocks p' = SACKBlocks p"
  using assms by (auto elim!: EncodeD)

lemma arq_encode_wf:
  assumes "arq_wf x fl a" and "arq_encode x nonce p a = (r, p', a')"
  shows "arq_wf x fl a'"
proof -
  obtain c' where "Encode x nonce (arq_codec a) p = (r, p', c')" "a' = a\<lparr>arq_codec := c'\<rparr>"
    using arq_encode_cases [OF assms(2)] .
  with assms(1) show ?thesis
    using Encode_wf [of x "arq_codec a" nonce p]
    by (simp add: arq_wf_def parts_wf_def sender_wf_def receiver_wf_def)
qed

lemma transmit_wf: "arq_wf x fl a \<Longrightarrow> arq_wf x fl (transmit w a)"
  by (simp add: transmit_def arq_wf_def parts_wf_def sender_wf_def receiver_wf_def)

lemma sender_wf_unacked:
  assumes "sender_wf a" and "amap_wf u"
    and "\<And>s i. map_of u s = Some i \<Longrightarrow> map_of (unacked a) s = Some i
      \<or> SeqNum (inf_pkt i) = s \<and> Type (inf_pkt i) = PacketDATA \<and> 0 \<le> retries i
        \<and> retries i \<le> MaxRetransmissions"
  shows "sender_wf (a\<lparr>unacked := u\<rparr>)"
  using assms unfolding sender_wf_def by fastforce

lemma Send_enqueue_wf:
  assumes "arq_wf x fl a" and "Send_enqueue x nonce now pl a = (r, a')"
  shows "arq_wf x fl a'"
proof -
  let ?p = "\<lparr> Type = PacketDATA, SeqNum = sendSeq a, AckNum = recvNext a, Flags = 0,
    Payload = pl, SACKBlocks = [] \<rparr>"
  let ?a = "a\<lparr>sendSeq := sendSeq a + 1\<rparr>"
  obtain r1 p' a1 where e: "arq_encode x nonce ?p ?a = (r1, p', a1)" by (metis prod_cases3)
  have wf: "arq_wf x fl a1"
    by (rule arq_encode_wf [OF _ e])
       (use assms(1) in \<open>simp add: arq_wf_def parts_wf_def sender_wf_def receiver_wf_def\<close>)
  obtain c' where c: "Encode x nonce (arq_codec ?a) ?p = (r1, p', c')" "a1 = ?a\<lparr>arq_codec := c'\<rparr>"
    using arq_encode_cases [OF e] .
  have p: "SeqNum p' = sendSeq a" "Type p' = PacketDATA"
    using Encode_pkt [OF c(1)] by simp_all
  show ?thesis
  proof (cases r1)
    case (Inl f)
    then show ?thesis using assms(2) e wf by (cases f) (auto simp: Send_enqueue_def Let_def)
  next
    case (Inr w)
    let ?u = "AList.update (sendSeq a) \<lparr> inf_pkt = p', inf_encoded = w, sentAt = now, retries = 0,
        inf_delivered = bytesDelivered a1, inf_size = int (length w) \<rparr> (unacked a1)"
    have "sender_wf (a1\<lparr>unacked := ?u\<rparr>)"
      by (rule sender_wf_unacked)
         (use wf p in \<open>auto simp: arq_wf_def sender_wf_def amap_simps MaxRetransmissions_def
            split: if_splits\<close>)
    then show ?thesis using assms(2) e wf Inr
      by (auto simp: Send_enqueue_def Let_def arq_wf_def parts_wf_def sender_wf_def receiver_wf_def)
  qed
qed

lemma send_parity_wf:
  assumes "arq_wf x fl a" and "send_parity x nonces q a = Some a'"
  shows "arq_wf x fl a'"
  using assms arq_encode_wf [OF assms(1)] transmit_wf
  by (fastforce simp: send_parity_def Let_def split: prod.splits sum.splits failure.splits)

lemma parity_fold_wf:
  assumes "arq_wf x fl a" and "fold_opt (send_parity x nonces) parity a = Some a'"
  shows "arq_wf x fl a'"
  using fold_opt_inv [of "arq_wf x fl", OF assms] send_parity_wf by blast

lemma set_fecEnc_wf: "arq_wf x fl a \<Longrightarrow> fe_wf e \<Longrightarrow> arq_wf x fl (a\<lparr>fecEnc := Some e\<rparr>)"
  by (simp add: arq_wf_def parts_wf_def sender_wf_def receiver_wf_def)

lemma fecEnc_some: "arq_wf x fl a \<Longrightarrow> \<exists>e. fecEnc a = Some e \<and> fe_wf e"
  by (auto simp: arq_wf_def parts_wf_def split: option.splits)

lemma fecDec_some:
  "arq_wf x fl a \<Longrightarrow> \<exists>d. fecDec a = Some d \<and> fd_wf d \<and> list_all shape_ok (fd_configCh d)"
  by (auto simp: arq_wf_def parts_wf_def split: option.splits)

lemma Send_fec_wf:
  assumes "rs_valid x" and "arq_wf x fl a" and "Send_fec x nonces seq pl a = Some a'"
  shows "arq_wf x fl a'"
proof -
  obtain e where e: "fecEnc a = Some e" "fe_wf e" using fecEnc_some [OF assms(2)] by blast
  obtain e' out where e': "AddDataPacket x seq pl e = Some (e', out)" "fe_wf e'"
    using AddDataPacket_wf [OF assms(1) e(2)] by blast
  then have "fold_opt (send_parity x nonces) out (a\<lparr>fecEnc := Some e'\<rparr>) = Some a'"
    using assms(3) e by (simp add: Send_fec_def)
  then show ?thesis by (rule parity_fold_wf [OF set_fecEnc_wf [OF assms(2) e'(2)]])
qed

lemma fec_flush_timer_wf:
  assumes "rs_valid x" and "arq_wf x fl a" and "fec_flush_timer x nonces a = Some a'"
  shows "arq_wf x fl a'"
proof -
  obtain e where e: "fecEnc a = Some e" "fe_wf e" using fecEnc_some [OF assms(2)] by blast
  obtain e' out where e': "flush x e = Some (e', out)" "fe_wf e'"
    using flush_wf [OF assms(1) e(2)] by blast
  then have "fold_opt (send_parity x nonces) out (a\<lparr>fecEnc := Some e'\<rparr>) = Some a'"
    using assms(3) e by (simp add: fec_flush_timer_def)
  then show ?thesis by (rule parity_fold_wf [OF set_fecEnc_wf [OF assms(2) e'(2)]])
qed

lemma Wait_fields:
  "Wait fl polls p = Some p' \<Longrightarrow> refillRate p' = refillRate p \<and> maxTokens p' = maxTokens p"
proof (induction polls arbitrary: p)
  case (Cons poll polls)
  obtain now stop where poll: "poll = (now, stop)" by (cases poll)
  obtain g q where q: "tryConsume fl now p = (g, q)" by fastforce
  have "refillRate q = refillRate p" "maxTokens q = maxTokens p"
    using tryConsume_fields [of fl now p] q by simp_all
  with Cons q poll show ?case by (cases g) (auto simp: Let_def split: if_splits)
qed simp

lemma Send_transmit_wf:
  assumes "float_rounding fl" and "arq_wf x fl a"
    and "sorted (lastRefill (pacer a) # map fst polls)"
    and "Send_transmit fl polls ok w a = Some (r, a')"
  shows "arq_wf x fl a'"
proof -
  obtain p where p: "Wait fl polls (pacer a) = Some p" and a': "a' = transmit w (a\<lparr>pacer := p\<rparr>)"
    using assms(4) by (auto simp: Send_transmit_def Let_def split: option.splits)
  have "pacer_wf fl p" using Wait_wf [OF assms(1) _ assms(3) p] assms(2)
    by (simp add: arq_wf_def parts_wf_def)
  then have "arq_wf x fl (a\<lparr>pacer := p\<rparr>)"
    using assms(2) Wait_fields [OF p]
    by (simp add: arq_wf_def parts_wf_def sender_wf_def receiver_wf_def)
  then show ?thesis unfolding a' by (rule transmit_wf)
qed

lemma SendControl_wf:
  assumes "arq_wf x fl a" and "SendControl x nonce ok p a = (r, a')"
  shows "arq_wf x fl a'"
  using assms arq_encode_wf [OF assms(1)] transmit_wf
  by (fastforce simp: SendControl_def split: prod.splits sum.splits failure.splits)

lemma updatePacing_fields [simp]:
  "sendSeq (updatePacing fl a) = sendSeq a" "sendWindow (updatePacing fl a) = sendWindow a"
  "unacked (updatePacing fl a) = unacked a" "rto (updatePacing fl a) = rto a"
  "recvNext (updatePacing fl a) = recvNext a" "recvBuf (updatePacing fl a) = recvBuf a"
  "delivered (updatePacing fl a) = delivered a"
  "deliverBufSize (updatePacing fl a) = deliverBufSize a"
  "unackedRecv (updatePacing fl a) = unackedRecv a"
  "delayedACKTimer (updatePacing fl a) = delayedACKTimer a"
  "arq_codec (updatePacing fl a) = arq_codec a" "fecConfig (updatePacing fl a) = fecConfig a"
  "fecEnc (updatePacing fl a) = fecEnc a" "fecDec (updatePacing fl a) = fecDec a"
  "arq_closed (updatePacing fl a) = arq_closed a" "outbox (updatePacing fl a) = outbox a"
  "packetsLost (updatePacing fl a) = packetsLost a" "packetsSent (updatePacing fl a) = packetsSent a"
  "minRTT (updatePacing fl a) = minRTT a" "btlBw (updatePacing fl a) = btlBw a"
  by (simp_all add: updatePacing_def Let_def)

lemma pacing_ranges:
  "1000 \<le> pacing_rate fl a \<and> pacing_rate fl a \<le> 50000"
  "8 \<le> pacing_burst fl a \<and> pacing_burst fl a \<le> 128"
  by (simp_all add: pacing_rate_def pacing_burst_def Let_def)

lemma updatePacing_pacer:
  assumes "float_rounding fl" and "pacer_wf fl (pacer a)" and "1000 \<le> refillRate (pacer a)"
    and "8 \<le> maxTokens (pacer a)"
  shows "pacer_wf fl (pacer (updatePacing fl a)) \<and> 1000 \<le> refillRate (pacer (updatePacing fl a))
    \<and> 8 \<le> maxTokens (pacer (updatePacing fl a))"
proof -
  have "pacer_wf fl (SetBurst fl b (SetRate fl r (pacer a)))
      \<and> 1000 \<le> refillRate (SetBurst fl b (SetRate fl r (pacer a)))
      \<and> 8 \<le> maxTokens (SetBurst fl b (SetRate fl r (pacer a)))"
    if "1000 \<le> r \<and> r \<le> 50000" and "8 \<le> b \<and> b \<le> 128" for r b
  proof -
    have "fl (of_int r) = of_int r" using that by (intro fl_int [OF assms(1)]) simp
    then have "1000 \<le> refillRate (SetBurst fl b (SetRate fl r (pacer a)))"
      using that by (simp add: SetBurst_def SetRate_def Let_def)
    moreover have "8 \<le> maxTokens (SetBurst fl b (SetRate fl r (pacer a)))"
      using that by (simp add: SetBurst_def Let_def)
    ultimately show ?thesis
      using that by (simp add: SetBurst_wf [OF assms(1) SetRate_wf [OF assms(1,2)]])
  qed
  from this [OF pacing_ranges] assms(2-4) show ?thesis by (simp add: updatePacing_def)
qed

lemma GetAdjusted_ok: "mono fl \<Longrightarrow> shape_ok c \<Longrightarrow> shape_ok (GetAdjusted fl c l)"
  by (simp add: GetAdjusted_def Let_def shape_ok_def)

lemma fe_wf_channel: "fe_wf (e\<lparr>fe_configCh := ch\<rparr>) = fe_wf e"
  by (simp add: fe_wf_def)

lemma fd_wf_channel: "fd_wf (d\<lparr>fd_configCh := ch\<rparr>) = fd_wf d"
  by (simp add: fd_wf_def)

lemma adapt_fec_fields:
  assumes "adapt_fec fl a = Some a'"
  shows "sendWindow a' = sendWindow a" "unacked a' = unacked a" "rto a' = rto a"
    "recvNext a' = recvNext a" "recvBuf a' = recvBuf a" "delivered a' = delivered a"
    "deliverBufSize a' = deliverBufSize a" "unackedRecv a' = unackedRecv a"
    "delayedACKTimer a' = delayedACKTimer a" "arq_codec a' = arq_codec a" "pacer a' = pacer a"
    "arq_closed a' = arq_closed a" "outbox a' = outbox a" "packetsLost a' = packetsLost a"
    "sendSeq a' = sendSeq a" "ssthresh a' = ssthresh a" "minRTT a' = minRTT a" "btlBw a' = btlBw a"
    "spawned a' = spawned a"
  using assms
  by (auto simp: adapt_fec_def reconfigure_fec_def Let_def split: if_splits option.splits)

lemma adapt_fec_parts:
  assumes "float_rounding fl" and "parts_wf x fl a" and "\<not> arq_closed a"
  shows "\<exists>a'. adapt_fec fl a = Some a' \<and> parts_wf x fl a'"
proof -
  have ok: "shape_ok (GetAdjusted fl (fecConfig a) l)" for l
    using assms(1,2) by (intro GetAdjusted_ok) (simp_all add: float_rounding_def parts_wf_def)
  have "shape_ok ((fecConfig a)\<lparr>PacketLoss := l\<rparr>)" for l
    using assms(2) by (simp add: parts_wf_def shape_ok_def)
  with ok assms(2,3) show ?thesis
    by (auto simp: adapt_fec_def reconfigure_fec_def Let_def parts_wf_def fe_wf_channel fd_wf_channel
        split: option.splits)
qed

lemma ack_step_wf:
  assumes "sender_wf a"
  shows "sender_wf (processAckedPacket fl t s i (a\<lparr>packetsLost := n\<rparr>))"
    "sender_wf (processAckedPacket fl t s i a)"
  using assms processAckedPacket_rto [of a fl t s i]
    processAckedPacket_rto [of "a\<lparr>packetsLost := n\<rparr>" fl t s i]
  by (auto simp: sender_wf_def amap_simps)

lemma ack_loops_wf:
  "sender_wf a \<Longrightarrow> sender_wf (ack_cumulative fl clock order n a)"
  "sender_wf a \<Longrightarrow> sender_wf (ack_selective fl clock blocks a)"
  unfolding ack_cumulative_def ack_selective_def
  by (rule foldl_inv; auto simp: ack_step_wf split: option.splits)+

text \<open>Acknowledging touches nothing of the receiver nor of the components.\<close>

definition same_rest :: "ARQEngine \<Rightarrow> ARQEngine \<Rightarrow> bool" where
  "same_rest a b \<longleftrightarrow> recvNext b = recvNext a \<and> recvBuf b = recvBuf a \<and> delivered b = delivered a
     \<and> deliverBufSize b = deliverBufSize a \<and> unackedRecv b = unackedRecv a
     \<and> delayedACKTimer b = delayedACKTimer a \<and> arq_closed b = arq_closed a
     \<and> arq_codec b = arq_codec a \<and> pacer b = pacer a \<and> fecConfig b = fecConfig a
     \<and> fecEnc b = fecEnc a \<and> fecDec b = fecDec a \<and> sendWindow b = sendWindow a
     \<and> outbox b = outbox a \<and> sendSeq b = sendSeq a \<and> packetsSent b = packetsSent a
     \<and> spawned b = spawned a"

lemma ack_loops_rest:
  "same_rest a (ack_cumulative fl clock order n a)" "same_rest a (ack_selective fl clock blocks a)"
  unfolding ack_cumulative_def ack_selective_def
  by (rule foldl_inv [where I = "same_rest a"]; auto simp: same_rest_def split: option.splits)+

lemma handleACK_decompose:
  assumes "handleACK fl clock order p a = Some a'"
  obtains a1 a2 where
    "a1 = (if Flags p AND FlagSACK \<noteq> 0
       then ack_selective fl clock (SACKBlocks p) (ack_cumulative fl clock order (AckNum p) a)
       else ack_cumulative fl clock order (AckNum p) a)"
    and "same_rest a a1" and "adapt_fec fl (updatePacing fl a1) = Some a2"
    and "a' = a2\<lparr>sendWindow := congestion_window fl a2\<rparr>"
proof -
  let ?c = "ack_cumulative fl clock order (AckNum p) a"
  let ?a1 = "if Flags p AND FlagSACK \<noteq> 0 then ack_selective fl clock (SACKBlocks p) ?c else ?c"
  have "same_rest a ?a1"
    using ack_loops_rest(1) [of a fl clock order "AckNum p"]
      ack_loops_rest(2) [of ?c fl clock "SACKBlocks p"]
    by (simp add: same_rest_def)
  moreover obtain a2 where "adapt_fec fl (updatePacing fl ?a1) = Some a2"
    "a' = a2\<lparr>sendWindow := congestion_window fl a2\<rparr>"
    using assms by (auto simp: handleACK_def Let_def split: option.splits)
  ultimately show ?thesis using that by blast
qed

lemma handleACK_total:
  assumes "float_rounding fl" and "arq_wf x fl a" and "\<not> arq_closed a"
  shows "\<exists>a'. handleACK fl clock order p a = Some a' \<and> arq_wf x fl a'"
proof -
  let ?c = "ack_cumulative fl clock order (AckNum p) a"
  let ?a1 = "if Flags p AND FlagSACK \<noteq> 0 then ack_selective fl clock (SACKBlocks p) ?c else ?c"
  let ?b = "updatePacing fl ?a1"
  have r: "same_rest a ?a1"
    using ack_loops_rest(1) [of a fl clock order "AckNum p"]
      ack_loops_rest(2) [of ?c fl clock "SACKBlocks p"]
    by (simp add: same_rest_def)
  have s: "sender_wf ?a1" using assms(2) ack_loops_wf by (simp add: arq_wf_def)
  have "parts_wf x fl ?a1"
    using r assms(2) parts_wf_cong [of ?a1 a x fl] by (simp add: same_rest_def arq_wf_def)
  then have "parts_wf x fl ?b"
    using updatePacing_pacer [OF assms(1), of ?a1] by (simp add: parts_wf_def)
  moreover have "\<not> arq_closed ?b" using r assms(3) by (simp add: same_rest_def)
  ultimately obtain a2 where a2: "adapt_fec fl ?b = Some a2" "parts_wf x fl a2"
    using adapt_fec_parts [OF assms(1)] by blast
  note f = adapt_fec_fields [OF a2(1)]
  have w: "16 \<le> sendWindow a2 \<and> sendWindow a2 \<le> MaxWindowSize"
    using s f(1) by (simp add: sender_wf_def)
  have "sender_wf (a2\<lparr>sendWindow := congestion_window fl a2\<rparr>)"
    using s congestion_window_range [of a2 fl] w f(2,3) by (simp add: sender_wf_def)
  moreover have "receiver_wf (a2\<lparr>sendWindow := congestion_window fl a2\<rparr>)"
    using r f assms(2) by (simp add: receiver_wf_def same_rest_def arq_wf_def)
  moreover have "parts_wf x fl (a2\<lparr>sendWindow := congestion_window fl a2\<rparr>)"
    using a2(2) by (simp add: parts_wf_def)
  ultimately show ?thesis
    using a2(1) by (simp add: handleACK_def Let_def arq_wf_def)
qed

subsection \<open>Receiving\<close>

lemma drain_inv:
  assumes "I a"
    and "\<And>a p. I a \<Longrightarrow> map_of (recvBuf a) (recvNext a) = Some p \<Longrightarrow>
      I ((deliverPacket p a)\<lparr> recvBuf := AList.delete (recvNext a) (recvBuf a),
            recvNext := recvNext a + 1 \<rparr>)"
  shows "I (drain a)"
  using assms(1)
proof (induction a rule: drain.induct)
  case (1 a)
  show ?case
  proof (cases "map_of (recvBuf a) (recvNext a)")
    case None
    then show ?thesis using "1.prems" by (simp add: drain.simps [of a])
  next
    case (Some p)
    then show ?thesis using "1.IH" [OF Some] assms(2) [OF "1.prems" Some]
      by (simp add: drain.simps [of a])
  qed
qed

text \<open>What receiving data leaves alone.\<close>

definition same_sender :: "ARQEngine \<Rightarrow> ARQEngine \<Rightarrow> bool" where
  "same_sender a b \<longleftrightarrow> sendSeq b = sendSeq a \<and> sendWindow b = sendWindow a \<and> rto b = rto a
     \<and> unacked b = unacked a \<and> pacer b = pacer a \<and> fecConfig b = fecConfig a
     \<and> fecEnc b = fecEnc a \<and> deliverBufSize b = deliverBufSize a \<and> arq_closed b = arq_closed a
     \<and> packetsLost b = packetsLost a \<and> packetsSent b = packetsSent a"

lemma deliverPacket_same [simp]:
  "same_sender a (deliverPacket p b) = same_sender a b"
  "arq_codec (deliverPacket p b) = arq_codec b" "fecDec (deliverPacket p b) = fecDec b"
  "unackedRecv (deliverPacket p b) = unackedRecv b"
  "delayedACKTimer (deliverPacket p b) = delayedACKTimer b" "outbox (deliverPacket p b) = outbox b"
  "arq_closed (deliverPacket p b) = arq_closed b"
  "deliverBufSize (deliverPacket p b) = deliverBufSize b" "spawned (deliverPacket p b) = spawned b"
  by (simp_all add: deliverPacket_def same_sender_def)

lemma deliverPacket_length:
  "length (delivered a) \<le> deliverBufSize a \<Longrightarrow>
     length (delivered (deliverPacket p a)) \<le> deliverBufSize a"
  by (simp add: deliverPacket_def)

lemma drain_same:
  "same_sender a (drain a) \<and> arq_codec (drain a) = arq_codec a \<and> fecDec (drain a) = fecDec a
    \<and> unackedRecv (drain a) = unackedRecv a \<and> delayedACKTimer (drain a) = delayedACKTimer a
    \<and> outbox (drain a) = outbox a \<and> spawned (drain a) = spawned a"
  by (rule drain_inv [where I = "\<lambda>b. same_sender a b \<and> arq_codec b = arq_codec a
      \<and> fecDec b = fecDec a \<and> unackedRecv b = unackedRecv a \<and> delayedACKTimer b = delayedACKTimer a
      \<and> outbox b = outbox a \<and> spawned b = spawned a"])
     (auto simp: same_sender_def deliverPacket_def)

lemma drain_receiver:
  "amap_wf (recvBuf a) \<Longrightarrow> length (delivered a) \<le> deliverBufSize a \<Longrightarrow>
    amap_wf (recvBuf (drain a)) \<and> length (delivered (drain a)) \<le> deliverBufSize (drain a)"
  by (rule drain_inv [where I = "\<lambda>b. amap_wf (recvBuf b) \<and> length (delivered b) \<le> deliverBufSize b"])
     (auto simp: amap_simps deliverPacket_def)

lemma length_sack_take: "length (sack_part p) \<le> 2 + 4 * length (SACKBlocks p)"
  by (simp add: length_sack_part)

lemma Encode_no_payload:
  assumes "Payload p = []" and "length (SACKBlocks p) \<le> 32"
  shows "fst (Encode x nonce c p) \<noteq> Inl Panic"
proof -
  have "compress_stage x c p = (Inr [], c)" using assms(1) by (simp add: compress_stage_def)
  moreover have "mark_compressed c p [] = p" using assms(1) by (simp add: mark_compressed_def)
  moreover have "length (plaintext_of p []) \<le> 2048"
    using length_sack_take [of p] assms(2) by (simp add: length_plaintext_of)
  ultimately show ?thesis
    by (simp add: Encode_def seal_wire_def Let_def split: option.splits)
qed

lemma sendACK_total:
  assumes "arq_wf x fl a"
  shows "\<exists>a'. sendACK x nonce order a = Some a' \<and> arq_wf x fl a'"
proof -
  obtain r p' a1 where e: "arq_encode x nonce (ack_packet order a) a = (r, p', a1)"
    by (metis prod_cases3)
  have "Payload (ack_packet order a) = []" "length (SACKBlocks (ack_packet order a)) \<le> 32"
    by (simp_all add: ack_packet_def Let_def)
  from Encode_no_payload [OF this, of x nonce "arq_codec a"] have "r \<noteq> Inl Panic"
    using e by (auto simp: arq_encode_def split: prod.splits)
  moreover have "arq_wf x fl a1" by (rule arq_encode_wf [OF assms e])
  ultimately show ?thesis
    using e transmit_wf by (auto simp: sendACK_def split: sum.splits failure.splits)
qed

lemma flushACK_total:
  assumes "parts_wf x fl a" "sender_wf a" "amap_wf (recvBuf a)"
    "length (delivered a) \<le> deliverBufSize a"
  shows "\<exists>a'. flushACK x nonce order a = Some a' \<and> arq_wf x fl a'"
  unfolding flushACK_def
  by (rule sendACK_total)
     (use assms in \<open>simp add: arq_wf_def parts_wf_def sender_wf_def receiver_wf_def DelayedACKThreshold_def\<close>)

text \<open>The data part of \<^verbatim>\<open>handleDATA\<close>, before the acknowledgement.\<close>

definition accept_data :: "Packet \<Rightarrow> ARQEngine \<Rightarrow> ARQEngine" where
  "accept_data pkt a =
     (if SeqNum pkt = recvNext a then drain ((deliverPacket pkt a)\<lparr>recvNext := recvNext a + 1\<rparr>)
      else if recvNext a < SeqNum pkt
      then a\<lparr>recvBuf := AList.update (SeqNum pkt) pkt (recvBuf a)\<rparr>
      else a)"

lemma accept_data_same:
  "same_sender a (accept_data p a) \<and> arq_codec (accept_data p a) = arq_codec a
    \<and> fecDec (accept_data p a) = fecDec a \<and> unackedRecv (accept_data p a) = unackedRecv a
    \<and> delayedACKTimer (accept_data p a) = delayedACKTimer a \<and> outbox (accept_data p a) = outbox a
    \<and> spawned (accept_data p a) = spawned a"
proof -
  have "same_sender a ((deliverPacket p a)\<lparr>recvNext := n\<rparr>)" for n
    using deliverPacket_same(1) [of a p a] by (simp add: same_sender_def)
  then show ?thesis
    using drain_same [of "(deliverPacket p a)\<lparr>recvNext := recvNext a + 1\<rparr>"]
    by (auto simp: accept_data_def same_sender_def)
qed

lemma accept_data_receiver:
  assumes "amap_wf (recvBuf a)" and "length (delivered a) \<le> deliverBufSize a"
  shows "amap_wf (recvBuf (accept_data p a))
    \<and> length (delivered (accept_data p a)) \<le> deliverBufSize (accept_data p a)"
  using assms deliverPacket_length [OF assms(2), of p]
    drain_receiver [of "(deliverPacket p a)\<lparr>recvNext := recvNext a + 1\<rparr>"]
  by (auto simp: accept_data_def amap_simps)

lemma handleDATA_alt:
  "handleDATA x nonce order p a =
     (let b = (accept_data p a)\<lparr>unackedRecv := unackedRecv a + 1\<rparr>
      in if DelayedACKThreshold \<le> unackedRecv b \<or> recvNext a < SeqNum p
         then flushACK x nonce order b
         else if \<not> delayedACKTimer b then Some (b\<lparr>delayedACKTimer := True\<rparr>) else Some b)"
  using accept_data_same [of a p] by (auto simp: handleDATA_def accept_data_def Let_def)

lemma handleDATA_total:
  assumes "arq_wf x fl a"
  shows "\<exists>a'. handleDATA x nonce order p a = Some a' \<and> arq_wf x fl a'"
proof -
  let ?b = "(accept_data p a)\<lparr>unackedRecv := unackedRecv a + 1\<rparr>"
  note s = accept_data_same [of a p]
  have p: "parts_wf x fl ?b" and sw: "sender_wf ?b"
    using s assms by (simp_all add: arq_wf_def parts_wf_def sender_wf_def same_sender_def)
  have r: "amap_wf (recvBuf ?b)" "length (delivered ?b) \<le> deliverBufSize ?b"
    using accept_data_receiver [of a p] assms by (simp_all add: arq_wf_def receiver_wf_def)
  show ?thesis
  proof (cases "DelayedACKThreshold \<le> unackedRecv ?b \<or> recvNext a < SeqNum p")
    case True
    then show ?thesis
      using flushACK_total [OF p sw r, of nonce order] by (simp add: handleDATA_alt Let_def)
  next
    case False
    then have "handleDATA x nonce order p a = Some (?b\<lparr>delayedACKTimer := True\<rparr>)"
      by (cases "delayedACKTimer ?b") (auto simp: handleDATA_alt Let_def)
    moreover have "receiver_wf (?b\<lparr>delayedACKTimer := True\<rparr>)"
      using r False assms s by (simp add: receiver_wf_def arq_wf_def)
    ultimately show ?thesis
      using p sw by (simp add: arq_wf_def parts_wf_def sender_wf_def)
  qed
qed

lemma fec_receive_total:
  assumes "arq_wf x fl a"
    and "\<And>d. fd_wf d \<Longrightarrow> \<exists>d' out. f d = Some (d', out) \<and> fd_wf d' \<and> fd_configCh d' = fd_configCh d"
  shows "\<exists>a'. fec_receive f a = Some a' \<and> arq_wf x fl a'"
proof -
  obtain d where d: "fecDec a = Some d" "fd_wf d" "list_all shape_ok (fd_configCh d)"
    using fecDec_some [OF assms(1)] by blast
  obtain d' out where "f d = Some (d', out)" "fd_wf d'" "fd_configCh d' = fd_configCh d"
    using assms(2) [OF d(2)] by blast
  with d assms(1) show ?thesis
    by (simp add: fec_receive_def arq_wf_def parts_wf_def sender_wf_def receiver_wf_def)
qed

text \<open>The receive state proper.\<close>

definition same_recv :: "ARQEngine \<Rightarrow> ARQEngine \<Rightarrow> bool" where
  "same_recv a b \<longleftrightarrow> recvNext b = recvNext a \<and> recvBuf b = recvBuf a \<and> delivered b = delivered a
     \<and> deliverBufSize b = deliverBufSize a \<and> arq_closed b = arq_closed a"

lemma sendACK_frame:
  assumes "sendACK x nonce order a = Some a'"
  shows "same_recv a a' \<and> same_sender a a' \<and> unackedRecv a' = unackedRecv a
    \<and> delayedACKTimer a' = delayedACKTimer a \<and> spawned a' = spawned a \<and> fecDec a' = fecDec a"
proof -
  obtain r p' a1 where e: "arq_encode x nonce (ack_packet order a) a = (r, p', a1)"
    by (metis prod_cases3)
  then obtain c' where "a1 = a\<lparr>arq_codec := c'\<rparr>" using arq_encode_cases by metis
  with e assms show ?thesis
    by (auto simp: sendACK_def same_recv_def same_sender_def transmit_def
        split: sum.splits failure.splits)
qed

lemma handleDATA_shape:
  assumes "handleDATA x nonce order p a = Some a'"
  shows "same_recv (accept_data p a) a'"
proof -
  let ?b = "(accept_data p a)\<lparr>unackedRecv := unackedRecv a + 1\<rparr>"
  have "same_recv (accept_data p a) a'" if "flushACK x nonce order ?b = Some a'"
    using sendACK_frame [of x nonce order "?b\<lparr>delayedACKTimer := False, unackedRecv := 0\<rparr>" a'] that
    by (simp add: flushACK_def same_recv_def)
  then show ?thesis
    using assms by (auto simp: handleDATA_alt Let_def same_recv_def split: if_splits)
qed

lemma fec_receive_frame:
  assumes "fec_receive f a = Some a'"
  shows "same_recv a a' \<and> same_sender a a' \<and> unackedRecv a' = unackedRecv a
    \<and> delayedACKTimer a' = delayedACKTimer a \<and> outbox a' = outbox a \<and> arq_codec a' = arq_codec a"
  using assms
  by (auto simp: fec_receive_def same_recv_def same_sender_def split: option.splits)

lemma AddData_channel:
  "AddData x s pl d = Some (d', out) \<Longrightarrow> fd_configCh d' = fd_configCh d"
  "AddParity x s i pl d = Some (d', out) \<Longrightarrow> fd_configCh d' = fd_configCh d"
  by (auto simp: AddData_def AddParity_def store_shard_def checkRecover_def getOrCreateGroup_def
      Let_def split: prod.splits option.splits if_splits)

lemma count_packet_wf:
  "arq_wf x fl a \<Longrightarrow> arq_wf x fl (a\<lparr>totalPacketsRecv := n, totalBytesRecv := m\<rparr>)"
  by (simp add: arq_wf_def parts_wf_def sender_wf_def receiver_wf_def)

lemma HandlePacket_total:
  assumes "float_rounding fl" and "rs_valid x" and "arq_wf x fl a"
  shows "\<exists>a'. HandlePacket x fl nonce clock order p a = Some a' \<and> arq_wf x fl a'"
proof (cases "arq_closed a")
  case True
  then show ?thesis using assms(3) by (simp add: HandlePacket_def)
next
  case False
  let ?a = "a\<lparr> totalPacketsRecv := totalPacketsRecv a + 1,
      totalBytesRecv := totalBytesRecv a + of_nat (length (Payload p)) \<rparr>"
  have wf: "arq_wf x fl ?a" by (rule count_packet_wf [OF assms(3)])
  have d: "\<exists>d' out. AddData x s pl d = Some (d', out) \<and> fd_wf d' \<and> fd_configCh d' = fd_configCh d"
    if "fd_wf d" for d s pl
    using AddData_wf [OF assms(2) that, of s pl] AddData_channel(1) by metis
  have q: "\<exists>d' out. AddParity x s i pl d = Some (d', out) \<and> fd_wf d' \<and> fd_configCh d' = fd_configCh d"
    if "fd_wf d" for d s i pl
    using AddParity_wf [OF assms(2) that, of s i pl] AddData_channel(2) by metis
  consider "Type p = PacketACK" | "Type p = PacketDATA" | "Type p = PacketFEC"
    | "Type p \<noteq> PacketACK" "Type p \<noteq> PacketDATA" "Type p \<noteq> PacketFEC" by blast
  then show ?thesis
  proof cases
    case 1
    then show ?thesis
      using handleACK_total [OF assms(1) wf, of clock order p] False by (simp add: HandlePacket_def)
  next
    case 2
    obtain b where "fec_receive (AddData x (SeqNum p) (Payload p)) ?a = Some b" "arq_wf x fl b"
      using fec_receive_total [OF wf, of "AddData x (SeqNum p) (Payload p)"] d by blast
    with 2 False show ?thesis
      using handleDATA_total [of x fl b nonce order p] by (simp add: HandlePacket_def)
  next
    case 3
    then show ?thesis
      using fec_receive_total [OF wf, of "AddParity x (SeqNum p) (Flags p) (Payload p)"] q False
      by (auto simp: HandlePacket_def)
  next
    case 4
    then show ?thesis using wf False by (simp add: HandlePacket_def)
  qed
qed

lemma HandlePacket_data_shape:
  assumes "Type p = PacketDATA" and "\<not> arq_closed a"
    and "HandlePacket x fl nonce clock order p a = Some a'"
  obtains b where "same_recv a b" and "same_recv (accept_data p b) a'"
proof -
  obtain b where b: "fec_receive (AddData x (SeqNum p) (Payload p)) (a\<lparr> totalPacketsRecv :=
      totalPacketsRecv a + 1, totalBytesRecv := totalBytesRecv a + of_nat (length (Payload p)) \<rparr>) = Some b"
    "handleDATA x nonce order p b = Some a'"
    using assms by (auto simp: HandlePacket_def split: option.splits)
  have "same_recv a b" using fec_receive_frame [OF b(1)] by (simp add: same_recv_def)
  then show ?thesis using handleDATA_shape [OF b(2)] that by blast
qed

subsection \<open>In-order delivery\<close>

definition received_set :: "ARQEngine \<Rightarrow> nat set" where
  "received_set a = {..<unat (recvNext a)} \<union> unat ` amap_keys (recvBuf a)"

text \<open>\<open>P i\<close> is the payload the sender numbered \<open>i\<close>, \<open>taken\<close> what the reader has taken from the
  channel. The buffer holds packets beyond \<open>recvNext\<close> (from \<open>recvNext\<close> on while draining), and
  what was delivered is a subsequence of what was sent; all of it where \<open>exact\<close>.\<close>

definition buffer_ok :: "(nat \<Rightarrow> bytes) \<Rightarrow> ARQEngine \<Rightarrow> bool" where
  "buffer_ok P a \<longleftrightarrow>
     (\<forall>k p. map_of (recvBuf a) k = Some p \<longrightarrow> recvNext a \<le> k \<and> k \<noteq> - 1 \<and> Payload p = P (unat k))"

definition log_ok :: "(nat \<Rightarrow> bytes) \<Rightarrow> bytes list \<Rightarrow> bool \<Rightarrow> ARQEngine \<Rightarrow> bool" where
  "log_ok P taken exact a \<longleftrightarrow>
     subseq (taken @ map Payload (delivered a)) (map P [0..<unat (recvNext a)])
     \<and> (exact \<longrightarrow> taken @ map Payload (delivered a) = map P [0..<unat (recvNext a)])"

definition in_order :: "(nat \<Rightarrow> bytes) \<Rightarrow> bytes list \<Rightarrow> bool \<Rightarrow> ARQEngine \<Rightarrow> bool" where
  "in_order P taken exact a \<longleftrightarrow> log_ok P taken exact a
     \<and> (\<forall>k p. map_of (recvBuf a) k = Some p \<longrightarrow> recvNext a < k \<and> k \<noteq> - 1 \<and> Payload p = P (unat k))"

lemma unat_Suc: "n \<noteq> - 1 \<Longrightarrow> unat (n + 1 :: u32) = Suc (unat n)"
  using unatSuc [of n] by (simp add: add.commute [of n] eq_neg_iff_add_eq_0)

lemma deliver_log:
  assumes "log_ok P taken exact a" and "Payload p = P (unat (recvNext a))" and "recvNext a \<noteq> - 1"
    and "exact \<Longrightarrow> unat (recvNext a) < deliverBufSize a \<and> \<not> arq_closed a"
  shows "log_ok P taken exact ((deliverPacket p a)\<lparr>recvBuf := m, recvNext := recvNext a + 1\<rparr>)"
proof -
  let ?ps = "taken @ map Payload (delivered a)" and ?n = "unat (recvNext a)"
  have s: "subseq ?ps (map P [0..<?n])" using assms(1) by (simp add: log_ok_def)
  then have "subseq ?ps (map P [0..<?n] @ [P ?n])" "subseq (?ps @ [P ?n]) (map P [0..<?n] @ [P ?n])"
    using subseq_append [of ?ps "[P ?n]" "map P [0..<?n]"] by (auto intro: subseq_rev_drop_many)
  moreover have "exact \<Longrightarrow> length (delivered a) < deliverBufSize a"
    using assms(1,4) by (auto simp: log_ok_def dest: arg_cong [where f = length])
  ultimately show ?thesis
    using assms unat_Suc [OF assms(3)] by (auto simp: log_ok_def deliverPacket_def)
qed

lemma drain_stop: "map_of (recvBuf (drain a)) (recvNext (drain a)) = None"
proof (induction a rule: drain.induct)
  case (1 a)
  then show ?case
    by (cases "map_of (recvBuf a) (recvNext a)") (simp_all add: drain.simps [of a])
qed

lemma received_set_drain_step:
  assumes "map_of (recvBuf a) (recvNext a) = Some p" and "recvNext a \<noteq> - 1"
  shows "received_set ((deliverPacket p a)\<lparr> recvBuf := AList.delete (recvNext a) (recvBuf a),
      recvNext := recvNext a + 1 \<rparr>) = received_set a"
proof -
  have "recvNext a \<in> amap_keys (recvBuf a)" using assms(1) by (simp add: amap_keys_iff)
  then have "unat ` amap_keys (recvBuf a)
      = insert (unat (recvNext a)) (unat ` (amap_keys (recvBuf a) - {recvNext a}))" by blast
  then show ?thesis
    by (simp add: received_set_def amap_simps unat_Suc [OF assms(2)] lessThan_Suc)
qed

lemma drain_in_order:
  assumes "buffer_ok P a" and "log_ok P taken exact a"
    and "exact \<Longrightarrow> received_set a \<subseteq> {..<deliverBufSize a} \<and> \<not> arq_closed a"
  shows "in_order P taken exact (drain a) \<and> received_set (drain a) = received_set a"
proof -
  let ?I = "\<lambda>b. buffer_ok P b \<and> log_ok P taken exact b \<and> received_set b = received_set a
      \<and> (exact \<longrightarrow> received_set b \<subseteq> {..<deliverBufSize b} \<and> \<not> arq_closed b)"
  have "?I (drain a)"
  proof (rule drain_inv [where I = ?I])
    show "?I a" using assms by simp
  next
    fix b p
    assume I: "?I b" and p: "map_of (recvBuf b) (recvNext b) = Some p"
    let ?c = "(deliverPacket p b)\<lparr> recvBuf := AList.delete (recvNext b) (recvBuf b),
        recvNext := recvNext b + 1 \<rparr>"
    have n: "recvNext b \<noteq> - 1" and pp: "Payload p = P (unat (recvNext b))"
      using I p by (auto simp: buffer_ok_def)
    have "recvNext b + 1 \<le> k" if "map_of (recvBuf b) k = Some q" "k \<noteq> recvNext b" for k q
    proof -
      have "recvNext b \<le> k" using I that by (auto simp: buffer_ok_def)
      then have "recvNext b < k" using that(2) by (metis le_neq_trans)
      then show ?thesis by (rule inc_le)
    qed
    then have "buffer_ok P ?c"
      using I by (auto simp: buffer_ok_def amap_simps)
    moreover have "unat (recvNext b) \<in> received_set b"
      using p by (auto simp: received_set_def amap_keys_iff)
    then have "log_ok P taken exact ?c"
      using I pp n by (intro deliver_log) auto
    moreover have "received_set ?c = received_set a"
      using received_set_drain_step [OF p n] I by simp
    ultimately show "?I ?c" using I by auto
  qed
  moreover have "recvNext (drain a) < k"
    if "map_of (recvBuf (drain a)) k = Some q" "recvNext (drain a) \<le> k" for k q
    using that drain_stop [of a] by (metis le_neq_trans option.distinct(1))
  ultimately show ?thesis by (auto simp: in_order_def buffer_ok_def)
qed

lemma accept_data_in_order:
  assumes "in_order P taken exact a" and "SeqNum p \<noteq> - 1" and "Payload p = P (unat (SeqNum p))"
    and "exact \<Longrightarrow> insert (unat (SeqNum p)) (received_set a) \<subseteq> {..<deliverBufSize a} \<and> \<not> arq_closed a"
  shows "in_order P taken exact (accept_data p a)
    \<and> received_set (accept_data p a) = insert (unat (SeqNum p)) (received_set a)"
proof (cases "SeqNum p = recvNext a")
  case True
  let ?b = "(deliverPacket p a)\<lparr>recvNext := recvNext a + 1\<rparr>"
  have n: "recvNext a \<noteq> - 1" using True assms(2) by simp
  have rs: "received_set ?b = insert (unat (SeqNum p)) (received_set a)"
    using True by (simp add: received_set_def unat_Suc [OF n] lessThan_Suc)
  have "buffer_ok P ?b"
    using assms(1) unat_Suc [OF n]
    by (auto simp: in_order_def buffer_ok_def word_le_nat_alt word_less_nat_alt Suc_le_eq)
  moreover have "log_ok P taken exact ((deliverPacket p a)\<lparr>recvBuf := recvBuf a, recvNext := recvNext a + 1\<rparr>)"
    by (rule deliver_log) (use assms True n in \<open>auto simp: in_order_def\<close>)
  then have "log_ok P taken exact ?b" by (simp add: log_ok_def)
  ultimately have "in_order P taken exact (drain ?b) \<and> received_set (drain ?b) = received_set ?b"
    using assms(4) rs by (intro drain_in_order) auto
  with True rs show ?thesis by (simp add: accept_data_def)
next
  case False
  show ?thesis
  proof (cases "recvNext a < SeqNum p")
    case True
    then show ?thesis
      using assms(1-3) False
      by (auto simp: accept_data_def in_order_def log_ok_def received_set_def amap_simps
          split: if_splits)
  next
    case outside: False
    then have "SeqNum p < recvNext a" using False by simp
    then have "unat (SeqNum p) \<in> received_set a" by (simp add: received_set_def word_less_nat_alt)
    then show ?thesis using assms(1) False outside by (simp add: accept_data_def insert_absorb)
  qed
qed

lemma same_recv_in_order:
  assumes "same_recv a b"
  shows "in_order P taken exact b = in_order P taken exact a" "received_set b = received_set a"
    "deliverBufSize b = deliverBufSize a" "arq_closed b = arq_closed a"
  using assms by (simp_all add: same_recv_def in_order_def log_ok_def received_set_def)

lemma accept_data_buf [simp]: "deliverBufSize (accept_data p a) = deliverBufSize a"
    "arq_closed (accept_data p a) = arq_closed a"
  using accept_data_same [of a p] by (simp_all add: same_sender_def)

lemma HandlePacket_in_order:
  assumes "in_order P taken exact a" and "Type p = PacketDATA" and "\<not> arq_closed a"
    and "SeqNum p \<noteq> - 1" and "Payload p = P (unat (SeqNum p))"
    and "exact \<Longrightarrow> insert (unat (SeqNum p)) (received_set a) \<subseteq> {..<deliverBufSize a}"
    and "HandlePacket x fl nonce clock order p a = Some a'"
  shows "in_order P taken exact a' \<and> received_set a' = insert (unat (SeqNum p)) (received_set a)
    \<and> deliverBufSize a' = deliverBufSize a \<and> \<not> arq_closed a'"
proof -
  obtain b where b: "same_recv a b" "same_recv (accept_data p b) a'"
    using HandlePacket_data_shape [OF assms(2,3,7)] .
  have "in_order P taken exact (accept_data p b)
      \<and> received_set (accept_data p b) = insert (unat (SeqNum p)) (received_set b)"
    by (rule accept_data_in_order)
       (use assms same_recv_in_order [OF b(1)] in auto)
  then show ?thesis
    using same_recv_in_order [OF b(1)] same_recv_in_order [OF b(2)] assms(3) by simp
qed

text \<open>The receiver as a machine of two events, and the set of numbers it refines.\<close>

datatype recv_event = Arrive "bytes option" "u32 \<Rightarrow> int" "u32 list" Packet | Take

fun recv_step :: "externals \<Rightarrow> (rat \<Rightarrow> rat) \<Rightarrow> ARQEngine \<times> bytes list \<Rightarrow> recv_event
    \<Rightarrow> ARQEngine \<times> bytes list" where
  "recv_step x fl (a, taken) (Arrive nonce clock order p) =
     (the (HandlePacket x fl nonce clock order p a), taken)"
| "recv_step x fl (a, taken) Take =
     (case take_delivered a of
        (Some (Some p), a') \<Rightarrow> (a', taken @ [Payload p])
      | (_, a') \<Rightarrow> (a', taken))"

fun set_step :: "nat set \<Rightarrow> recv_event \<Rightarrow> nat set" where
  "set_step S (Arrive nonce clock order p) = insert (unat (SeqNum p)) S"
| "set_step S Take = S"

definition arrival_ok :: "(nat \<Rightarrow> bytes) \<Rightarrow> nat option \<Rightarrow> recv_event \<Rightarrow> bool" where
  "arrival_ok P limit e \<longleftrightarrow>
     (case e of Arrive nonce clock order p \<Rightarrow>
        Type p = PacketDATA \<and> SeqNum p \<noteq> - 1 \<and> Payload p = P (unat (SeqNum p))
        \<and> (case limit of None \<Rightarrow> True | Some n \<Rightarrow> unat (SeqNum p) < n)
      | Take \<Rightarrow> True)"

definition recv_inv :: "externals \<Rightarrow> (rat \<Rightarrow> rat) \<Rightarrow> (nat \<Rightarrow> bytes) \<Rightarrow> nat option
    \<Rightarrow> ARQEngine \<times> bytes list \<Rightarrow> bool" where
  "recv_inv x fl P limit s \<longleftrightarrow>
     (case s of (a, taken) \<Rightarrow> float_rounding fl \<and> rs_valid x \<and> arq_wf x fl a \<and> \<not> arq_closed a
        \<and> in_order P taken (limit \<noteq> None) a
        \<and> (case limit of None \<Rightarrow> True
           | Some n \<Rightarrow> n = deliverBufSize a \<and> received_set a \<subseteq> {..<n}))"

lemma take_delivered_wf:
  assumes "arq_wf x fl a"
  shows "arq_wf x fl (snd (take_delivered a))"
  using assms
  by (auto simp: take_delivered_def arq_wf_def parts_wf_def sender_wf_def receiver_wf_def
      split: list.splits)

lemma recv_step_sim:
  assumes "recv_inv x fl P limit s" and "arrival_ok P limit e"
  shows "recv_inv x fl P limit (recv_step x fl s e)
    \<and> received_set (fst (recv_step x fl s e)) = set_step (received_set (fst s)) e"
proof -
  obtain a taken where s: "s = (a, taken)" by (cases s)
  have inv: "float_rounding fl" "rs_valid x" "arq_wf x fl a" "\<not> arq_closed a"
    "in_order P taken (limit \<noteq> None) a"
    "limit = Some n \<Longrightarrow> n = deliverBufSize a \<and> received_set a \<subseteq> {..<n}" for n
    using assms(1) s by (auto simp: recv_inv_def)
  show ?thesis
  proof (cases e)
    case (Arrive nonce clock order p)
    obtain a' where a': "HandlePacket x fl nonce clock order p a = Some a'" "arq_wf x fl a'"
      using HandlePacket_total [OF inv(1-3)] by blast
    have "in_order P taken (limit \<noteq> None) a'
        \<and> received_set a' = insert (unat (SeqNum p)) (received_set a)
        \<and> deliverBufSize a' = deliverBufSize a \<and> \<not> arq_closed a'"
      by (rule HandlePacket_in_order [OF inv(5) _ inv(4) _ _ _ a'(1)])
         (use assms(2) Arrive inv(6) in \<open>auto simp: arrival_ok_def\<close>)
    then show ?thesis
      using s Arrive a' inv assms(2)
      by (auto simp: recv_inv_def arrival_ok_def split: option.splits)
  next
    case Take
    then show ?thesis
      using s inv take_delivered_wf [OF inv(3)]
      by (auto simp: recv_inv_def take_delivered_def in_order_def log_ok_def received_set_def
          split: list.splits option.splits)
  qed
qed

interpretation receiving: simulation
  "recv_step x fl" set_step "\<lambda>s. received_set (fst s)" "recv_inv x fl P limit" "arrival_ok P limit"
  for x fl P limit
  by unfold_locales (simp_all add: recv_step_sim)

subsection \<open>What an acknowledgement removes\<close>

lemma ack_selective_map:
  "map_of (unacked (ack_selective fl clock blocks a))
     = (\<lambda>s. if s \<in> set blocks then None else map_of (unacked a) s)"
  unfolding ack_selective_def
proof (induction blocks arbitrary: a)
  case (Cons b blocks)
  show ?case
    by (simp add: Cons.IH) (auto simp: fun_eq_iff amap_simps split: option.splits)
qed (simp add: fun_eq_iff)

lemma ack_cumulative_map:
  "map_of (unacked (ack_cumulative fl clock order n a))
     = (\<lambda>s. if s \<in> set order \<and> s < n then None else map_of (unacked a) s)"
  unfolding ack_cumulative_def
proof (induction order arbitrary: a)
  case (Cons b order)
  show ?case
    by (simp add: Cons.IH) (auto simp: fun_eq_iff amap_simps split: option.splits)
qed (simp add: fun_eq_iff)

lemma ack_selective_lost: "packetsLost (ack_selective fl clock blocks a) = packetsLost a"
  unfolding ack_selective_def
  by (rule foldl_inv [where I = "\<lambda>b. packetsLost b = packetsLost a"]) (auto split: option.splits)

lemma ack_cumulative_lost:
  assumes "distinct order" and "set order \<subseteq> amap_keys (unacked a)"
  shows "packetsLost (ack_cumulative fl clock order n a)
    = packetsLost a + of_nat (length (filter (\<lambda>s. s < n) order))"
  using assms unfolding ack_cumulative_def
proof (induction order arbitrary: a)
  case (Cons b order)
  let ?a = "case map_of (unacked a) b of
      Some infl \<Rightarrow> if b < n then processAckedPacket fl (clock b) b infl
          (a\<lparr>packetsLost := packetsLost a + 1\<rparr>) else a
    | None \<Rightarrow> a"
  obtain i where i: "map_of (unacked a) b = Some i"
    using Cons.prems(2) by (auto simp: amap_keys_iff)
  have "set order \<subseteq> amap_keys (unacked ?a)"
    using Cons.prems i by (auto simp: amap_simps)
  then show ?case using Cons.IH [of ?a] Cons.prems(1) i by simp
qed simp

lemma handleACK_unacked:
  assumes "handleACK fl clock order p a = Some a'" and "range_order order (unacked a)"
  shows "amap_keys (unacked a') = {s \<in> amap_keys (unacked a). \<not> s < AckNum p
      \<and> \<not> (Flags p AND FlagSACK \<noteq> 0 \<and> s \<in> set (SACKBlocks p))}"
    and "packetsLost a' = packetsLost a + of_nat (card {s \<in> amap_keys (unacked a). s < AckNum p})"
    and "\<And>s. s \<in> amap_keys (unacked a') \<Longrightarrow> map_of (unacked a') s = map_of (unacked a) s"
proof -
  obtain a1 a2 where a1: "a1 = (if Flags p AND FlagSACK \<noteq> 0
       then ack_selective fl clock (SACKBlocks p) (ack_cumulative fl clock order (AckNum p) a)
       else ack_cumulative fl clock order (AckNum p) a)"
    and a2: "adapt_fec fl (updatePacing fl a1) = Some a2"
      "a' = a2\<lparr>sendWindow := congestion_window fl a2\<rparr>"
    using handleACK_decompose [OF assms(1)] .
  have u: "unacked a' = unacked a1" "packetsLost a' = packetsLost a1"
    using adapt_fec_fields [OF a2(1)] a2(2) by simp_all
  have o: "distinct order" "set order = amap_keys (unacked a)"
    using assms(2) by (simp_all add: range_order_def)
  have m: "map_of (unacked a') s = (if Flags p AND FlagSACK \<noteq> 0 \<and> s \<in> set (SACKBlocks p)
      \<or> s \<in> set order \<and> s < AckNum p then None else map_of (unacked a) s)" for s
    unfolding u a1 by (auto simp: ack_selective_map ack_cumulative_map)
  then show "\<And>s. s \<in> amap_keys (unacked a') \<Longrightarrow> map_of (unacked a') s = map_of (unacked a) s"
    by (auto simp: amap_keys_iff split: if_splits)
  show "amap_keys (unacked a') = {s \<in> amap_keys (unacked a). \<not> s < AckNum p
      \<and> \<not> (Flags p AND FlagSACK \<noteq> 0 \<and> s \<in> set (SACKBlocks p))}"
    using m o(2) by (auto simp: amap_keys_iff split: if_splits)
  have "length (filter (\<lambda>s. s < AckNum p) order)
      = card {s \<in> amap_keys (unacked a). s < AckNum p}"
  proof -
    have "length (filter (\<lambda>s. s < AckNum p) order) = card (set (filter (\<lambda>s. s < AckNum p) order))"
      using o(1) by (intro distinct_card [symmetric]) simp
    also have "set (filter (\<lambda>s. s < AckNum p) order) = {s \<in> amap_keys (unacked a). s < AckNum p}"
      using o(2) by auto
    finally show ?thesis .
  qed
  moreover have "packetsLost (ack_cumulative fl clock order (AckNum p) a)
      = packetsLost a + of_nat (length (filter (\<lambda>s. s < AckNum p) order))"
    using ack_cumulative_lost [of order a] o by simp
  ultimately show "packetsLost a' = packetsLost a + of_nat (card {s \<in> amap_keys (unacked a). s < AckNum p})"
    unfolding u a1 by (simp add: ack_selective_lost)
qed

subsection \<open>Retransmission\<close>

lemma retransmit_one_wf:
  assumes "arq_wf x fl a" and "retransmit_one x nonces now seq a = Some a'"
  shows "arq_wf x fl a'"
proof (cases "map_of (unacked a) seq")
  case None
  then show ?thesis using assms by (simp add: retransmit_one_def)
next
  case (Some i)
  have iw: "SeqNum (inf_pkt i) = seq" "Type (inf_pkt i) = PacketDATA" "0 \<le> retries i"
    using assms(1) Some by (auto simp: arq_wf_def sender_wf_def)
  have upd: "arq_wf x fl (b\<lparr>unacked := u\<rparr>)" if "arq_wf x fl b" "sender_wf (b\<lparr>unacked := u\<rparr>)" for b u
    using that by (simp add: arq_wf_def parts_wf_def receiver_wf_def)
  show ?thesis
  proof (cases "MaxRetransmissions < retries i + 1")
    case True
    have "sender_wf (a\<lparr>unacked := AList.delete seq (unacked a)\<rparr>)"
      by (rule sender_wf_unacked)
         (use assms(1) in \<open>auto simp: arq_wf_def sender_wf_def amap_simps split: if_splits\<close>)
    then have "arq_wf x fl (a\<lparr>unacked := AList.delete seq (unacked a)\<rparr>)" by (rule upd [OF assms(1)])
    then show ?thesis using assms(2) Some True by (simp add: retransmit_one_def Let_def)
  next
    case False
    obtain r p' b where e: "arq_encode x (nonces seq) (inf_pkt i) a = (r, p', b)" by (metis prod_cases3)
    have bw: "arq_wf x fl b" by (rule arq_encode_wf [OF assms(1) e])
    obtain c' where c: "Encode x (nonces seq) (arq_codec a) (inf_pkt i) = (r, p', c')"
      "b = a\<lparr>arq_codec := c'\<rparr>" using arq_encode_cases [OF e] .
    have pw: "SeqNum p' = seq" "Type p' = PacketDATA" using Encode_pkt [OF c(1)] iw by simp_all
    have ub: "sender_wf (b\<lparr>unacked := AList.update seq j (unacked b)\<rparr>)"
      if "inf_pkt j = p'" "retries j = retries i + 1" for j
      by (rule sender_wf_unacked)
         (use bw pw that iw False in \<open>auto simp: arq_wf_def sender_wf_def amap_simps split: if_splits\<close>)
    have "arq_wf x fl (b\<lparr>unacked := AList.update seq j (unacked b)\<rparr>)"
      if "inf_pkt j = p'" "retries j = retries i + 1" for j
      by (rule upd [OF bw ub [OF that]])
    moreover have "arq_wf x fl (transmit w (d\<lparr>totalRetransmissions := n\<rparr>))" if "arq_wf x fl d" for w d n
      using that by (simp add: transmit_def arq_wf_def parts_wf_def sender_wf_def receiver_wf_def)
    ultimately show ?thesis
      using assms(2) Some False e
      by (auto simp: retransmit_one_def Let_def split: sum.splits failure.splits)
  qed
qed

lemma backoff_range:
  assumes "float_rounding fl" and "MinRTO \<le> r" and "r \<le> MaxRTO"
  shows "MinRTO \<le> go_int (min (fl (of_int (r * 2))) (fl (of_int MaxRTO)))
    \<and> go_int (min (fl (of_int (r * 2))) (fl (of_int MaxRTO))) \<le> MaxRTO"
proof -
  have "fl (of_int (r * 2)) = of_int (r * 2)" and "fl (of_int MaxRTO) = of_int MaxRTO"
    using assms by (intro fl_int; simp add: MinRTO_def MaxRTO_def)+
  then have "min (fl (of_int (r * 2))) (fl (of_int MaxRTO)) = of_int (min (r * 2) MaxRTO)"
    by (simp add: of_int_min)
  then show ?thesis using assms(2,3) by (simp add: MinRTO_def MaxRTO_def)
qed

lemma retransmit_tick_wf:
  assumes "float_rounding fl" and "arq_wf x fl a"
    and "retransmit_tick x fl nonces now order a = Some a'"
  shows "arq_wf x fl a'"
proof (cases "arq_closed a")
  case True
  then show ?thesis using assms by (simp add: retransmit_tick_def)
next
  case False
  obtain b where b: "fold_opt (retransmit_one x nonces now) (timed_out now order a) a = Some b"
    using assms(3) False by (auto simp: retransmit_tick_def Let_def split: option.splits)
  have bw: "arq_wf x fl b"
    using fold_opt_inv [of "arq_wf x fl", OF assms(2) b] retransmit_one_wf by blast
  then have "MinRTO \<le> rto b" "rto b \<le> MaxRTO" "16 \<le> sendWindow b" "sendWindow b \<le> MaxWindowSize"
    by (simp_all add: arq_wf_def sender_wf_def)
  moreover have "16 \<le> max (sendWindow b * 85 sdiv 100) 16
      \<and> max (sendWindow b * 85 sdiv 100) 16 \<le> MaxWindowSize"
    using calculation by (simp add: sdiv_nonneg MaxWindowSize_def)
  ultimately show ?thesis
    using assms(3) False b bw backoff_range [OF assms(1), of "rto b"]
    by (auto simp: retransmit_tick_def Let_def arq_wf_def parts_wf_def sender_wf_def receiver_wf_def
        split: if_splits)
qed

subsection \<open>Configuration and closing\<close>

lemma NewARQEngine_wf:
  assumes "float_rounding fl" and "codec_wf x c" and "rs_valid x" and "rs_new x 8 2"
  shows "arq_wf x fl (NewARQEngine x fl now c n)"
  using assms NewPacer_wf [OF assms(1), of 10000 64 now] fl_int [OF assms(1), of 10000]
  by (simp add: NewARQEngine_def arq_wf_def parts_wf_def sender_wf_def receiver_wf_def NewFecEncoder_def
      NewFecDecoder_def NewFECConfig_def fe_wf_def fd_wf_def shape_ok_def MaxWindowSize_def
      InitialRTO_def MinRTO_def MaxRTO_def DelayedACKThreshold_def Let_def NewPacer_def)

lemma config_loops_wf:
  assumes "rs_valid x" and "arq_wf x fl a"
  shows "arq_wf x fl (enc_config_loop x a)" "arq_wf x fl (dec_config_loop x a)"
proof -
  obtain e where e: "fecEnc a = Some e" "fe_wf e" using fecEnc_some [OF assms(2)] by blast
  obtain d where d: "fecDec a = Some d" "fd_wf d" "list_all shape_ok (fd_configCh d)"
    using fecDec_some [OF assms(2)] by blast
  have "fe_wf (enc_configure x c (e\<lparr>fe_configCh := ch\<rparr>))" for c ch
    using enc_configure_wf [OF assms(1)] e(2) by (simp add: fe_wf_channel)
  with e assms(2) show "arq_wf x fl (enc_config_loop x a)"
    by (auto simp: enc_config_loop_def set_fecEnc_wf split: list.splits)
  have "fd_wf (dec_configure x c (d\<lparr>fd_configCh := ch\<rparr>)) \<and>
      fd_configCh (dec_configure x c (d\<lparr>fd_configCh := ch\<rparr>)) = ch" if "shape_ok c" for c ch
    using dec_configure_wf [of "d\<lparr>fd_configCh := ch\<rparr>" c x] d(2) that
    by (simp add: fd_wf_channel) (simp add: dec_configure_def)
  with d assms(2) show "arq_wf x fl (dec_config_loop x a)"
    by (auto simp: dec_config_loop_def arq_wf_def parts_wf_def sender_wf_def receiver_wf_def
        split: list.splits)
qed

lemma SetFECConfig_wf:
  "arq_wf x fl a \<Longrightarrow> shape_ok c \<Longrightarrow> SetFECConfig c a = Some a' \<Longrightarrow> arq_wf x fl a'"
  by (auto simp: SetFECConfig_def arq_wf_def parts_wf_def sender_wf_def receiver_wf_def fe_wf_channel
      split: option.splits if_splits)

lemma ARQ_Close_wf: "arq_wf x fl a \<Longrightarrow> arq_wf x fl (ARQ_Close a)"
  using Pacer_Close_wf [of fl "pacer a"]
  by (auto simp: ARQ_Close_def arq_wf_def parts_wf_def sender_wf_def receiver_wf_def Pacer_Close_def)

lemma ack_timer_total: "arq_wf x fl a \<Longrightarrow> \<exists>a'. ack_timer x nonce order a = Some a' \<and> arq_wf x fl a'"
  unfolding ack_timer_def by (rule flushACK_total) (simp_all add: arq_wf_def receiver_wf_def)

lemma codec_change_wf:
  "arq_wf x fl a \<Longrightarrow> codec_wf x c \<Longrightarrow> arq_wf x fl (a\<lparr>arq_codec := c\<rparr>)"
  by (simp add: arq_wf_def parts_wf_def sender_wf_def receiver_wf_def)

section \<open>The engine as a transition system\<close>

text \<open>
  Everything that can happen to an engine, one locked section at a time: any goroutine may run
  next. Clock readings do not go back where the pacer waits.
\<close>

inductive engine_step :: "externals \<Rightarrow> (rat \<Rightarrow> rat) \<Rightarrow> ARQEngine \<Rightarrow> ARQEngine \<Rightarrow> bool"
  for x :: externals and fl :: "rat \<Rightarrow> rat" where
  step_enqueue: "Send_wait [(since, a)] = Proceed \<Longrightarrow> Send_enqueue x nonce now pl a = (r, a') \<Longrightarrow>
    engine_step x fl a a'"
| step_send_fec: "Send_fec x nonces seq pl a = Some a' \<Longrightarrow> engine_step x fl a a'"
| step_transmit: "sorted (lastRefill (pacer a) # map fst polls) \<Longrightarrow>
    Send_transmit fl polls ok w a = Some (r, a') \<Longrightarrow> engine_step x fl a a'"
| step_control: "SendControl x nonce ok p a = (r, a') \<Longrightarrow> engine_step x fl a a'"
| step_packet: "HandlePacket x fl nonce clock order p a = Some a' \<Longrightarrow> engine_step x fl a a'"
| step_retransmit: "retransmit_tick x fl nonces now order a = Some a' \<Longrightarrow> engine_step x fl a a'"
| step_ack_timer: "delayedACKTimer a \<Longrightarrow> ack_timer x nonce order a = Some a' \<Longrightarrow> engine_step x fl a a'"
| step_fec_timer: "fec_flush_timer x nonces a = Some a' \<Longrightarrow> engine_step x fl a a'"
| step_fec_group_timer: "fecDec a = Some d \<Longrightarrow>
    engine_step x fl a (a\<lparr>fecDec := Some (group_timeout s d)\<rparr>)"
| step_enc_config: "engine_step x fl a (enc_config_loop x a)"
| step_dec_config: "engine_step x fl a (dec_config_loop x a)"
| step_set_config: "shape_ok c \<Longrightarrow> SetFECConfig c a = Some a' \<Longrightarrow> engine_step x fl a a'"
| step_take: "take_delivered a = (r, a') \<Longrightarrow> engine_step x fl a a'"
| step_decode: "Decode x (arq_codec a) w = (r, c) \<Longrightarrow> engine_step x fl a (a\<lparr>arq_codec := c\<rparr>)"
| step_rotate: "engine_step x fl a (a\<lparr>arq_codec := rotateDCID x (arq_codec a)\<rparr>)"
| step_close: "engine_step x fl a (ARQ_Close a)"

inductive_cases engine_stepE: "engine_step x fl a a'"

lemma engine_step_wf:
  assumes "float_rounding fl" and "rs_valid x" and "digests_correct x"
    and "arq_wf x fl a" and "engine_step x fl a a'"
  shows "arq_wf x fl a'"
  using assms(5)
proof cases
  case (step_packet nonce clock order p)
  then show ?thesis using HandlePacket_total [OF assms(1,2,4), of nonce clock order p] by auto
next
  case (step_ack_timer nonce order)
  then show ?thesis using ack_timer_total [OF assms(4), of nonce order] by auto
next
  case (step_fec_group_timer d s)
  then have "fd_wf d" "list_all shape_ok (fd_configCh d)" using fecDec_some [OF assms(4)] by auto
  then have "fd_wf (group_timeout s d)" "fd_configCh (group_timeout s d) = fd_configCh d"
    using group_timeout_wf by (simp_all add: group_timeout_def)
  with step_fec_group_timer assms(4) \<open>list_all shape_ok (fd_configCh d)\<close> show ?thesis
    by (simp add: arq_wf_def parts_wf_def sender_wf_def receiver_wf_def)
next
  case (step_take r)
  then show ?thesis using take_delivered_wf [OF assms(4)] by simp
next
  case (step_decode w r c)
  have "codec_wf x c" using Decode_wf [of x "arq_codec a" w] assms(4) step_decode(2)
    by (simp add: arq_wf_def parts_wf_def)
  then show ?thesis using codec_change_wf [OF assms(4)] step_decode(1) by simp
next
  case step_rotate
  have "codec_wf x (rotateDCID x (arq_codec a))"
    using rotateDCID_wf [OF assms(3)] assms(4) by (simp add: arq_wf_def parts_wf_def)
  then show ?thesis using codec_change_wf [OF assms(4)] step_rotate by simp
qed (use assms in \<open>auto intro: Send_enqueue_wf Send_fec_wf Send_transmit_wf SendControl_wf
    retransmit_tick_wf fec_flush_timer_wf config_loops_wf SetFECConfig_wf ARQ_Close_wf\<close>)

definition engine_start :: "externals \<Rightarrow> (rat \<Rightarrow> rat) \<Rightarrow> ARQEngine \<Rightarrow> bool" where
  "engine_start x fl a \<longleftrightarrow> float_rounding fl \<and> rs_valid x \<and> digests_correct x \<and> rs_new x 8 2
     \<and> (\<exists>now c n. codec_wf x c \<and> a = NewARQEngine x fl now c n)"

interpretation engine: invariant_system "engine_start x fl" "engine_step x fl"
  "\<lambda>a. float_rounding fl \<and> rs_valid x \<and> digests_correct x \<and> arq_wf x fl a"
  for x fl
  by unfold_locales (auto simp: engine_start_def intro: NewARQEngine_wf engine_step_wf)

subsection \<open>Single behaviours\<close>

lemma new_engine_recv_inv:
  assumes "float_rounding fl" and "rs_valid x" and "rs_new x 8 2" and "codec_wf x c"
  shows "recv_inv x fl P None (NewARQEngine x fl now c n, [])"
    and "recv_inv x fl P (Some n) (NewARQEngine x fl now c n, [])"
    and "received_set (NewARQEngine x fl now c n) = {}"
  using NewARQEngine_wf [OF assms(1,4,2,3), of now n] assms
  by (simp_all add: recv_inv_def in_order_def log_ok_def NewARQEngine_def received_set_def)

lemma in_order_least:
  assumes "in_order P taken exact a"
  shows "unat (recvNext a) \<notin> received_set a" "{..<unat (recvNext a)} \<subseteq> received_set a"
proof -
  have "unat (recvNext a) \<noteq> unat k" if "k \<in> amap_keys (recvBuf a)" for k
    using assms that by (force simp: in_order_def amap_keys_iff word_less_nat_alt)
  then show "unat (recvNext a) \<notin> received_set a" by (auto simp: received_set_def)
qed (simp add: received_set_def)

lemma Send_wait_full:
  "list_all (\<lambda>(since, a). \<not> arq_closed a \<and> sendWindow a \<le> int (length (unacked a))) rounds \<Longrightarrow>
     Send_wait rounds = Waiting"
  by (induction rounds rule: Send_wait.induct) simp_all

lemma Send_enqueue_error:
  assumes "Send_enqueue x nonce now pl a = (Inl e, a')"
  shows "sendSeq a' = sendSeq a + 1 \<and> unacked a' = unacked a \<and> outbox a' = outbox a"
proof -
  let ?p = "\<lparr> Type = PacketDATA, SeqNum = sendSeq a, AckNum = recvNext a, Flags = 0,
    Payload = pl, SACKBlocks = [] \<rparr>"
  obtain r p' a1 where enc: "arq_encode x nonce ?p (a\<lparr>sendSeq := sendSeq a + 1\<rparr>) = (r, p', a1)"
    by (metis prod_cases3)
  obtain c' where "a1 = a\<lparr>sendSeq := sendSeq a + 1, arq_codec := c'\<rparr>"
    using arq_encode_cases [OF enc] by auto
  with enc assms show ?thesis
    by (auto simp: Send_enqueue_def Let_def split: sum.splits failure.splits)
qed

lemma retransmit_one_step:
  assumes "map_of (unacked a) seq = Some i" and "retransmit_one x nonces now seq a = Some a'"
  shows "if MaxRetransmissions < retries i + 1
     then map_of (unacked a') seq = None \<and> outbox a' = outbox a
     else (\<exists>i'. map_of (unacked a') seq = Some i' \<and> retries i' = retries i + 1)
       \<and> length (outbox a') \<le> Suc (length (outbox a))"
proof -
  obtain r p' b where e: "arq_encode x (nonces seq) (inf_pkt i) a = (r, p', b)" by (metis prod_cases3)
  then obtain c' where "b = a\<lparr>arq_codec := c'\<rparr>" using arq_encode_cases by metis
  with e assms show ?thesis
    by (auto simp: retransmit_one_def Let_def amap_simps transmit_def split: sum.splits failure.splits)
qed

lemma retransmit_run:
  assumes "map_of (unacked a) seq = Some i" and "retries i \<le> MaxRetransmissions"
    and "fold_opt (\<lambda>now. retransmit_one x nonces now seq) ts a = Some a'"
    and "int (length ts) = MaxRetransmissions - retries i + 1"
  shows "map_of (unacked a') seq = None
    \<and> int (length (outbox a')) \<le> int (length (outbox a)) + (MaxRetransmissions - retries i)"
  using assms
proof (induction ts arbitrary: a i)
  case (Cons t ts)
  obtain b where b: "retransmit_one x nonces t seq a = Some b"
    "fold_opt (\<lambda>now. retransmit_one x nonces now seq) ts b = Some a'"
    using Cons.prems(3) by (auto split: option.splits)
  note s = retransmit_one_step [OF Cons.prems(1) b(1)]
  show ?case
  proof (cases "MaxRetransmissions < retries i + 1")
    case True
    then have "ts = []" using Cons.prems(2,4) by simp
    then show ?thesis using s b(2) True Cons.prems(2) by simp
  next
    case False
    then obtain j where j: "map_of (unacked b) seq = Some j" "retries j = retries i + 1"
      "length (outbox b) \<le> Suc (length (outbox a))" using s by auto
    have "map_of (unacked a') seq = None
        \<and> int (length (outbox a')) \<le> int (length (outbox b)) + (MaxRetransmissions - retries j)"
      using Cons.IH [OF j(1) _ b(2)] j(2) False Cons.prems(4) by simp
    with j show ?thesis by simp
  qed
qed simp

lemma Decode_ack:
  assumes "aead_correct x" and "zstd_correct x" and "codec_wf x c" and "codec_wf x d"
    and "codec_peer c d" and "length n = 24" and "Payload p = []" and "length (SACKBlocks p) \<le> 32"
    and "Type p = PacketACK" and "Flags p = 0 \<or> Flags p = FlagSACK"
  shows "\<exists>w c'. Encode x (Some n) c p = (Inr w, p, c') \<and> fst (Decode x d w) = Inr (wire_view p)
    \<and> c' = c"
proof -
  have s: "compress_stage x c p = (Inr [], c)" "mark_compressed c p [] = p"
    using assms(7) by (simp_all add: compress_stage_def mark_compressed_def)
  have i: "\<not> isInitial p" using assms(9) by (simp add: isInitial_def)
  have "length (plaintext_of p []) \<le> 2048"
    using length_sack_take [of p] assms(8) by (simp add: length_plaintext_of)
  then have "fst (Encode x (Some n) c p) = Inr (wire_short c (SeqNum p) (n @ aead_seal x (sharedKey c) n
      (plaintext_of p [])))" (is "_ = Inr ?w")
    and e: "snd (Encode x (Some n) c p) = (p, c)"
    using s i assms(3) by (simp_all add: Encode_def seal_wire_def Let_def codec_wf_def)
  moreover have "flag_consistent x c p"
    using assms(10) by (auto simp: flag_consistent_def FlagSACK_def FlagCompressed_def)
  ultimately have "fst (Decode x d ?w) = Inr (wire_view p)"
    using decode_encode_fst [OF assms(1-6), of p ?w] i assms(7) by simp
  with \<open>fst (Encode x (Some n) c p) = Inr ?w\<close> e show ?thesis by (metis prod.collapse)
qed

lemma out_of_order_ack:
  assumes "aead_correct x" and "zstd_correct x" and "arq_wf x fl a" and "codec_wf x d"
    and "codec_peer (arq_codec a) d" and "length n = 24" and "recvNext a < SeqNum p"
    and "range_order order (AList.update (SeqNum p) p (recvBuf a))"
  shows "\<exists>a' w. handleDATA x (Some n) order p a = Some a' \<and> outbox a' = outbox a @ [w]
    \<and> recvBuf a' = AList.update (SeqNum p) p (recvBuf a) \<and> unackedRecv a' = 0
    \<and> (\<exists>ack. fst (Decode x d w) = Inr ack \<and> Type ack = PacketACK \<and> AckNum ack = recvNext a
          \<and> SACKBlocks ack = take 32 order)"
proof -
  let ?b = "a\<lparr>recvBuf := AList.update (SeqNum p) p (recvBuf a), delayedACKTimer := False, unackedRecv := 0\<rparr>"
  let ?ack = "\<lparr> Type = PacketACK, SeqNum = 0, AckNum = recvNext a, Flags = FlagSACK, Payload = [],
      SACKBlocks = take 32 order \<rparr>"
  have ne: "AList.update (SeqNum p) p (recvBuf a) \<noteq> []" by (cases "recvBuf a") auto
  have pk: "ack_packet order ?b = ?ack" using ne by (simp add: ack_packet_def)
  obtain w c' where w: "Encode x (Some n) (arq_codec a) ?ack = (Inr w, ?ack, c')"
    "fst (Decode x d w) = Inr (wire_view ?ack)" "c' = arq_codec a"
    using Decode_ack [OF assms(1,2) _ assms(4,5,6), of ?ack] assms(3)
    by (auto simp: arq_wf_def parts_wf_def)
  have "handleDATA x (Some n) order p a = sendACK x (Some n) order ?b"
  proof -
    have "SeqNum p \<noteq> recvNext a" using assms(7) by auto
    then show ?thesis using assms(7) by (simp add: handleDATA_alt accept_data_def flushACK_def Let_def)
  qed
  also have "\<dots> = Some (transmit w (?b\<lparr>arq_codec := c'\<rparr>))"
    using w(1) unfolding sendACK_def pk arq_encode_def by simp
  finally show ?thesis using w(2)
    by (auto simp: transmit_def wire_view_def FlagSACK_def)
qed

lemma HandlePacket_out_of_order:
  assumes "aead_correct x" and "zstd_correct x" and "rs_valid x" and "arq_wf x fl a"
    and "codec_wf x d" and "codec_peer (arq_codec a) d" and "length n = 24" and "\<not> arq_closed a"
    and "Type p = PacketDATA" and "recvNext a < SeqNum p"
    and "range_order order (AList.update (SeqNum p) p (recvBuf a))"
  shows "\<exists>a' w. HandlePacket x fl (Some n) clock order p a = Some a' \<and> outbox a' = outbox a @ [w]
    \<and> recvBuf a' = AList.update (SeqNum p) p (recvBuf a) \<and> unackedRecv a' = 0
    \<and> (\<exists>ack. fst (Decode x d w) = Inr ack \<and> Type ack = PacketACK \<and> AckNum ack = recvNext a
          \<and> SACKBlocks ack = take 32 order)"
proof -
  let ?a = "a\<lparr> totalPacketsRecv := totalPacketsRecv a + 1,
      totalBytesRecv := totalBytesRecv a + of_nat (length (Payload p)) \<rparr>"
  have wf: "arq_wf x fl ?a" by (rule count_packet_wf [OF assms(4)])
  have "\<exists>d' out. AddData x s pl e = Some (d', out) \<and> fd_wf d' \<and> fd_configCh d' = fd_configCh e"
    if "fd_wf e" for e s pl
    using AddData_wf [OF assms(3) that, of s pl] AddData_channel(1) by metis
  then obtain b where b: "fec_receive (AddData x (SeqNum p) (Payload p)) ?a = Some b" "arq_wf x fl b"
    using fec_receive_total [OF wf, of "AddData x (SeqNum p) (Payload p)"] by blast
  have f: "recvNext b = recvNext a" "recvBuf b = recvBuf a" "outbox b = outbox a"
    "arq_codec b = arq_codec a"
    using fec_receive_frame [OF b(1)] by (simp_all add: same_recv_def)
  have "HandlePacket x fl (Some n) clock order p a = handleDATA x (Some n) order p b"
    using assms(8,9) b(1) by (simp add: HandlePacket_def)
  then show ?thesis
    using out_of_order_ack [OF assms(1,2) b(2) assms(5), of n p order] assms(6,7,10,11) f by simp
qed

lemma overflow_handleDATA:
  assumes "arq_wf x fl a" and "\<not> arq_closed a" and "recvBuf a = []"
    and "length (delivered a) = deliverBufSize a" and "SeqNum p = recvNext a"
  shows "\<exists>a'. handleDATA x nonce order p a = Some a' \<and> delivered a' = delivered a
    \<and> recvNext a' = recvNext a + 1 \<and> recvBuf a' = []"
proof -
  have "drain (a\<lparr>recvNext := recvNext a + 1\<rparr>) = a\<lparr>recvNext := recvNext a + 1\<rparr>"
    by (subst drain.simps) (simp add: assms(3))
  moreover have "deliverPacket p a = a"
    using assms(2,4) by (simp add: deliverPacket_def)
  ultimately have "accept_data p a = a\<lparr>recvNext := recvNext a + 1\<rparr>"
    using assms(5) by (simp add: accept_data_def)
  moreover obtain a' where "handleDATA x nonce order p a = Some a'"
    using handleDATA_total [OF assms(1)] by blast
  ultimately show ?thesis
    using handleDATA_shape [of x nonce order p a a'] assms(3) by (simp add: same_recv_def)
qed

lemma closed_ack_panics:
  assumes "arq_closed a" and "unacked a = []" and "0 < packetsSent a"
    and "\<not> same_shape (GetAdjusted fl (fecConfig a) (GetLossRate fl a)) (fecConfig a)"
  shows "handleACK fl clock order p a = None"
proof -
  have "ack_cumulative fl clock order (AckNum p) a = a" unfolding ack_cumulative_def
    by (rule foldl_inv [where I = "\<lambda>b. b = a"]) (simp_all add: assms(2))
  moreover have "ack_selective fl clock (SACKBlocks p) a = a" unfolding ack_selective_def
    by (rule foldl_inv [where I = "\<lambda>b. b = a"]) (simp_all add: assms(2))
  moreover have "GetLossRate fl a
      = fl (fl (of_int (uint (packetsLost a))) / fl (of_int (uint (packetsSent a))))"
    using assms(3) by (simp add: GetLossRate_def)
  ultimately show ?thesis
    using assms by (simp add: handleACK_def adapt_fec_def reconfigure_fec_def Let_def)
qed

section \<open>Properties\<close>

text \<open>An engine for the witnesses, and its packets.\<close>

definition demo_engine :: "nat \<Rightarrow> ARQEngine" where
  "demo_engine n = NewARQEngine demo (\<lambda>r. r) 0 demo_codec n"

definition demo_data :: "u32 \<Rightarrow> Packet" where
  "demo_data s = \<lparr> Type = PacketDATA, SeqNum = s, AckNum = 0, Flags = 0, Payload = [ucast s],
     SACKBlocks = [] \<rparr>"

definition demo_inflight :: "u32 \<Rightarrow> inflight" where
  "demo_inflight s = \<lparr> inf_pkt = demo_data s, inf_encoded = [], sentAt = 0, retries = 0,
     inf_delivered = 0, inf_size = 0 \<rparr>"

lemma demo_rs_new [simp]: "rs_new demo 8 2"
  by (simp add: demo_def)

lemma demo_engine_wf [simp]: "arq_wf demo (\<lambda>r. r) (demo_engine n)"
  unfolding demo_engine_def by (rule NewARQEngine_wf) simp_all

lemma demo_engine_simps [simp]:
  "arq_closed (demo_engine n) = False" "recvBuf (demo_engine n) = []" "recvNext (demo_engine n) = 0"
  "unacked (demo_engine n) = []" "delivered (demo_engine n) = []" "deliverBufSize (demo_engine n) = n"
  "outbox (demo_engine n) = []" "arq_codec (demo_engine n) = demo_codec" "packetsLost (demo_engine n) = 0"
  "sendSeq (demo_engine n) = 0" "sendWindow (demo_engine n) = 256" "fecConfig (demo_engine n) = NewFECConfig"
  by (simp_all add: demo_engine_def NewARQEngine_def)

text \<open>C3. In-order delivery. Whatever DATA packets reach a receiver, in whatever order, however
  often, with whatever losses, and whenever the reader takes from the channel: what it has taken
  and what waits in the channel is a subsequence of what was sent, in order and without
  duplicates; the engine knows exactly the set of the numbers that arrived, and \<^verbatim>\<open>recvNext\<close> is
  the least number missing from it.\<close>

theorem arq_in_order_delivery:
  assumes "float_rounding fl" and "rs_valid x" and "rs_new x 8 2" and "codec_wf x c"
    and "list_all (arrival_ok P None) es"
    and "foldl (recv_step x fl) (NewARQEngine x fl now c n, []) es = (a, taken)"
  shows "subseq (taken @ map Payload (delivered a)) (map P [0..<unat (recvNext a)])
    \<and> received_set a = foldl set_step {} es
    \<and> unat (recvNext a) \<notin> foldl set_step {} es \<and> {..<unat (recvNext a)} \<subseteq> foldl set_step {} es"
proof -
  note start = new_engine_recv_inv(1) [OF assms(1-4), of P now n]
  have r: "received_set a = foldl set_step {} es"
    using receiving.sim_run [OF start assms(5)] assms(6)
      new_engine_recv_inv(3) [OF assms(1-4), of now n] by simp
  have "in_order P taken False a"
    using receiving.inv_run [OF start assms(5)] assms(6) by (simp add: recv_inv_def)
  with r show ?thesis using in_order_least [of P taken False a] by (simp add: in_order_def log_ok_def)
qed

theorem arq_in_order_delivery_witness:
  "case foldl (recv_step demo (\<lambda>r. r)) (demo_engine 8, [])
       [Arrive None (\<lambda>_. 0) [1] (demo_data 1), Arrive None (\<lambda>_. 0) [] (demo_data 0), Take] of
     (a, taken) \<Rightarrow> received_set a = {0, 1}
       \<and> subseq (taken @ map Payload (delivered a)) (map (\<lambda>i. [of_nat i]) [0..<unat (recvNext a)])"
proof -
  let ?es = "[Arrive None (\<lambda>_. 0) [1] (demo_data 1), Arrive None (\<lambda>_. 0) [] (demo_data 0), Take]"
  obtain a taken where r: "foldl (recv_step demo (\<lambda>r. r)) (demo_engine 8, []) ?es = (a, taken)"
    by fastforce
  have ok: "list_all (arrival_ok (\<lambda>i. [of_nat i]) None) ?es"
    by (simp add: arrival_ok_def demo_data_def)
  show ?thesis
    using arq_in_order_delivery [OF _ _ _ _ ok r [unfolded demo_engine_def]] unfolding r
    by (simp add: demo_data_def insert_commute)
qed

text \<open>Complete delivery. As long as no more packets are numbered than the delivery channel
  holds, delivery is exact: the reader has, in order, every payload up to the first missing
  one.\<close>

theorem arq_complete_delivery:
  assumes "float_rounding fl" and "rs_valid x" and "rs_new x 8 2" and "codec_wf x c"
    and "list_all (arrival_ok P (Some n)) es"
    and "foldl (recv_step x fl) (NewARQEngine x fl now c n, []) es = (a, taken)"
    and "{..<k} \<subseteq> foldl set_step {} es" and "k \<notin> foldl set_step {} es"
  shows "taken @ map Payload (delivered a) = map P [0..<k]"
proof -
  note start = new_engine_recv_inv(2) [OF assms(1-4), where n = n, of P now]
  have r: "received_set a = foldl set_step {} es"
    using receiving.sim_run [OF start assms(5)] assms(6)
      new_engine_recv_inv(3) [OF assms(1-4), of now n] by simp
  have i: "in_order P taken True a"
    using receiving.inv_run [OF start assms(5)] assms(6) by (simp add: recv_inv_def)
  have "unat (recvNext a) = k"
    using in_order_least [OF i] assms(7,8) unfolding r
    by (metis lessThan_iff linorder_neqE_nat subsetD)
  with i show ?thesis by (simp add: in_order_def log_ok_def)
qed

theorem arq_complete_delivery_witness:
  "case foldl (recv_step demo (\<lambda>r. r)) (demo_engine 8, [])
       [Arrive None (\<lambda>_. 0) [1] (demo_data 1), Arrive None (\<lambda>_. 0) [] (demo_data 0), Take] of
     (a, taken) \<Rightarrow> taken @ map Payload (delivered a) = [[0], [1]]"
proof -
  let ?es = "[Arrive None (\<lambda>_. 0) [1] (demo_data 1), Arrive None (\<lambda>_. 0) [] (demo_data 0), Take]"
  obtain a taken where r: "foldl (recv_step demo (\<lambda>r. r)) (demo_engine 8, []) ?es = (a, taken)"
    by fastforce
  have ok: "list_all (arrival_ok (\<lambda>i. [of_nat i]) (Some 8)) ?es"
    by (simp add: arrival_ok_def demo_data_def)
  have s: "{..<2} \<subseteq> foldl set_step {} ?es" "2 \<notin> foldl set_step {} ?es"
    by (auto simp: demo_data_def)
  show ?thesis
    using arq_complete_delivery [OF _ _ _ _ ok r [unfolded demo_engine_def] s] unfolding r
    by (simp add: upt_rec)
qed

text \<open>C19. The invariant of the engine over every interleaving of its operations, timers and
  goroutines, closing included: the congestion window stays between 16 and 2048 packets and the
  retransmission timeout between 10 ms and 5 s, no packet is kept after eight retransmissions,
  the delivery channel keeps to its capacity, fewer than 32 packets are unacknowledged and while
  there are any the delayed-acknowledgement timer runs; codec, pacer and both FEC ends keep
  their own invariants.\<close>

theorem arq_invariant:
  assumes "reachable (engine_start x fl) (engine_step x fl) a"
  shows "16 \<le> sendWindow a \<and> sendWindow a \<le> 2048 \<and> 10000000 \<le> rto a \<and> rto a \<le> 5000000000
    \<and> (\<forall>s i. map_of (unacked a) s = Some i \<longrightarrow> SeqNum (inf_pkt i) = s \<and> retries i \<le> 8)
    \<and> length (delivered a) \<le> deliverBufSize a
    \<and> 0 \<le> unackedRecv a \<and> unackedRecv a < 32
    \<and> (0 < unackedRecv a \<and> \<not> arq_closed a \<longrightarrow> delayedACKTimer a)
    \<and> parts_wf x fl a"
  using engine.reachable_inv [OF assms]
  by (auto simp: arq_wf_def sender_wf_def receiver_wf_def MaxWindowSize_def MinRTO_def MaxRTO_def
      MaxRetransmissions_def DelayedACKThreshold_def)

theorem arq_invariant_witness:
  "sendWindow (ARQ_Close (demo_engine 8)) \<le> 2048"
proof -
  have "reachable (engine_start demo (\<lambda>r. r)) (engine_step demo (\<lambda>r. r)) (demo_engine 8)"
    unfolding demo_engine_def
    by (rule reach_start) (use demo_codec_wf in \<open>auto simp: engine_start_def intro!: exI\<close>)
  then have "reachable (engine_start demo (\<lambda>r. r)) (engine_step demo (\<lambda>r. r)) (ARQ_Close (demo_engine 8))"
    by (rule reach_step) (rule step_close)
  from arq_invariant [OF this] show ?thesis by simp
qed

text \<open>An acknowledgement removes from the packets in flight exactly those below its
  cumulative number and those its SACK blocks name, and touches no other; each packet it
  acknowledges cumulatively is also counted as lost, whether or not it ever was (the loss rate
  that steers the FEC is therefore the rate of acknowledgement).\<close>

theorem arq_ack_removes:
  assumes "handleACK fl clock order p a = Some a'" and "range_order order (unacked a)"
  shows "amap_keys (unacked a') = {s \<in> amap_keys (unacked a). \<not> s < AckNum p
      \<and> \<not> (Flags p AND FlagSACK \<noteq> 0 \<and> s \<in> set (SACKBlocks p))}
    \<and> (\<forall>s\<in>amap_keys (unacked a'). map_of (unacked a') s = map_of (unacked a) s)
    \<and> packetsLost a' = packetsLost a + of_nat (card {s \<in> amap_keys (unacked a). s < AckNum p})"
  using handleACK_unacked [OF assms] by blast

theorem arq_ack_removes_witness:
  "\<exists>a'. handleACK (\<lambda>r. r) (\<lambda>_. 5) [0, 3] (demo_data 0\<lparr>AckNum := 1\<rparr>)
       ((demo_engine 8)\<lparr>unacked := [(0, demo_inflight 0), (3, demo_inflight 3)]\<rparr>) = Some a'
     \<and> amap_keys (unacked a') = {3} \<and> packetsLost a' = 1"
proof -
  let ?a = "(demo_engine 8)\<lparr>unacked := [(0, demo_inflight 0), (3, demo_inflight 3)]\<rparr>"
  have "arq_wf demo (\<lambda>r. r) ?a"
    using demo_engine_wf [of 8]
    by (auto simp: arq_wf_def parts_wf_def sender_wf_def receiver_wf_def amap_wf_def demo_inflight_def
        demo_data_def MaxRetransmissions_def)
  then obtain a' where a': "handleACK (\<lambda>r. r) (\<lambda>_. 5) [0, 3] (demo_data 0\<lparr>AckNum := 1\<rparr>) ?a = Some a'"
    using handleACK_total [of "\<lambda>r. r" demo ?a] by fastforce
  have s: "{s \<in> {0, 3 :: u32}. s < 1} = {0}" "{s \<in> {0, 3 :: u32}. \<not> s < 1} = {3}" by auto
  have "range_order [0, 3] (unacked ?a)" by (simp add: range_order_def amap_keys_def)
  from arq_ack_removes [OF a' this] show ?thesis
    using a' s by (simp add: amap_keys_def demo_data_def)
qed

text \<open>A packet that arrives beyond the next expected one is buffered and answered at once
  with an ACK that the sender's codec decodes: its number is the one missing, and its SACK blocks
  are (at most 32 of) the buffered packets, the new one among the buffered.\<close>

theorem arq_out_of_order_ack:
  assumes "aead_correct x" and "zstd_correct x" and "rs_valid x" and "arq_wf x fl a"
    and "codec_wf x d" and "codec_peer (arq_codec a) d" and "length n = 24" and "\<not> arq_closed a"
    and "Type p = PacketDATA" and "recvNext a < SeqNum p"
    and "range_order order (AList.update (SeqNum p) p (recvBuf a))"
  shows "\<exists>a' w ack. HandlePacket x fl (Some n) clock order p a = Some a' \<and> outbox a' = outbox a @ [w]
    \<and> map_of (recvBuf a') = (map_of (recvBuf a))(SeqNum p \<mapsto> p) \<and> unackedRecv a' = 0
    \<and> fst (Decode x d w) = Inr ack \<and> Type ack = PacketACK \<and> AckNum ack = recvNext a
    \<and> set (SACKBlocks ack) \<subseteq> amap_keys (recvBuf a') \<and> length (SACKBlocks ack) \<le> 32
    \<and> (length (recvBuf a') \<le> 32 \<longrightarrow> set (SACKBlocks ack) = amap_keys (recvBuf a'))"
proof -
  obtain a' w ack where h: "HandlePacket x fl (Some n) clock order p a = Some a'"
    "outbox a' = outbox a @ [w]" "recvBuf a' = AList.update (SeqNum p) p (recvBuf a)"
    "unackedRecv a' = 0" "fst (Decode x d w) = Inr ack" "Type ack = PacketACK"
    "AckNum ack = recvNext a" "SACKBlocks ack = take 32 order"
    using HandlePacket_out_of_order [OF assms] by blast
  have o: "distinct order" "set order = amap_keys (recvBuf a')"
    using assms(11) h(3) by (simp_all add: range_order_def)
  have "length order = card (amap_keys (recvBuf a'))" using o distinct_card by fastforce
  then have "length order \<le> length (recvBuf a')"
    by (metis amap_keys_def card_image_le card_length finite_set le_trans)
  then show ?thesis
    using h o set_take_subset [of 32 order] by (intro exI [of _ a'] exI [of _ w] exI [of _ ack])
      (auto simp: amap_simps)
qed

theorem arq_out_of_order_ack_witness:
  "\<exists>a' w ack. HandlePacket demo (\<lambda>r. r) (Some (replicate 24 0)) (\<lambda>_. 0) [2] (demo_data 2) (demo_engine 8) = Some a'
     \<and> outbox a' = [w] \<and> fst (Decode demo demo_codec w) = Inr ack \<and> AckNum ack = 0"
  using arq_out_of_order_ack [of demo "\<lambda>r. r" "demo_engine 8" demo_codec "replicate 24 0" "demo_data 2" "[2]" "\<lambda>_. 0"]
  by (simp add: demo_data_def range_order_def amap_keys_def) blast



text \<open>The wait for a free place in the window: it goes on for as long as the window is full
  and the engine open, however long that is; the 30-second limit the source announces has no
  effect.\<close>

theorem arq_send_blocks:
  assumes "list_all (\<lambda>(since, a). \<not> arq_closed a \<and> sendWindow a \<le> int (length (unacked a))) rounds"
  shows "Send_wait rounds = Waiting"
  using assms by (rule Send_wait_full)

theorem arq_send_blocks_witness:
  "Send_wait [(0, (demo_engine 8)\<lparr>sendWindow := 0\<rparr>), (31000000000, (demo_engine 8)\<lparr>sendWindow := 0\<rparr>)] = Waiting"
  by (rule arq_send_blocks) simp

text \<open>A \<^verbatim>\<open>Send\<close> whose encoding fails has used up its sequence number: nothing is in flight
  under it and nothing was sent, so the receiver will wait for a number that is never sent.\<close>

theorem arq_send_error_gap:
  assumes "Send_enqueue x nonce now pl a = (Inl e, a')"
  shows "sendSeq a' = sendSeq a + 1 \<and> unacked a' = unacked a \<and> outbox a' = outbox a"
  using assms by (rule Send_enqueue_error)

theorem arq_send_error_gap_witness:
  "\<exists>e a'. Send_enqueue demo None 0 [1] (demo_engine 8) = (Inl e, a') \<and> sendSeq a' = 1"
proof -
  obtain a' where "Send_enqueue demo None 0 [1] (demo_engine 8) = (Inl (Err (ErrEncode ErrNonce)), a')"
    by (simp add: Send_enqueue_def arq_encode_def Let_def Encode_off seal_wire_def length_plaintext_of
        sack_part_def) (use demo_codec_wf in \<open>simp add: codec_wf_def\<close>)
  with arq_send_error_gap [OF this] show ?thesis by auto
qed

text \<open>When the reader is behind and the delivery channel is full, the packet the receiver
  was waiting for is dropped and acknowledged all the same: the channel is unchanged and
  \<^verbatim>\<open>recvNext\<close> moves past it.\<close>

theorem arq_overflow_loses:
  assumes "arq_wf x fl a" and "\<not> arq_closed a" and "recvBuf a = []"
    and "length (delivered a) = deliverBufSize a" and "SeqNum p = recvNext a"
  shows "\<exists>a'. handleDATA x nonce order p a = Some a' \<and> delivered a' = delivered a
     \<and> recvNext a' = recvNext a + 1 \<and> recvBuf a' = []"
  using overflow_handleDATA [OF assms] .

theorem arq_overflow_loses_witness:
  "\<exists>a'. handleDATA demo None [] (demo_data 0) (demo_engine 0) = Some a' \<and> delivered a' = []
     \<and> recvNext a' = 1"
  using arq_overflow_loses [of demo "\<lambda>r. r" "demo_engine 0" "demo_data 0" None "[]"]
  by (auto simp: demo_data_def)

text \<open>\<^verbatim>\<open>HandlePacket\<close> looks at the closed flag before it takes the lock: an acknowledgement
  that passed that check just before \<^verbatim>\<open>Close\<close> panics (it sends on a channel \<^verbatim>\<open>Close\<close> has closed)
  if the loss rate asks for another FEC shape.\<close>

theorem arq_close_race:
  assumes "\<not> arq_closed a" and "0 < packetsSent a"
    and "\<not> same_shape (GetAdjusted fl (fecConfig a) (GetLossRate fl a)) (fecConfig a)"
  shows "handleACK fl clock order p (ARQ_Close a) = None"
proof (rule closed_ack_panics)
  have same: "fecConfig (ARQ_Close a) = fecConfig a" "GetLossRate fl (ARQ_Close a) = GetLossRate fl a"
    by (simp_all add: ARQ_Close_def GetLossRate_def)
  show "\<not> same_shape (GetAdjusted fl (fecConfig (ARQ_Close a)) (GetLossRate fl (ARQ_Close a)))
      (fecConfig (ARQ_Close a))"
    unfolding same by (rule assms(3))
qed (use assms in \<open>simp_all add: ARQ_Close_def\<close>)

theorem arq_close_race_witness:
  "handleACK (\<lambda>r. r) (\<lambda>_. 0) [] (demo_data 0) (ARQ_Close ((demo_engine 8)\<lparr>packetsSent := 1\<rparr>)) = None"
  by (rule arq_close_race)
     (simp_all add: GetLossRate_def GetAdjusted_def same_shape_def NewFECConfig_def)

end
