(* ===== verification/Conn.thy ===== *)
theory Conn
  imports Arq
begin

text \<open>
  A connection (\<^verbatim>\<open>pkg/mtp/conn.go\<close>): the byte stream of \<^verbatim>\<open>net.Conn\<close> over an engine. A socket is a
  number, an address its string; the datagrams written to sockets are appended to \<open>written\<close>.
  What the environment supplies to an operation (clock, nonces, whether a socket write
  succeeds, what a socket read gives, which ready case a \<^verbatim>\<open>select\<close> picks) is an argument.
  \<open>None\<close> is a panic, or, where said, a call that still waits.
\<close>

section \<open>State\<close>

record MTPConn =
  udpConn :: nat
  remoteAddr :: string
  arq :: ARQEngine \<comment> \<open>its codec is the codec of the connection\<close>
  readBuf :: bytes
  sessionID :: string
  isServer :: bool
  lastRecv :: int
  lastSend :: int
  BytesSent :: u64
  BytesRecv :: u64
  PacketsSent :: u64
  PacketsRecv :: u64
  conn_closed :: bool
  close_done :: bool \<comment> \<open>closeOnce has run\<close>
  readDeadline :: "int option" \<comment> \<open>None: none set, or the zero time\<close>
  writeDeadline :: "int option"
  recvCh :: "bytes list" \<comment> \<open>capacity 512\<close>
  workers :: bool
  written :: "(nat \<times> string \<times> bytes) list"
  closed_sockets :: "nat list"
  onClose_calls :: nat

datatype conn_error =
    ErrNetClosed | ErrWrite | ErrTimeout | ErrArq arq_error | ErrCodec codec_error
  | ErrRead | ErrHandshakeTimeout | ErrResolve | ErrDial | ErrMigrateTimeout

text \<open>What one call of an operation that sends is given: clock, nonces, the map order of an
  acknowledgement, whether the socket takes what is written.\<close>

record call_env =
  env_now :: int
  env_nonce :: "bytes option"
  env_clock :: "u32 \<Rightarrow> int"
  env_order :: "u32 list"
  env_parity_nonces :: "u8 \<Rightarrow> bytes option"
  env_polls :: "(int \<times> bool) list"
  env_write_ok :: bool

definition newMTPConn :: "externals \<Rightarrow> (rat \<Rightarrow> rat) \<Rightarrow> int \<Rightarrow> nat \<Rightarrow> string \<Rightarrow> string \<Rightarrow> bool
    \<Rightarrow> CompressionConfig option \<Rightarrow> MTPConn" where
  "newMTPConn x fl now sock addr secret server compression =
     (let codec = NewPacketCodecWithConfig x \<lparr> Secret = secret, EnableDCIDRot = True,
                    DCIDRotInterval = 300, Compression_cfg = compression \<rparr>
      in \<lparr> udpConn = sock, remoteAddr = addr, arq = NewARQEngine x fl now codec 4096,
           readBuf = [], sessionID = [], isServer = server, lastRecv = now, lastSend = now,
           BytesSent = 0, BytesRecv = 0, PacketsSent = 0, PacketsRecv = 0,
           conn_closed = False, close_done = False, readDeadline = None, writeDeadline = None,
           recvCh = [], workers = False, written = [], closed_sockets = [], onClose_calls = 0 \<rparr>)"

definition startWorkers :: "MTPConn \<Rightarrow> MTPConn" where
  "startWorkers c = c\<lparr>workers := True\<rparr>"

section \<open>Sending\<close>

definition sendRaw :: "bool \<Rightarrow> int \<Rightarrow> bytes \<Rightarrow> MTPConn \<Rightarrow> (conn_error + unit) \<times> MTPConn" where
  "sendRaw write_ok now data c =
     (if conn_closed c then (Inl ErrNetClosed, c)
      else if \<not> write_ok then (Inl ErrWrite, c)
      else (Inr (), c\<lparr> written := written c @ [(udpConn c, remoteAddr c, data)],
                       BytesSent := BytesSent c + of_nat (length data),
                       PacketsSent := PacketsSent c + 1, lastSend := now \<rparr>))"

text \<open>
  The engine's \<^verbatim>\<open>sendFunc\<close> is \<^verbatim>\<open>sendRaw\<close>: what an engine operation put into its outbox is
  written through it, in order.
\<close>

definition send_outbox :: "bool \<Rightarrow> int \<Rightarrow> MTPConn \<Rightarrow> MTPConn" where
  "send_outbox write_ok now c =
     foldl (\<lambda>c w. snd (sendRaw write_ok now w c)) (c\<lparr>arq := (arq c)\<lparr>outbox := []\<rparr>\<rparr>) (outbox (arq c))"

definition conn_control :: "externals \<Rightarrow> call_env \<Rightarrow> Packet \<Rightarrow> MTPConn
    \<Rightarrow> (arq_error failure + unit) \<times> MTPConn" where
  "conn_control x env pkt c =
     (case SendControl x (env_nonce env) (env_write_ok env \<and> \<not> conn_closed c) pkt (arq c) of
        (r, a) \<Rightarrow> (r, send_outbox (env_write_ok env) (env_now env) (c\<lparr>arq := a\<rparr>)))"

text \<open>
  \<^verbatim>\<open>arq.Send\<close> of one chunk. \<open>None\<close> while it waits: for a place in the window, which only the
  receiving side can make, or for the pacer.
\<close>

definition conn_send :: "externals \<Rightarrow> (rat \<Rightarrow> rat) \<Rightarrow> call_env \<Rightarrow> bytes \<Rightarrow> MTPConn
    \<Rightarrow> ((arq_error failure + unit) \<times> MTPConn) option" where
  "conn_send x fl env chunk c =
     (case Send_wait [(0, arq c)] of
        Waiting \<Rightarrow> None
      | Refused \<Rightarrow> Some (Inl (Err ErrEngineClosed), c)
      | Proceed \<Rightarrow>
          (case Send x fl (env_nonce env) (env_now env) (env_parity_nonces env) (env_polls env)
                  (env_write_ok env \<and> \<not> conn_closed c) chunk (arq c) of
             None \<Rightarrow> None
           | Some (r, a) \<Rightarrow> Some (r, send_outbox (env_write_ok env) (env_now env) (c\<lparr>arq := a\<rparr>))))"

section \<open>Closing\<close>

definition control_packet :: "u8 \<Rightarrow> u32 \<Rightarrow> u32 \<Rightarrow> bytes \<Rightarrow> Packet" where
  "control_packet t seq ackn payload =
     \<lparr> Type = t, SeqNum = seq, AckNum = ackn, Flags = 0, Payload = payload, SACKBlocks = [] \<rparr>"

definition Conn_Close :: "externals \<Rightarrow> call_env \<Rightarrow> MTPConn \<Rightarrow> MTPConn" where
  "Conn_Close x env c =
     (if close_done c then c
      else let c = snd (conn_control x env (control_packet PacketFIN 0 0 []) c);
               c = c\<lparr> conn_closed := True, arq := ARQ_Close (arq c) \<rparr>;
               c = c\<lparr> arq := (arq c)\<lparr>arq_codec := Codec_Close (arq_codec (arq c))\<rparr> \<rparr>;
               c = (if isServer c then c
                    else c\<lparr>closed_sockets := closed_sockets c @ [udpConn c]\<rparr>)
           in c\<lparr> close_done := True, onClose_calls := onClose_calls c + 1 \<rparr>)"

section \<open>Receiving\<close>

definition DispatchPacket :: "bytes \<Rightarrow> MTPConn \<Rightarrow> MTPConn" where
  "DispatchPacket data c =
     (if conn_closed c then c
      else if length (recvCh c) < 512 then c\<lparr>recvCh := recvCh c @ [data]\<rparr> else c)"

text \<open>What \<^verbatim>\<open>processIncoming\<close> does with a decoded packet. There is no case for \<^verbatim>\<open>PacketFEC\<close>.\<close>

definition handle_decoded :: "externals \<Rightarrow> (rat \<Rightarrow> rat) \<Rightarrow> call_env \<Rightarrow> Packet \<Rightarrow> MTPConn
    \<Rightarrow> MTPConn option" where
  "handle_decoded x fl env pkt c =
     (let reply = (\<lambda>p c. snd (conn_control x env p c))
      in if Type pkt = PacketDATA \<or> Type pkt = PacketACK
         then (case HandlePacket x fl (env_nonce env) (env_clock env) (env_order env) pkt (arq c) of
                 None \<Rightarrow> None
               | Some a \<Rightarrow> Some (send_outbox (env_write_ok env) (env_now env) (c\<lparr>arq := a\<rparr>)))
         else if Type pkt = PacketPING
         then Some (reply (control_packet PacketPONG (SeqNum pkt) 0 []) c)
         else if Type pkt = PacketPONG then Some c
         else if Type pkt = PacketSYN
         then Some (if isServer c
                    then reply (control_packet PacketSYNACK 0 1 (bytes_of_string (sessionID c))) c
                    else c)
         else if Type pkt = PacketFIN
         then Some (Conn_Close x env (reply (control_packet PacketFINACK 0 (SeqNum pkt) []) c))
         else if Type pkt = PacketFINACK then Some (Conn_Close x env c)
         else Some c)"

definition processIncoming :: "externals \<Rightarrow> (rat \<Rightarrow> rat) \<Rightarrow> call_env \<Rightarrow> bytes \<Rightarrow> MTPConn
    \<Rightarrow> MTPConn option" where
  "processIncoming x fl env raw c =
     (let c = c\<lparr> BytesRecv := BytesRecv c + of_nat (length raw), PacketsRecv := PacketsRecv c + 1,
                 lastRecv := env_now env \<rparr>
      in case Decode x (arq_codec (arq c)) raw of
           (Inl Panic, _) \<Rightarrow> None
         | (Inl (Err e), k) \<Rightarrow> Some (c\<lparr>arq := (arq c)\<lparr>arq_codec := k\<rparr>\<rparr>)
         | (Inr pkt, k) \<Rightarrow> handle_decoded x fl env pkt (c\<lparr>arq := (arq c)\<lparr>arq_codec := k\<rparr>\<rparr>))"

text \<open>One round of \<^verbatim>\<open>recvLoop\<close> (server), and one batch of \<^verbatim>\<open>recvLoopDirect\<close> (client; the batch is
  what the reads of the round gave, at most 32 datagrams).\<close>

definition recvLoop_round :: "externals \<Rightarrow> (rat \<Rightarrow> rat) \<Rightarrow> call_env \<Rightarrow> MTPConn \<Rightarrow> MTPConn option" where
  "recvLoop_round x fl env c =
     (case recvCh c of
        [] \<Rightarrow> Some c
      | raw # ch \<Rightarrow> processIncoming x fl env raw (c\<lparr>recvCh := ch\<rparr>))"

definition recvLoopDirect_round ::
  "externals \<Rightarrow> (rat \<Rightarrow> rat) \<Rightarrow> (call_env \<times> bytes) list \<Rightarrow> MTPConn \<Rightarrow> MTPConn option" where
  "recvLoopDirect_round x fl batch c =
     (if conn_closed c then Some c
      else fold_opt (\<lambda>(env, raw). processIncoming x fl env raw) (take 32 batch) c)"

text \<open>One tick of \<^verbatim>\<open>keepaliveLoop\<close>; \<open>millis\<close> is \<^verbatim>\<open>time.Now().UnixMilli()\<close>.\<close>

definition keepalive_tick :: "externals \<Rightarrow> call_env \<Rightarrow> int \<Rightarrow> MTPConn \<Rightarrow> MTPConn" where
  "keepalive_tick x env millis c =
     (if conn_closed c then c
      else if 60000000000 < env_now env - lastRecv c then Conn_Close x env c
      else snd (conn_control x env (control_packet PacketPING (of_int millis) 0 []) c))"

section \<open>Reading and writing\<close>

definition copyPayload :: "nat \<Rightarrow> bytes \<Rightarrow> MTPConn \<Rightarrow> bytes \<times> MTPConn" where
  "copyPayload len payload c =
     (let n = min len (length payload)
      in (take n payload,
          if n < length payload then c\<lparr>readBuf := readBuf c @ drop n payload\<rparr> else c))"

text \<open>Which ready case of its \<^verbatim>\<open>select\<close> a blocked \<^verbatim>\<open>Read\<close> takes.\<close>

datatype read_choice = PickData | PickClosed | PickTimer

text \<open>
  \<^verbatim>\<open>Read(b)\<close> with \<open>len = len(b)\<close>. \<open>Read_enter\<close> is the part before the \<^verbatim>\<open>select\<close>, \<open>None\<close> when the call
  goes on to it; \<open>Read_wait\<close> is the chosen case of the \<^verbatim>\<open>select\<close>, in the state of that moment, \<open>None\<close>
  when the case is not ready. \<open>dl\<close> is the deadline the call found.
\<close>

definition Read_enter :: "nat \<Rightarrow> int \<Rightarrow> MTPConn \<Rightarrow> ((conn_error + bytes) \<times> MTPConn) option" where
  "Read_enter len now c =
     (if conn_closed c then Some (Inl ErrNetClosed, c)
      else if readBuf c \<noteq> []
      then Some (Inr (take len (readBuf c)), c\<lparr>readBuf := drop len (readBuf c)\<rparr>)
      else if (case readDeadline c of Some dl \<Rightarrow> dl \<le> now | None \<Rightarrow> False)
      then Some (Inl ErrTimeout, c)
      else None)"

definition Read_wait :: "nat \<Rightarrow> int option \<Rightarrow> read_choice \<Rightarrow> MTPConn
    \<Rightarrow> ((conn_error + bytes) \<times> MTPConn) option" where
  "Read_wait len dl choice c =
     (case choice of
        PickData \<Rightarrow>
          (case take_delivered (arq c) of
             (None, _) \<Rightarrow> None
           | (Some None, _) \<Rightarrow> Some (Inl ErrNetClosed, c)
           | (Some (Some pkt), a) \<Rightarrow>
               (case copyPayload len (Payload pkt) (c\<lparr>arq := a\<rparr>) of (bs, c) \<Rightarrow> Some (Inr bs, c)))
      | PickClosed \<Rightarrow> if conn_closed c then Some (Inl ErrNetClosed, c) else None
      | PickTimer \<Rightarrow> if dl = None then None else Some (Inl ErrTimeout, c))"

definition Read :: "nat \<Rightarrow> int \<Rightarrow> read_choice \<Rightarrow> MTPConn \<Rightarrow> ((conn_error + bytes) \<times> MTPConn) option" where
  "Read len now choice c =
     (case Read_enter len now c of
        Some r \<Rightarrow> Some r
      | None \<Rightarrow> Read_wait len (readDeadline c) choice c)"

text \<open>The segmentation loop of \<^verbatim>\<open>Write\<close>; \<open>envs\<close> serves its sends in turn.\<close>

function write_loop :: "externals \<Rightarrow> (rat \<Rightarrow> rat) \<Rightarrow> (nat \<Rightarrow> call_env) \<Rightarrow> nat \<Rightarrow> bytes \<Rightarrow> nat \<Rightarrow> MTPConn
    \<Rightarrow> (nat \<times> conn_error failure option \<times> MTPConn) option" where
  "write_loop x fl envs k remaining totalSent c =
     (if remaining = [] then Some (totalSent, None, c)
      else if conn_closed c then Some (totalSent, Some (Err ErrNetClosed), c)
      else let chunkSize = min (length remaining) MaxPayloadSize
           in case conn_send x fl (envs k) (take chunkSize remaining) c of
                None \<Rightarrow> None
              | Some (Inl (Err e), c) \<Rightarrow> Some (totalSent, Some (Err (ErrArq e)), c)
              | Some (Inl Panic, c) \<Rightarrow> Some (totalSent, Some Panic, c)
              | Some (Inr _, c) \<Rightarrow>
                  write_loop x fl envs (k + 1) (drop chunkSize remaining) (totalSent + chunkSize) c)"
  by pat_completeness auto
termination
  by (relation "measure (\<lambda>(x, fl, envs, k, remaining, totalSent, c). length remaining)")
     (auto simp: MaxPayloadSize_def)

declare write_loop.simps [simp del]

definition Write :: "externals \<Rightarrow> (rat \<Rightarrow> rat) \<Rightarrow> (nat \<Rightarrow> call_env) \<Rightarrow> int \<Rightarrow> bytes \<Rightarrow> MTPConn
    \<Rightarrow> (nat \<times> conn_error failure option \<times> MTPConn) option" where
  "Write x fl envs now b c =
     (if conn_closed c then Some (0, Some (Err ErrNetClosed), c)
      else if (case writeDeadline c of Some dl \<Rightarrow> dl < now | None \<Rightarrow> False)
      then Some (0, Some (Err ErrTimeout), c)
      else write_loop x fl envs 0 b 0 c)"

definition SetReadDeadline :: "int option \<Rightarrow> MTPConn \<Rightarrow> MTPConn" where
  "SetReadDeadline t c = c\<lparr>readDeadline := t\<rparr>"

definition SetWriteDeadline :: "int option \<Rightarrow> MTPConn \<Rightarrow> MTPConn" where
  "SetWriteDeadline t c = c\<lparr>writeDeadline := t\<rparr>"

definition SetDeadline :: "int option \<Rightarrow> MTPConn \<Rightarrow> MTPConn" where
  "SetDeadline t c = c\<lparr>readDeadline := t, writeDeadline := t\<rparr>"

section \<open>Handshake and migration\<close>

text \<open>What a socket read with a two-second deadline gives.\<close>

datatype net_read = NetTimeout | NetFailure | NetData bytes

record attempt =
  at_now :: int
  at_write_ok :: bool
  at_response :: net_read

fun handshake_loop :: "externals \<Rightarrow> bytes \<Rightarrow> attempt list \<Rightarrow> MTPConn
    \<Rightarrow> (conn_error failure + unit) \<times> MTPConn" where
  "handshake_loop x encoded [] c = (Inl (Err ErrHandshakeTimeout), c)"
| "handshake_loop x encoded (att # atts) c =
     (case sendRaw (at_write_ok att) (at_now att) encoded c of
        (Inl e, c) \<Rightarrow> (Inl (Err e), c)
      | (Inr _, c) \<Rightarrow>
          (case at_response att of
             NetTimeout \<Rightarrow> handshake_loop x encoded atts c
           | NetFailure \<Rightarrow> (Inl (Err ErrRead), c)
           | NetData raw \<Rightarrow>
               (case Decode x (arq_codec (arq c)) raw of
                  (Inl Panic, _) \<Rightarrow> (Inl Panic, c)
                | (Inl (Err e), k) \<Rightarrow>
                    handshake_loop x encoded atts (c\<lparr>arq := (arq c)\<lparr>arq_codec := k\<rparr>\<rparr>)
                | (Inr pkt, k) \<Rightarrow>
                    let c = c\<lparr>arq := (arq c)\<lparr>arq_codec := k\<rparr>\<rparr>
                    in if Type pkt = PacketSYNACK
                       then (Inr (), c\<lparr>sessionID := string_of_bytes (Payload pkt)\<rparr>)
                       else handshake_loop x encoded atts c)))"

definition handshakeClient :: "externals \<Rightarrow> bytes option \<Rightarrow> string \<Rightarrow> attempt list \<Rightarrow> MTPConn
    \<Rightarrow> (conn_error failure + unit) \<times> MTPConn" where
  "handshakeClient x nonce uuid attempts c =
     (case arq_encode x nonce
             (control_packet PacketSYN 0 0 (bytes_of_string (''AUTH:'' @ uuid))) (arq c) of
        (Inl (Err e), _, a) \<Rightarrow> (Inl (Err (ErrCodec e)), c\<lparr>arq := a\<rparr>)
      | (Inl Panic, _, a) \<Rightarrow> (Inl Panic, c\<lparr>arq := a\<rparr>)
      | (Inr encoded, _, a) \<Rightarrow> handshake_loop x encoded (take 5 attempts) (c\<lparr>arq := a\<rparr>))"

text \<open>
  \<open>resolved\<close> and \<open>dialled\<close>: the address the resolver gives, the socket the dialler opens. The
  connection a call made is returned beside its result: after a failed handshake the caller does
  not get it, but its engine and its codec still run.
\<close>

definition DialWithConfig :: "externals \<Rightarrow> (rat \<Rightarrow> rat) \<Rightarrow> int \<Rightarrow> string option \<Rightarrow> nat option \<Rightarrow> bytes option
    \<Rightarrow> attempt list \<Rightarrow> string \<Rightarrow> CompressionConfig option
    \<Rightarrow> (conn_error failure + unit) \<times> MTPConn option" where
  "DialWithConfig x fl now resolved dialled nonce attempts secret compression =
     (case resolved of
        None \<Rightarrow> (Inl (Err ErrResolve), None)
      | Some addr \<Rightarrow>
          (case dialled of
             None \<Rightarrow> (Inl (Err ErrDial), None)
           | Some sock \<Rightarrow>
               (case handshakeClient x nonce secret attempts
                       (newMTPConn x fl now sock addr secret False compression) of
                  (Inl Panic, c) \<Rightarrow> (Inl Panic, Some c)
                | (Inl (Err e), c) \<Rightarrow>
                    (Inl (Err e), Some (c\<lparr>closed_sockets := closed_sockets c @ [udpConn c]\<rparr>))
                | (Inr _, c) \<Rightarrow> (Inr (), Some (startWorkers c)))))"

fun migrate_loop :: "externals \<Rightarrow> attempt list \<Rightarrow> MTPConn
    \<Rightarrow> (conn_error failure + unit) \<times> MTPConn" where
  "migrate_loop x [] c = (Inl (Err ErrMigrateTimeout), c)"
| "migrate_loop x (att # atts) c =
     (if \<not> at_write_ok att then (Inl (Err ErrWrite), c)
      else case at_response att of
             NetTimeout \<Rightarrow> migrate_loop x atts c
           | NetFailure \<Rightarrow> (Inl (Err ErrRead), c)
           | NetData raw \<Rightarrow>
               (case Decode x (arq_codec (arq c)) raw of
                  (Inl Panic, _) \<Rightarrow> (Inl Panic, c)
                | (Inl (Err e), k) \<Rightarrow> migrate_loop x atts (c\<lparr>arq := (arq c)\<lparr>arq_codec := k\<rparr>\<rparr>)
                | (Inr pkt, k) \<Rightarrow>
                    let c = c\<lparr>arq := (arq c)\<lparr>arq_codec := k\<rparr>\<rparr>
                    in if Type pkt = PacketSYNACK then (Inr (), c) else migrate_loop x atts c))"

text \<open>The datagram of the migration request is written to the new socket, five times at most;
  the new socket is closed on every failure, the old one on success.\<close>

definition Migrate :: "externals \<Rightarrow> bytes option \<Rightarrow> string option \<Rightarrow> nat option \<Rightarrow> attempt list
    \<Rightarrow> MTPConn \<Rightarrow> (conn_error failure + unit) \<times> MTPConn" where
  "Migrate x nonce resolved dialled attempts c =
     (case resolved of
        None \<Rightarrow> (Inl (Err ErrResolve), c)
      | Some addr \<Rightarrow>
          (case dialled of
             None \<Rightarrow> (Inl (Err ErrDial), c)
           | Some sock \<Rightarrow>
               let syn = (control_packet PacketSYN 0 0 (bytes_of_string (''MIGRATE:'' @ sessionID c)))
                           \<lparr>Flags := FlagMigrate\<rparr>;
                   drop_new = (\<lambda>c. c\<lparr>closed_sockets := closed_sockets c @ [sock]\<rparr>)
               in case arq_encode x nonce syn (arq c) of
                    (Inl (Err e), _, a) \<Rightarrow> (Inl (Err (ErrCodec e)), drop_new (c\<lparr>arq := a\<rparr>))
                  | (Inl Panic, _, a) \<Rightarrow> (Inl Panic, c\<lparr>arq := a\<rparr>)
                  | (Inr encoded, _, a) \<Rightarrow>
                      (case migrate_loop x (take 5 attempts) (c\<lparr>arq := a\<rparr>) of
                         (Inl e, c) \<Rightarrow> (Inl e, if e = Panic then c else drop_new c)
                       | (Inr _, c) \<Rightarrow>
                           (Inr (), c\<lparr> remoteAddr := addr, udpConn := sock,
                                       closed_sockets := closed_sockets c @ [udpConn c] \<rparr>))))"

section \<open>Lemmas\<close>

subsection \<open>What a datagram is to the other end\<close>

text \<open>Every codec that is a well-formed peer of \<open>k\<close> reads the datagram as DATA packet \<open>s\<close> with the
  payload \<open>pl\<close>, respectively as a parity packet.\<close>

definition data_frame :: "externals \<Rightarrow> PacketCodec \<Rightarrow> u32 \<Rightarrow> bytes \<Rightarrow> bytes \<Rightarrow> bool" where
  "data_frame x k s pl w \<longleftrightarrow> (\<forall>d. codec_wf x d \<and> codec_peer k d \<longrightarrow>
     (\<exists>p. fst (Decode x d w) = Inr p \<and> Type p = PacketDATA \<and> SeqNum p = s \<and> Payload p = pl))"

definition parity_frame :: "externals \<Rightarrow> PacketCodec \<Rightarrow> bytes \<Rightarrow> bool" where
  "parity_frame x k w \<longleftrightarrow> (\<forall>d. codec_wf x d \<and> codec_peer k d \<longrightarrow>
     (\<exists>p. fst (Decode x d w) = Inr p \<and> Type p = PacketFEC))"

definition fec_ready :: "FecEncoder \<Rightarrow> bool" where
  "fec_ready e \<longleftrightarrow> fe_wf e \<and> ParityShards (fe_config e) \<le> 8
     \<and> (0 < dataCount e \<longrightarrow> (\<forall>s\<in>set (fe_shards e). length s = FECMaxPayload))"

text \<open>A sender whose codec reaches every peer of \<open>k\<close>.\<close>

definition sender_ready :: "externals \<Rightarrow> PacketCodec \<Rightarrow> ARQEngine \<Rightarrow> bool" where
  "sender_ready x k a \<longleftrightarrow> codec_wf x (arq_codec a) \<and> (\<forall>d. codec_peer k d \<longrightarrow> codec_peer (arq_codec a) d)
     \<and> (case fecEnc a of None \<Rightarrow> False | Some e \<Rightarrow> fec_ready e)"

text \<open>Nonces as \<^verbatim>\<open>crypto/rand\<close> fills them.\<close>

definition nonces_ok :: "call_env \<Rightarrow> bool" where
  "nonces_ok env \<longleftrightarrow> (\<forall>n. env_nonce env = Some n \<longrightarrow> length n = 24)
     \<and> (\<forall>i n. env_parity_nonces env i = Some n \<longrightarrow> length n = 24)"

lemma encode_reaches:
  assumes "aead_correct x" "zstd_correct x" "sender_ready x k a"
    and "\<And>n. nonce = Some n \<Longrightarrow> length n = 24"
    and "Flags p AND FlagCompressed = 0" "length (Payload p) < 2 ^ 32" "\<not> isInitial p"
    and "arq_encode x nonce p a = (r, p', a')"
  shows "sender_ready x k a'"
    and "r = Inr w \<Longrightarrow> codec_wf x d \<Longrightarrow> codec_peer k d \<Longrightarrow> fst (Decode x d w) = Inr (wire_view p)"
proof -
  obtain c' where c': "Encode x nonce (arq_codec a) p = (r, p', c')" "a' = a\<lparr>arq_codec := c'\<rparr>"
    using arq_encode_cases [OF assms(8)] .
  have "codec_wf x c'" using Encode_wf [of x "arq_codec a" nonce p] assms(3) c'(1)
    by (simp add: sender_ready_def)
  moreover have "codec_peer k d \<Longrightarrow> codec_peer c' d" for d
    using Encode_peer [of "arq_codec a" d x nonce p] assms(3) c'(1) by (simp add: sender_ready_def)
  ultimately show "sender_ready x k a'" using assms(3) c'(2) by (simp add: sender_ready_def)
  assume r: "r = Inr w" and d: "codec_wf x d" "codec_peer k d"
  obtain n where n: "nonce = Some n"
    using c'(1) r by (cases rule: EncodeD) (auto elim: seal_wireD)
  show "fst (Decode x d w) = Inr (wire_view p)"
    by (rule decode_encode_fst [of x "arq_codec a" d n p w])
       (use assms d n r c' in \<open>auto simp: sender_ready_def intro: flag_consistent_fresh\<close>)
qed

lemma flags_below_8:
  assumes "unat (f :: u8) < 8"
  shows "f AND FlagCompressed = 0"
proof -
  consider "unat f = 0" | "unat f = 1" | "unat f = 2" | "unat f = 3" | "unat f = 4" | "unat f = 5"
    | "unat f = 6" | "unat f = 7" using assms by linarith
  moreover have "f = of_nat (unat f)" by simp
  ultimately show ?thesis
    by cases (erule ssubst, simp add: FlagCompressed_def)+
qed

lemma wire_view_fields [simp]: "Type (wire_view p) = Type p" "SeqNum (wire_view p) = SeqNum p"
    "Payload (wire_view p) = Payload p"
  by (simp_all add: wire_view_def)

lemma send_parity_frames:
  assumes "aead_correct x" "zstd_correct x" "sender_ready x k a"
    and "\<And>n. nonces i = Some n \<Longrightarrow> length n = 24"
    and "unat i < 8" "length pl < 2 ^ 32"
    and "send_parity x nonces (s, i, pl) a = Some a'"
  shows "sender_ready x k a' \<and> same_recv a a' \<and> sendSeq a' = sendSeq a \<and> pacer a' = pacer a
    \<and> (\<exists>ws. outbox a' = outbox a @ ws \<and> list_all (parity_frame x k) ws)"
proof -
  let ?p = "\<lparr> Type = PacketFEC, SeqNum = s, AckNum = recvNext a, Flags = i, Payload = pl,
    SACKBlocks = [] \<rparr>"
  obtain r p' a1 where e: "arq_encode x (nonces i) ?p a = (r, p', a1)" by (metis prod_cases3)
  have ok: "Flags ?p AND FlagCompressed = 0" "length (Payload ?p) < 2 ^ 32" "\<not> isInitial ?p"
    using assms(5,6) by (simp_all add: flags_below_8 isInitial_def)
  note reach = encode_reaches [OF assms(1-4) ok e]
  obtain c' where "a1 = a\<lparr>arq_codec := c'\<rparr>" using arq_encode_cases [OF e] .
  then have f: "same_recv a a1" "sendSeq a1 = sendSeq a" "outbox a1 = outbox a" "pacer a1 = pacer a"
    by (simp_all add: same_recv_def)
  show ?thesis
  proof (cases r)
    case (Inl g)
    then show ?thesis using assms(7) e f reach(1) assms(4)
      by (cases g) (auto simp: send_parity_def)
  next
    case (Inr w)
    have "parity_frame x k w" using reach(2) assms(4) Inr by (auto simp: parity_frame_def)
    then show ?thesis using assms(7) e f reach(1) Inr assms(4)
      by (auto simp: send_parity_def transmit_def sender_ready_def same_recv_def)
  qed
qed

text \<open>What the FEC encoder hands out: at most eight parity shards, each of 1200 bytes.\<close>

definition parity_ok :: "u32 \<times> u8 \<times> bytes \<Rightarrow> bool" where
  "parity_ok q \<longleftrightarrow> (case q of (s, idx, pl) \<Rightarrow> unat idx < 8 \<and> length pl = FECMaxPayload)"

lemma parity_fold_frames:
  assumes "aead_correct x" "zstd_correct x" "sender_ready x k a"
    and "\<And>i n. nonces i = Some n \<Longrightarrow> length n = 24"
    and "list_all parity_ok ps"
    and "fold_opt (send_parity x nonces) ps a = Some a'"
  shows "sender_ready x k a' \<and> same_recv a a' \<and> sendSeq a' = sendSeq a \<and> pacer a' = pacer a
    \<and> (\<exists>ws. outbox a' = outbox a @ ws \<and> list_all (parity_frame x k) ws)"
  using assms(3,5,6)
proof (induction ps arbitrary: a)
  case Nil
  then show ?case by (auto simp: same_recv_def)
next
  case (Cons q ps)
  obtain s i pl where q: "q = (s, i, pl)" "unat i < 8" "length pl < 2 ^ 32"
    using Cons.prems(2) by (cases q) (auto simp: parity_ok_def FECMaxPayload_def)
  obtain b where b: "send_parity x nonces q a = Some b" "fold_opt (send_parity x nonces) ps b = Some a'"
    using Cons.prems(3) by (auto split: option.splits)
  have 1: "sender_ready x k b \<and> same_recv a b \<and> sendSeq b = sendSeq a \<and> pacer b = pacer a
      \<and> (\<exists>ws. outbox b = outbox a @ ws \<and> list_all (parity_frame x k) ws)"
    by (rule send_parity_frames [OF assms(1,2) Cons.prems(1) _ q(2,3)]) (use assms(4) b(1) q(1) in auto)
  moreover from 1 have "sender_ready x k a' \<and> same_recv b a' \<and> sendSeq a' = sendSeq b \<and> pacer a' = pacer b
      \<and> (\<exists>ws. outbox a' = outbox b @ ws \<and> list_all (parity_frame x k) ws)"
    using Cons.IH [of b] Cons.prems(2) b(2) by simp
  ultimately show ?case by (fastforce simp: same_recv_def)
qed

lemma flushLocked_parity:
  assumes "rs_valid x" "rs_sizes x" "0 < DataShards (fe_config f)" "ParityShards (fe_config f) \<le> 8"
    and "0 \<le> ParityShards (fe_config f)"
    and "fe_encoder f = (DataShards (fe_config f), ParityShards (fe_config f))"
    and "\<forall>s\<in>set (fe_shards f). length s = FECMaxPayload"
    and "flushLocked x f = Some (f', out)"
  shows "list_all parity_ok out"
proof (cases "out = []")
  case False
  let ?d = "nat (DataShards (fe_config f))" and ?p = "nat (ParityShards (fe_config f))"
  obtain s where s: "rs_encode x (fe_encoder f) (fe_shards f) = Some s"
    "out = map (\<lambda>i. (fe_startSeq f, of_nat i, s ! (?d + i))) [0..<?p]"
    using assms(8) False by (auto simp: flushLocked_def Let_def split: if_splits option.splits)
  then obtain par where par: "rs_parity x ?d ?p (take ?d (fe_shards f)) = Some par"
    "s = take ?d (fe_shards f) @ par" "length (fe_shards f) = ?d + ?p"
    using assms(6) by (auto simp: rs_encode_def Let_def split: if_splits option.splits)
  have "length par = ?p" using assms(1) par(1) by (simp add: rs_valid_def)
  moreover have "take ?d (fe_shards f) \<noteq> []" using par(3) assms(3) by auto
  then have "\<forall>b\<in>set par. length b = FECMaxPayload"
    using assms(2,7) par(1) in_set_takeD unfolding rs_sizes_def by metis
  ultimately show ?thesis using s(2) par assms(4)
    by (auto simp: list_all_iff parity_ok_def nth_append unat_of_nat_small)
qed simp

lemma AddDataPacket_parity:
  assumes "rs_valid x" "rs_sizes x" "fec_ready f"
    and "AddDataPacket x seq pl f = Some (f', out)"
  shows "fec_ready f' \<and> list_all parity_ok out"
proof -
  have wf: "fe_wf f" "ParityShards (fe_config f) \<le> 8" using assms(3) by (simp_all add: fec_ready_def)
  define f1 where "f1 = (if dataCount f = 0 then f\<lparr> fe_startSeq := seq,
      fe_shards := replicate (nat (DataShards (fe_config f) + ParityShards (fe_config f)))
        (replicate FECMaxPayload 0), flushTimer := True \<rparr> else f)"
  have f1: "fe_config f1 = fe_config f" "fe_encoder f1 = fe_encoder f"
    "\<forall>s\<in>set (fe_shards f1). length s = FECMaxPayload"
    using assms(3) by (auto simp: f1_def fec_ready_def)
  define f2 where "f2 = f1\<lparr> fe_shards := (fe_shards f1)[dataCount f1 :=
      fill_shard (fe_shards f1 ! dataCount f1) pl], dataCount := dataCount f1 + 1 \<rparr>"
  have e: "dataCount f1 < length (fe_shards f1)"
    "(if DataShards (fe_config f2) \<le> int (dataCount f2) then flushLocked x f2 else Some (f2, []))
       = Some (f', out)"
    using assms(4) unfolding AddDataPacket_def Let_def f1_def [symmetric] f2_def
    by (auto split: if_splits)
  have "length (fill_shard (fe_shards f1 ! dataCount f1) pl) = FECMaxPayload"
    using f1(3) e(1) by (simp add: FECMaxPayload_def)
  then have f2: "fe_config f2 = fe_config f" "fe_encoder f2 = fe_encoder f"
    "\<forall>s\<in>set (fe_shards f2). length s = FECMaxPayload"
    using f1 by (auto simp: f2_def dest!: set_update_subset_insert [THEN subsetD])
  have w: "fe_wf f'" using AddDataPacket_wf [OF assms(1) wf(1), of seq pl] assms(4) by auto
  show ?thesis
  proof (cases "DataShards (fe_config f2) \<le> int (dataCount f2)")
    case True
    then have fl: "flushLocked x f2 = Some (f', out)" using e(2) by simp
    have "list_all parity_ok out"
      by (rule flushLocked_parity [OF assms(1,2) _ _ _ _ f2(3) fl])
         (use wf f2 in \<open>auto simp: fe_wf_def\<close>)
    moreover have "fe_config f' = fe_config f2 \<and> dataCount f' = 0"
      using fl by (auto simp: flushLocked_def Let_def split: if_splits option.splits)
    ultimately show ?thesis using w wf f2 by (simp add: fec_ready_def)
  next
    case False
    then have "f' = f2" "out = []" using e(2) by auto
    then show ?thesis using w wf f2 by (simp add: fec_ready_def)
  qed
qed

subsection \<open>Writing\<close>

lemma Send_fec_frames:
  assumes "aead_correct x" "zstd_correct x" "rs_valid x" "rs_sizes x" "sender_ready x k a"
    and "\<And>i n. nonces i = Some n \<Longrightarrow> length n = 24"
    and "Send_fec x nonces s pl a = Some a'"
  shows "sender_ready x k a' \<and> same_recv a a' \<and> sendSeq a' = sendSeq a
    \<and> (\<exists>ws. outbox a' = outbox a @ ws \<and> list_all (parity_frame x k) ws)"
proof -
  obtain e where e: "fecEnc a = Some e" "fec_ready e"
    using assms(5) by (auto simp: sender_ready_def split: option.splits)
  obtain e' ps where e': "AddDataPacket x s pl e = Some (e', ps)"
    and f: "fold_opt (send_parity x nonces) ps (a\<lparr>fecEnc := Some e'\<rparr>) = Some a'"
    using assms(7) e by (auto simp: Send_fec_def split: option.splits)
  have p: "fec_ready e' \<and> list_all parity_ok ps" by (rule AddDataPacket_parity [OF assms(3,4) e(2) e'])
  then have "sender_ready x k (a\<lparr>fecEnc := Some e'\<rparr>)" using assms(5) by (simp add: sender_ready_def)
  from parity_fold_frames [OF assms(1,2) this assms(6) _ f] p
  show ?thesis by (simp add: same_recv_def)
qed

lemma Send_frames:
  assumes "aead_correct x" "zstd_correct x" "rs_valid x" "rs_sizes x" "sender_ready x k a"
    and "nonces_ok env" "length pl < 2 ^ 32"
    and "Send x fl (env_nonce env) now (env_parity_nonces env) polls ok pl a = Some (r, a')"
  shows "r = Inr () \<Longrightarrow> sender_ready x k a' \<and> same_recv a a' \<and> sendSeq a' = sendSeq a + 1
      \<and> \<not> arq_closed a \<and> ok
      \<and> (\<exists>ws w. outbox a' = outbox a @ ws @ [w] \<and> list_all (parity_frame x k) ws
           \<and> data_frame x k (sendSeq a) pl w)"
    and "r \<noteq> Inr () \<Longrightarrow> \<not> ok \<or> outbox a' = outbox a"
proof -
  let ?p = "\<lparr> Type = PacketDATA, SeqNum = sendSeq a, AckNum = recvNext a, Flags = 0,
    Payload = pl, SACKBlocks = [] \<rparr>"
  let ?a = "a\<lparr>sendSeq := sendSeq a + 1\<rparr>"
  have n: "\<And>n. env_nonce env = Some n \<Longrightarrow> length n = 24"
    "\<And>i n. env_parity_nonces env i = Some n \<Longrightarrow> length n = 24"
    using assms(6) by (auto simp: nonces_ok_def)
  obtain r1 p' a1 where e: "arq_encode x (env_nonce env) ?p ?a = (r1, p', a1)" by (metis prod_cases3)
  have rdy: "sender_ready x k ?a" using assms(5) by (simp add: sender_ready_def)
  have ok: "Flags ?p AND FlagCompressed = 0" "length (Payload ?p) < 2 ^ 32" "\<not> isInitial ?p"
    using assms(7) by (simp_all add: isInitial_def)
  note reach = encode_reaches [OF assms(1,2) rdy n(1) ok e]
  obtain c' where c': "a1 = ?a\<lparr>arq_codec := c'\<rparr>" using arq_encode_cases [OF e] .
  have err: "outbox a' = outbox a \<and> r \<noteq> Inr ()" if "\<not> arq_closed a" "r1 = Inl g" for g
    using assms(8) that e c' by (cases g) (auto simp: Send_def Send_enqueue_def Let_def)
  have fin: "(r = Inr () \<longrightarrow> sender_ready x k a' \<and> same_recv a a' \<and> sendSeq a' = sendSeq a + 1 \<and> ok
      \<and> (\<exists>ws w. outbox a' = outbox a @ ws @ [w] \<and> list_all (parity_frame x k) ws
           \<and> data_frame x k (sendSeq a) pl w)) \<and> (r \<noteq> Inr () \<longrightarrow> \<not> ok \<or> outbox a' = outbox a)"
    if op: "\<not> arq_closed a" and w: "r1 = Inr w" for w
  proof -
    obtain b where b: "Send_enqueue x (env_nonce env) now pl a = (Inr (sendSeq a, w), b)"
      "sender_ready x k b" "same_recv a b" "sendSeq b = sendSeq a + 1" "outbox b = outbox a"
      using e w c' reach(1)
      by (auto simp: Send_enqueue_def Let_def sender_ready_def same_recv_def)
    have fr: "data_frame x k (sendSeq a) pl w" using reach(2) [OF _ w] by (auto simp: data_frame_def)
    show ?thesis
    proof (cases "Send_fec x (env_parity_nonces env) (sendSeq a) pl b")
      case None
      then show ?thesis using assms(8) op b by (auto simp: Send_def)
    next
      case (Some d)
      have d: "sender_ready x k d \<and> same_recv b d \<and> sendSeq d = sendSeq b
          \<and> (\<exists>ws. outbox d = outbox b @ ws \<and> list_all (parity_frame x k) ws)"
        by (rule Send_fec_frames [OF assms(1-4) b(2) n(2) Some])
      obtain q where "Wait fl polls (pacer d) = Some q"
        "a' = transmit w (d\<lparr>pacer := q\<rparr>)" "r = (if ok then Inr () else Inl (Err ErrSend))"
        using assms(8) op b Some by (auto simp: Send_def Send_transmit_def Let_def split: option.splits)
      then show ?thesis using d b fr
        by (auto simp: transmit_def sender_ready_def same_recv_def)
    qed
  qed
  have cl: "arq_closed a \<Longrightarrow> r \<noteq> Inr () \<and> a' = a" using assms(8) by (auto simp: Send_def)
  show "r = Inr () \<Longrightarrow> sender_ready x k a' \<and> same_recv a a' \<and> sendSeq a' = sendSeq a + 1
      \<and> \<not> arq_closed a \<and> ok
      \<and> (\<exists>ws w. outbox a' = outbox a @ ws @ [w] \<and> list_all (parity_frame x k) ws
           \<and> data_frame x k (sendSeq a) pl w)"
    using cl err fin by (cases r1) blast+
  show "r \<noteq> Inr () \<Longrightarrow> \<not> ok \<or> outbox a' = outbox a"
    using cl err fin by (cases r1) blast+
qed

text \<open>What the socket was given.\<close>

definition addressed :: "MTPConn \<Rightarrow> bytes list \<Rightarrow> (nat \<times> string \<times> bytes) list" where
  "addressed c ws = map (\<lambda>w. (udpConn c, remoteAddr c, w)) ws"

definition same_conn :: "MTPConn \<Rightarrow> MTPConn \<Rightarrow> bool" where
  "same_conn c d \<longleftrightarrow> udpConn d = udpConn c \<and> remoteAddr d = remoteAddr c \<and> readBuf d = readBuf c
     \<and> sessionID d = sessionID c \<and> isServer d = isServer c \<and> lastRecv d = lastRecv c
     \<and> conn_closed d = conn_closed c \<and> close_done d = close_done c
     \<and> readDeadline d = readDeadline c \<and> writeDeadline d = writeDeadline c \<and> recvCh d = recvCh c
     \<and> workers d = workers c \<and> closed_sockets d = closed_sockets c
     \<and> onClose_calls d = onClose_calls c"

lemma same_conn_refl [simp]: "same_conn c c"
  by (simp add: same_conn_def)

lemma same_conn_trans: "same_conn c d \<Longrightarrow> same_conn d e \<Longrightarrow> same_conn c e"
  by (simp add: same_conn_def)

lemma send_outbox_effect:
  "arq (send_outbox ok now c) = (arq c)\<lparr>outbox := []\<rparr>
    \<and> same_conn c (send_outbox ok now c)
    \<and> written (send_outbox ok now c) = written c @
        (if ok \<and> \<not> conn_closed c then addressed c (outbox (arq c)) else [])"
proof -
  have "arq d' = arq d \<and> same_conn d d' \<and> written d' = written d @
      (if ok \<and> \<not> conn_closed d then addressed d ws else [])"
    if "d' = foldl (\<lambda>c w. snd (sendRaw ok now w c)) d ws" for ws d d'
    using that
  proof (induction ws arbitrary: d)
    case (Cons w ws)
    let ?e = "snd (sendRaw ok now w d)"
    have e: "arq ?e = arq d" "same_conn d ?e"
      "written ?e = written d @ (if ok \<and> \<not> conn_closed d then addressed d [w] else [])"
      by (simp_all add: sendRaw_def same_conn_def addressed_def)
    have i: "arq d' = arq ?e \<and> same_conn ?e d' \<and> written d' = written ?e @
        (if ok \<and> \<not> conn_closed ?e then addressed ?e ws else [])"
      by (rule Cons.IH) (use Cons.prems in simp)
    have "conn_closed ?e = conn_closed d" "addressed ?e ws = addressed d ws"
      using e(2) by (simp_all add: same_conn_def addressed_def)
    then show ?case using i e same_conn_trans [OF e(2)]
      by (auto simp: addressed_def)
  qed (simp add: addressed_def)
  from this [OF refl, of "c\<lparr>arq := (arq c)\<lparr>outbox := []\<rparr>\<rparr>" "outbox (arq c)"]
  show ?thesis by (simp add: send_outbox_def same_conn_def addressed_def)
qed

lemma send_outbox_simps [simp]:
  "arq (send_outbox ok now c) = (arq c)\<lparr>outbox := []\<rparr>"
  "same_conn c (send_outbox ok now c)"
  "written (send_outbox ok now c) = written c @
     (if ok \<and> \<not> conn_closed c then addressed c (outbox (arq c)) else [])"
  using send_outbox_effect by auto

lemma send_outbox_same [simp]: "same_conn c (send_outbox ok now (c\<lparr>arq := a\<rparr>))"
  using send_outbox_effect [of ok now "c\<lparr>arq := a\<rparr>"] by (simp add: same_conn_def)

definition conn_ready :: "externals \<Rightarrow> PacketCodec \<Rightarrow> MTPConn \<Rightarrow> bool" where
  "conn_ready x k c \<longleftrightarrow> sender_ready x k (arq c) \<and> outbox (arq c) = []"

text \<open>The datagrams \<open>ws\<close> are parity packets and the DATA packets of the \<open>chunks\<close>, numbered from \<open>s\<close>.\<close>

definition stream_frames :: "externals \<Rightarrow> PacketCodec \<Rightarrow> u32 \<Rightarrow> bytes list \<Rightarrow> bytes list \<Rightarrow> bool" where
  "stream_frames x k s chunks ws \<longleftrightarrow>
     (\<forall>w\<in>set ws. parity_frame x k w
        \<or> (\<exists>i<length chunks. data_frame x k (s + of_nat i) (chunks ! i) w))
     \<and> (\<forall>i<length chunks. \<exists>w\<in>set ws. data_frame x k (s + of_nat i) (chunks ! i) w)"

lemma stream_frames_Nil [simp]: "stream_frames x k s [] []"
  by (simp add: stream_frames_def)

lemma stream_frames_append:
  assumes "stream_frames x k s c1 w1" "stream_frames x k (s + of_nat (length c1)) c2 w2"
  shows "stream_frames x k s (c1 @ c2) (w1 @ w2)"
proof -
  have lo: "(c1 @ c2) ! i = c1 ! i" if "i < length c1" for i using that by (simp add: nth_append)
  have hi: "(c1 @ c2) ! (length c1 + j) = c2 ! j" "s + of_nat (length c1 + j) = s + of_nat (length c1) + of_nat j"
    for j by (simp_all add: nth_append add.assoc)
  have "\<exists>w\<in>set (w1 @ w2). data_frame x k (s + of_nat i) ((c1 @ c2) ! i) w"
    if "i < length (c1 @ c2)" for i
  proof (cases "i < length c1")
    case True
    then show ?thesis using assms(1) lo by (auto simp: stream_frames_def)
  next
    case False
    then obtain j where j: "i = length c1 + j" by (metis le_Suc_ex not_less)
    then have "j < length c2" using that by simp
    then obtain w where "w \<in> set w2" "data_frame x k (s + of_nat (length c1) + of_nat j) (c2 ! j) w"
      using assms(2) by (auto simp: stream_frames_def)
    then show ?thesis unfolding j(1) hi by auto
  qed
  moreover have "parity_frame x k w
      \<or> (\<exists>i<length (c1 @ c2). data_frame x k (s + of_nat i) ((c1 @ c2) ! i) w)"
    if w: "w \<in> set (w1 @ w2)" for w
  proof (cases "w \<in> set w1")
    case True
    then consider "parity_frame x k w"
      | j where "j < length c1" "data_frame x k (s + of_nat j) (c1 ! j) w"
      using assms(1) by (auto simp: stream_frames_def)
    then show ?thesis
    proof cases
      case (2 j)
      then have "j < length (c1 @ c2)" "data_frame x k (s + of_nat j) ((c1 @ c2) ! j) w"
        by (simp_all add: lo)
      then show ?thesis by blast
    qed simp
  next
    case False
    then consider "parity_frame x k w"
      | j where "j < length c2" "data_frame x k (s + of_nat (length c1) + of_nat j) (c2 ! j) w"
      using w assms(2) by (auto simp: stream_frames_def)
    then show ?thesis
    proof cases
      case (2 j)
      then have "length c1 + j < length (c1 @ c2)"
        "data_frame x k (s + of_nat (length c1 + j)) ((c1 @ c2) ! (length c1 + j)) w"
        by (simp_all only: hi) simp
      then show ?thesis by blast
    qed simp
  qed
  ultimately show ?thesis by (simp add: stream_frames_def)
qed

lemma conn_sendD:
  assumes "conn_send x fl env chunk c = Some (r, c')"
  obtains (refused) "r = Inl (Err ErrEngineClosed)" "c' = c"
  | (sent) a where "Send x fl (env_nonce env) (env_now env) (env_parity_nonces env) (env_polls env)
        (env_write_ok env \<and> \<not> conn_closed c) chunk (arq c) = Some (r, a)"
      "c' = send_outbox (env_write_ok env) (env_now env) (c\<lparr>arq := a\<rparr>)"
proof (cases "Send_wait [(0, arq c)]")
  case Proceed
  with assms have "(case Send x fl (env_nonce env) (env_now env) (env_parity_nonces env) (env_polls env)
      (env_write_ok env \<and> \<not> conn_closed c) chunk (arq c) of None \<Rightarrow> None
    | Some (r, a) \<Rightarrow> Some (r, send_outbox (env_write_ok env) (env_now env) (c\<lparr>arq := a\<rparr>)))
      = Some (r, c')"
    unfolding conn_send_def by (simp only: send_wait.case)
  then obtain r' a where "Send x fl (env_nonce env) (env_now env) (env_parity_nonces env) (env_polls env)
      (env_write_ok env \<and> \<not> conn_closed c) chunk (arq c) = Some (r', a)"
    "(r', send_outbox (env_write_ok env) (env_now env) (c\<lparr>arq := a\<rparr>)) = (r, c')"
    by (auto split: option.splits)
  then show ?thesis by (intro sent) auto
next
  case Refused
  with assms show ?thesis unfolding conn_send_def by (simp only: send_wait.case) (simp add: refused)
next
  case Waiting
  with assms show ?thesis unfolding conn_send_def by (simp only: send_wait.case) simp
qed

lemma conn_send_frames:
  assumes ext: "aead_correct x" "zstd_correct x" "rs_valid x" "rs_sizes x"
    and c: "conn_ready x k c" "nonces_ok env" "length chunk < 2 ^ 32"
    and send: "conn_send x fl env chunk c = Some (r, c')"
  shows "r = Inr () \<Longrightarrow> conn_ready x k c' \<and> same_recv (arq c) (arq c')
      \<and> sendSeq (arq c') = sendSeq (arq c) + 1 \<and> same_conn c c'
      \<and> (\<exists>ws. written c' = written c @ addressed c ws
           \<and> stream_frames x k (sendSeq (arq c)) [chunk] ws)"
    and "r \<noteq> Inr () \<Longrightarrow> same_conn c c' \<and> written c' = written c"
proof -
  let ?ok = "env_write_ok env \<and> \<not> conn_closed c"
  have rdy: "sender_ready x k (arq c)" "outbox (arq c) = []" using c(1) by (simp_all add: conn_ready_def)
  consider "r \<noteq> Inr ()" "c' = c"
    | a where "Send x fl (env_nonce env) (env_now env) (env_parity_nonces env) (env_polls env) ?ok
        chunk (arq c) = Some (r, a)" "c' = send_outbox (env_write_ok env) (env_now env) (c\<lparr>arq := a\<rparr>)"
    using conn_sendD [OF send] by (metis sum.distinct(1))
  then have "(r = Inr () \<longrightarrow> conn_ready x k c' \<and> same_recv (arq c) (arq c')
      \<and> sendSeq (arq c') = sendSeq (arq c) + 1 \<and> same_conn c c'
      \<and> (\<exists>ws. written c' = written c @ addressed c ws
           \<and> stream_frames x k (sendSeq (arq c)) [chunk] ws))
      \<and> (r \<noteq> Inr () \<longrightarrow> same_conn c c' \<and> written c' = written c)"
  proof cases
    case (2 a)
    have sc: "same_conn c c'" "arq c' = a\<lparr>outbox := []\<rparr>"
      "written c' = written c @ (if ?ok then addressed c (outbox a) else [])"
      using 2(2) send_outbox_effect [of "env_write_ok env" "env_now env" "c\<lparr>arq := a\<rparr>"]
      by (simp_all add: same_conn_def addressed_def)
    note fr = Send_frames [OF ext rdy(1) c(2,3) 2(1)]
    show ?thesis
    proof (cases "r = Inr ()")
      case True
      then obtain ws w where a: "outbox a = ws @ [w]" "list_all (parity_frame x k) ws"
        "data_frame x k (sendSeq (arq c)) chunk w" "sender_ready x k a" "same_recv (arq c) a"
        "sendSeq a = sendSeq (arq c) + 1" "?ok"
        using fr(1) rdy(2) by auto
      have "stream_frames x k (sendSeq (arq c)) [chunk] (outbox a)"
        using a(1-3) by (auto simp: stream_frames_def list_all_iff)
      moreover have "conn_ready x k c'" "same_recv (arq c) (arq c')"
        "sendSeq (arq c') = sendSeq (arq c) + 1" "written c' = written c @ addressed c (outbox a)"
        using sc(2,3) a(4-7) by (simp_all add: conn_ready_def sender_ready_def same_recv_def)
      ultimately show ?thesis using True sc(1) by blast
    next
      case False
      then have "\<not> ?ok \<or> outbox a = []" using fr(2) rdy(2) by simp
      then show ?thesis using False sc by (auto simp: addressed_def)
    qed
  qed simp
  then show "r = Inr () \<Longrightarrow> conn_ready x k c' \<and> same_recv (arq c) (arq c')
      \<and> sendSeq (arq c') = sendSeq (arq c) + 1 \<and> same_conn c c'
      \<and> (\<exists>ws. written c' = written c @ addressed c ws
           \<and> stream_frames x k (sendSeq (arq c)) [chunk] ws)"
    and "r \<noteq> Inr () \<Longrightarrow> same_conn c c' \<and> written c' = written c" by blast+
qed

text \<open>The segments \<^verbatim>\<open>Write\<close> makes of a buffer.\<close>

function segments :: "bytes \<Rightarrow> bytes list" where
  "segments b = (if b = [] then [] else take 1200 b # segments (drop 1200 b))"
  by pat_completeness auto
termination
  by (relation "measure length") auto

declare segments.simps [simp del]

lemma segments_facts:
  "concat (segments b) = b \<and> (\<forall>s\<in>set (segments b). s \<noteq> [] \<and> length s \<le> 1200)
    \<and> length (segments b) = (length b + 1199) div 1200"
proof (induction b rule: segments.induct)
  case (1 b)
  show ?case
  proof (cases "b = []")
    case False
    have n: "(length b + 1199) div 1200 = Suc ((length (drop 1200 b) + 1199) div 1200)"
      using False by (cases "length b \<le> 1200") (auto simp: Suc_diff_le div_if le_div_geq)
    show ?thesis using 1 [OF False] False n by (subst (1 2 3) segments.simps) auto
  qed (simp add: segments.simps)
qed

text \<open>A run of the segmentation loop that sent the segments \<open>sent\<close>.\<close>

definition wrote :: "externals \<Rightarrow> PacketCodec \<Rightarrow> bytes list \<Rightarrow> bool \<Rightarrow> MTPConn \<Rightarrow> MTPConn \<Rightarrow> bool" where
  "wrote x k sent whole c c' \<longleftrightarrow> same_conn c c'
     \<and> (\<exists>ws. written c' = written c @ addressed c ws \<and> stream_frames x k (sendSeq (arq c)) sent ws)
     \<and> (whole \<longrightarrow> sendSeq (arq c') = sendSeq (arq c) + of_nat (length sent)
          \<and> same_recv (arq c) (arq c') \<and> conn_ready x k c')"

lemma wrote_Cons:
  assumes "conn_ready x k d \<and> same_recv (arq c) (arq d) \<and> sendSeq (arq d) = sendSeq (arq c) + 1
      \<and> same_conn c d \<and> (\<exists>ws. written d = written c @ addressed c ws
        \<and> stream_frames x k (sendSeq (arq c)) [s] ws)"
    and "wrote x k sent whole d c'"
  shows "wrote x k (s # sent) whole c c'"
proof -
  obtain ws where ws: "written d = written c @ addressed c ws"
    "stream_frames x k (sendSeq (arq c)) [s] ws" using assms(1) by blast
  obtain vs where vs: "written c' = written d @ addressed d vs"
    "stream_frames x k (sendSeq (arq d)) sent vs" using assms(2) by (auto simp: wrote_def)
  have "addressed d vs = addressed c vs" using assms(1) by (simp add: addressed_def same_conn_def)
  then have "written c' = written c @ addressed c (ws @ vs)" using ws(1) vs(1) by (simp add: addressed_def)
  moreover have "stream_frames x k (sendSeq (arq c)) ([s] @ sent) (ws @ vs)"
    by (rule stream_frames_append) (use ws(2) vs(2) assms(1) in simp_all)
  moreover have "same_conn c c'" using assms same_conn_trans by (auto simp: wrote_def)
  moreover have "whole \<longrightarrow> sendSeq (arq c') = sendSeq (arq c) + of_nat (length (s # sent))
      \<and> same_recv (arq c) (arq c') \<and> conn_ready x k c'"
    using assms by (auto simp: wrote_def same_recv_def)
  ultimately show ?thesis unfolding wrote_def by auto
qed

lemma wrote_Nil:
  assumes "same_conn c c'" "written c' = written c"
    and "whole \<Longrightarrow> sendSeq (arq c') = sendSeq (arq c) \<and> same_recv (arq c) (arq c') \<and> conn_ready x k c'"
  shows "wrote x k [] whole c c'"
  using assms unfolding wrote_def by (auto simp: addressed_def intro!: exI [of _ "[]"])

lemma write_loop_step:
  assumes "rem \<noteq> []" and "\<not> conn_closed c"
  shows "write_loop x fl envs n rem tot c =
     (case conn_send x fl (envs n) (take 1200 rem) c of
        None \<Rightarrow> None
      | Some (Inl (Err e), d) \<Rightarrow> Some (tot, Some (Err (ErrArq e)), d)
      | Some (Inl Panic, d) \<Rightarrow> Some (tot, Some Panic, d)
      | Some (Inr _, d) \<Rightarrow>
          write_loop x fl envs (n + 1) (drop 1200 rem) (tot + length (take 1200 rem)) d)"
proof -
  have "take (min (length rem) MaxPayloadSize) rem = take 1200 rem"
    "drop (min (length rem) MaxPayloadSize) rem = drop 1200 rem"
    "min (length rem) MaxPayloadSize = length (take 1200 rem)"
    by (simp_all add: MaxPayloadSize_def min_def)
  then show ?thesis using assms by (subst write_loop.simps) (simp only: Let_def if_False)
qed

lemma write_loop_frames:
  assumes ext: "aead_correct x" "zstd_correct x" "rs_valid x" "rs_sizes x"
    and envs: "\<And>i. nonces_ok (envs i)"
    and "write_loop x fl envs n rem tot c = Some (cnt, e, c')" "conn_ready x k c"
  shows "\<exists>m. cnt = tot + length (concat (take m (segments rem)))
      \<and> (e = None \<longrightarrow> length (segments rem) \<le> m) \<and> (e \<noteq> None \<longrightarrow> m < length (segments rem))
      \<and> wrote x k (take m (segments rem)) (e = None) c c'"
  using assms(6,7)
proof (induction "length rem" arbitrary: n rem tot c rule: less_induct)
  case less
  note loop = less.prems(1) [unfolded write_loop.simps [of x fl envs n rem tot c]]
  show ?case
  proof (cases "rem = []")
    case True
    then have "wrote x k [] True c c'" "cnt = tot" "e = None"
      using loop less.prems(2) by (auto intro!: wrote_Nil simp: same_recv_def)
    then show ?thesis using True by (auto simp: segments.simps [of "[]"] intro: exI [of _ 0])
  next
    case False
    let ?s = "take 1200 rem"
    have seg: "segments rem = ?s # segments (drop 1200 rem)" using False by (subst segments.simps) simp
    have small: "length ?s < 2 ^ 32" by simp
    have stop: ?thesis if "cnt = tot" "e \<noteq> None" "same_conn c c'" "written c' = written c"
      using that seg by (intro exI [of _ 0]) (auto intro: wrote_Nil)
    show ?thesis
    proof (cases "conn_closed c")
      case True
      then show ?thesis using loop False by (intro stop) auto
    next
      case opened: False
      obtain r d where d: "conn_send x fl (envs n) ?s c = Some (r, d)"
        using less.prems(1) write_loop_step [OF False opened] by (auto split: option.splits)
      note fr = conn_send_frames [OF ext less.prems(2) envs small d]
      show ?thesis
      proof (cases r)
        case (Inl g)
        then have "cnt = tot \<and> e \<noteq> None \<and> c' = d"
          using less.prems(1) write_loop_step [OF False opened] d by (cases g) auto
        then show ?thesis using fr(2) Inl by (intro stop) auto
      next
        case (Inr u)
        then have rest: "write_loop x fl envs (n + 1) (drop 1200 rem) (tot + length ?s) d = Some (cnt, e, c')"
          using less.prems(1) write_loop_step [OF False opened] d by auto
        have dr: "conn_ready x k d" using fr(1) Inr by simp
        have "length (drop 1200 rem) < length rem" using False by simp
        from less.hyps [OF this rest dr] obtain m where
          m: "cnt = tot + length ?s + length (concat (take m (segments (drop 1200 rem))))"
          "e = None \<longrightarrow> length (segments (drop 1200 rem)) \<le> m"
          "e \<noteq> None \<longrightarrow> m < length (segments (drop 1200 rem))"
          "wrote x k (take m (segments (drop 1200 rem))) (e = None) d c'" by blast
        have "wrote x k (?s # take m (segments (drop 1200 rem))) (e = None) c c'"
          using fr(1) Inr m(4) by (intro wrote_Cons) auto
        then show ?thesis using m(1-3) seg by (intro exI [of _ "Suc m"]) auto
      qed
    qed
  qed
qed

subsection \<open>The FEC decoder of a connection\<close>

text \<open>No group holds a parity shard: then a group is complete only when nothing is missing.\<close>

definition data_only :: "FecDecoder \<Rightarrow> bool" where
  "data_only f \<longleftrightarrow> (\<forall>k g. map_of (groups f) k = Some g \<longrightarrow>
     (\<forall>q\<in>set (drop (nat (DataShards (fd_config f))) (g_shards g)). q = None))"

lemma data_only_full:
  assumes "length s = d + p" "\<forall>q\<in>set (drop d s). q = None" "d \<le> length (filter (\<lambda>q. q \<noteq> None) s)"
  shows "None \<notin> set (take d s)"
proof -
  have "filter (\<lambda>q. q \<noteq> None) (drop d s) = []" using assms(2) by (simp add: filter_empty_conv)
  then have "length (filter (\<lambda>q. q \<noteq> None) (take d s)) = length (filter (\<lambda>q. q \<noteq> None) s)"
    by (metis append_Nil2 append_take_drop_id filter_append)
  then have "length (filter (\<lambda>q. q \<noteq> None) (take d s)) = length (take d s)"
    using assms(1,3) length_filter_le [of "\<lambda>q. q \<noteq> None" "take d s"] by simp
  then show ?thesis using length_filter_less [of None "take d s" "\<lambda>q. q \<noteq> None"] by auto
qed

lemma AddData_quiet:
  assumes "fd_wf f" "data_only f" "AddData x seq pl f = Some (f', out)"
  shows "data_only f' \<and> out = []"
proof -
  define ds where "ds = (of_int (DataShards (fd_config f)) :: u32)"
  let ?d = "nat (DataShards (fd_config f))"
  have ds: "unat ds = ?d" "ds \<noteq> 0" "0 < DataShards (fd_config f)"
    using shard_count_word assms(1) by (simp_all add: ds_def fd_wf_def shape_ok_def)
  have idx: "unat (seq mod ds) < ?d" using ds(3) by (simp add: unat_mod_distrib ds(1))
  obtain g f1 where g: "getOrCreateGroup (seq div ds * ds) f = (g, f1)" by fastforce
  note w = getOrCreateGroup_wf [OF assms(1) g]
  have f1: "data_only f1" "fd_config f1 = fd_config f" "\<forall>q\<in>set (drop ?d (g_shards g)). q = None"
    using assms(2) g
    by (auto simp: getOrCreateGroup_def Let_def data_only_def amap_simps split: option.splits if_splits)
  let ?g = "g\<lparr>g_shards := (g_shards g)[unat (seq mod ds) := Some (data_shard pl)],
      received := received g + 1\<rparr>"
  let ?f = "f1\<lparr>groups := AList.update (g_startSeq ?g) ?g (groups f1)\<rparr>"
  have g': "\<forall>q\<in>set (drop ?d (g_shards ?g)). q = None" using f1(3) idx by (simp add: drop_update_cancel)
  have e: "AddData x seq pl f = (if length (g_shards g) \<le> unat (seq mod ds) then None
      else if g_shards g ! unat (seq mod ds) = None then checkRecover x ?g ?f else Some (f1, []))"
    using ds(2) g by (simp add: AddData_def Let_def ds_def store_shard_def data_shard_def)
  have dof: "data_only ?f" using f1 g' by (auto simp: data_only_def amap_simps split: if_splits)
  show ?thesis
  proof (cases "g_shards g ! unat (seq mod ds) = None \<and> \<not> length (g_shards g) \<le> unat (seq mod ds)")
    case False
    then show ?thesis using e assms(3) f1(1) by (auto split: if_splits)
  next
    case True
    then have c: "checkRecover x ?g ?f = Some (f', out)" using e assms(3) by simp
    have gw: "length (g_shards g) = ?d + nat (ParityShards (fd_config f))"
      "received g = int (length (filter (\<lambda>q. q \<noteq> None) (g_shards g)))"
      using w by (simp_all add: group_wf_def)
    have "length (filter (\<lambda>q. q \<noteq> None) (g_shards ?g)) = Suc (length (filter (\<lambda>q. q \<noteq> None) (g_shards g)))"
      using True length_filter_update [of "unat (seq mod ds)" "g_shards g" "data_shard pl"]
      by (simp add: not_le)
    then have full: "DataShards (fd_config f) \<le> received ?g \<Longrightarrow> None \<notin> set (take ?d (g_shards ?g))"
      using gw by (intro data_only_full [OF _ g', of "nat (ParityShards (fd_config f))"]) auto
    have del: "data_only (?f\<lparr>groups := AList.delete j (groups ?f)\<rparr>)" for j
      using dof by (auto simp: data_only_def amap_simps split: if_splits)
    show ?thesis
    proof (cases "DataShards (fd_config f) \<le> received ?g")
      case True
      then show ?thesis using c full del f1(2) gw(1) unfolding checkRecover_def Let_def
        by (auto split: if_splits)
    next
      case False
      then show ?thesis using c dof f1(2) by (auto simp: checkRecover_def Let_def)
    qed
  qed
qed

lemma dec_configure_quiet: "data_only f \<Longrightarrow> data_only (dec_configure x c f)"
  by (auto simp: dec_configure_def data_only_def same_shape_def)

lemma group_timeout_quiet: "data_only f \<Longrightarrow> data_only (group_timeout s f)"
  by (auto simp: group_timeout_def data_only_def amap_simps split: if_splits)

text \<open>Nothing was recovered so far, and nothing will be without parity.\<close>

definition fec_idle :: "ARQEngine \<Rightarrow> bool" where
  "fec_idle a \<longleftrightarrow> spawned a = [] \<and> (case fecDec a of None \<Rightarrow> True | Some d \<Rightarrow> data_only d)"

lemma fec_idle_cong: "spawned b = spawned a \<Longrightarrow> fecDec b = fecDec a \<Longrightarrow> fec_idle b = fec_idle a"
  by (simp add: fec_idle_def)

lemma adapt_fec_idle:
  assumes "fec_idle a" "adapt_fec fl a = Some a'"
  shows "fec_idle a'"
  using assms
  by (auto simp: adapt_fec_def reconfigure_fec_def Let_def fec_idle_def data_only_def
      split: if_splits option.splits)

lemma updatePacing_idle [simp]: "fec_idle (updatePacing fl a) = fec_idle a"
  by (rule fec_idle_cong) (simp_all add: updatePacing_def Let_def)

lemma handleACK_idle:
  assumes "fec_idle a" "handleACK fl clock order p a = Some a'"
  shows "fec_idle a'"
proof -
  obtain a1 a2 where h: "same_rest a a1" "adapt_fec fl (updatePacing fl a1) = Some a2"
    "a' = a2\<lparr>sendWindow := congestion_window fl a2\<rparr>"
    using handleACK_decompose [OF assms(2)] by metis
  have "fec_idle (updatePacing fl a1)"
    using h(1) assms(1) by (simp add: same_rest_def fec_idle_def [of a] fec_idle_def [of a1])
  then have "fec_idle a2" using h(2) adapt_fec_idle by blast
  then show ?thesis using h(3) by (simp add: fec_idle_def)
qed

lemma HandlePacket_idle:
  assumes "rs_valid x" "arq_wf x fl a" "fec_idle a" "Type p \<noteq> PacketFEC"
    and "HandlePacket x fl nonce clock order p a = Some a'"
  shows "fec_idle a'"
proof (cases "arq_closed a")
  case True
  then show ?thesis using assms(3,5) by (simp add: HandlePacket_def)
next
  case False
  let ?a = "a\<lparr> totalPacketsRecv := totalPacketsRecv a + 1,
      totalBytesRecv := totalBytesRecv a + of_nat (length (Payload p)) \<rparr>"
  have idle: "fec_idle ?a" using assms(3) by (simp add: fec_idle_def)
  show ?thesis
  proof (cases "Type p = PacketDATA")
    case True
    obtain d where d: "fecDec a = Some d" "fd_wf d" "data_only d" "spawned a = []"
      using fecDec_some [OF assms(2)] assms(3) by (auto simp: fec_idle_def)
    obtain d' out where d': "AddData x (SeqNum p) (Payload p) d = Some (d', out)"
      using AddData_wf [OF assms(1) d(2)] by metis
    then have q: "data_only d'" "out = []" using AddData_quiet [OF d(2,3)] by blast+
    let ?b = "?a\<lparr>fecDec := Some d', spawned := []\<rparr>"
    have h: "handleDATA x nonce order p ?b = Some a'"
      using assms(5) True False d d' q by (simp add: HandlePacket_def fec_receive_def)
    have acc: "spawned (accept_data p ?b) = []" "fecDec (accept_data p ?b) = Some d'"
      using accept_data_same [of ?b p] by (simp_all add: same_sender_def)
    let ?c = "(accept_data p ?b)\<lparr>unackedRecv := unackedRecv ?b + 1\<rparr>"
    have "spawned a' = [] \<and> fecDec a' = Some d'" if "flushACK x nonce order ?c = Some a'"
      using sendACK_frame [of x nonce order "?c\<lparr>delayedACKTimer := False, unackedRecv := 0\<rparr>" a'] that acc
      by (simp add: flushACK_def)
    then have "spawned a' = [] \<and> fecDec a' = Some d'"
      using h acc by (auto simp: handleDATA_alt Let_def split: if_splits)
    then show ?thesis using q by (simp add: fec_idle_def)
  next
    case other: False
    then have "handleACK fl clock order p ?a = Some a' \<or> a' = ?a"
      using assms(4,5) False by (auto simp: HandlePacket_def Let_def split: if_splits)
    then show ?thesis using idle handleACK_idle [OF idle] by blast
  qed
qed

subsection \<open>The steps of a connection\<close>

text \<open>What runs in the engine beside the calls of the connection.\<close>

inductive arq_background :: "externals \<Rightarrow> (rat \<Rightarrow> rat) \<Rightarrow> ARQEngine \<Rightarrow> ARQEngine \<Rightarrow> bool"
  for x :: externals and fl :: "rat \<Rightarrow> rat" where
  bg_retransmit: "retransmit_tick x fl nonces now order a = Some a' \<Longrightarrow> arq_background x fl a a'"
| bg_ack_timer: "delayedACKTimer a \<Longrightarrow> ack_timer x nonce order a = Some a' \<Longrightarrow> arq_background x fl a a'"
| bg_fec_timer: "fec_flush_timer x nonces a = Some a' \<Longrightarrow> arq_background x fl a a'"
| bg_fec_group: "fecDec a = Some d \<Longrightarrow>
    arq_background x fl a (a\<lparr>fecDec := Some (group_timeout s d)\<rparr>)"
| bg_enc_config: "arq_background x fl a (enc_config_loop x a)"
| bg_dec_config: "arq_background x fl a (dec_config_loop x a)"
| bg_rotate: "arq_background x fl a (a\<lparr>arq_codec := rotateDCID x (arq_codec a)\<rparr>)"

inductive_cases arq_backgroundE: "arq_background x fl a a'"

inductive conn_step :: "externals \<Rightarrow> (rat \<Rightarrow> rat) \<Rightarrow> MTPConn \<Rightarrow> MTPConn \<Rightarrow> bool"
  for x :: externals and fl :: "rat \<Rightarrow> rat" where
  cs_send: "sorted (lastRefill (pacer (arq c)) # map fst (env_polls env)) \<Longrightarrow>
    conn_send x fl env chunk c = Some (r, c') \<Longrightarrow> conn_step x fl c c'"
| cs_datagram: "processIncoming x fl env raw c = Some c' \<Longrightarrow> conn_step x fl c c'"
| cs_dispatch: "conn_step x fl c (DispatchPacket data c)"
| cs_recv: "recvLoop_round x fl env c = Some c' \<Longrightarrow> conn_step x fl c c'"
| cs_keepalive: "conn_step x fl c (keepalive_tick x env millis c)"
| cs_read_enter: "Read_enter len now c = Some (r, c') \<Longrightarrow> conn_step x fl c c'"
| cs_read_wait: "Read_wait len dl ch c = Some (r, c') \<Longrightarrow> conn_step x fl c c'"
| cs_deadline: "conn_step x fl c (SetDeadline t c)"
| cs_read_deadline: "conn_step x fl c (SetReadDeadline t c)"
| cs_write_deadline: "conn_step x fl c (SetWriteDeadline t c)"
| cs_background: "arq_background x fl (arq c) a \<Longrightarrow>
    conn_step x fl c (send_outbox ok now (c\<lparr>arq := a\<rparr>))"
| cs_close: "conn_step x fl c (Conn_Close x env c)"

inductive_cases conn_stepE: "conn_step x fl c c'"

text \<open>A connection is closed once, with its engine, and then for good; nothing waits in the
  engine's outbox; the FEC decoder is idle.\<close>

definition conn_wf :: "externals \<Rightarrow> (rat \<Rightarrow> rat) \<Rightarrow> MTPConn \<Rightarrow> bool" where
  "conn_wf x fl c \<longleftrightarrow> arq_wf x fl (arq c) \<and> outbox (arq c) = [] \<and> fec_idle (arq c)
     \<and> arq_closed (arq c) = conn_closed c \<and> close_done c = conn_closed c
     \<and> onClose_calls c = (if conn_closed c then 1 else 0) \<and> length (recvCh c) \<le> 512"

lemma arq_wf_outbox [simp]: "arq_wf x fl (a\<lparr>outbox := ws\<rparr>) = arq_wf x fl a"
  by (simp add: arq_wf_def parts_wf_def sender_wf_def receiver_wf_def)

lemma fec_idle_outbox [simp]: "fec_idle (a\<lparr>outbox := ws\<rparr>) = fec_idle a"
  by (simp add: fec_idle_def)

text \<open>An engine operation, its datagrams sent: the connection stays well-formed when the engine
  does.\<close>

definition engine_ok :: "externals \<Rightarrow> (rat \<Rightarrow> rat) \<Rightarrow> ARQEngine \<Rightarrow> ARQEngine \<Rightarrow> bool" where
  "engine_ok x fl a a' \<longleftrightarrow> arq_wf x fl a' \<and> fec_idle a' \<and> arq_closed a' = arq_closed a"

lemma same_connD:
  assumes "same_conn c d"
  shows "conn_closed d = conn_closed c" "close_done d = close_done c" "recvCh d = recvCh c"
    "onClose_calls d = onClose_calls c" "isServer d = isServer c" "sessionID d = sessionID c"
    "readBuf d = readBuf c" "lastRecv d = lastRecv c" "closed_sockets d = closed_sockets c"
  using assms by (simp_all add: same_conn_def)

lemma send_outbox_wf:
  assumes "conn_wf x fl c" "engine_ok x fl (arq c) a"
  shows "conn_wf x fl (send_outbox ok now (c\<lparr>arq := a\<rparr>))"
  using assms same_connD [OF send_outbox_simps(2), of ok now "c\<lparr>arq := a\<rparr>"]
  by (simp add: conn_wf_def engine_ok_def)

lemma encode_engine_ok:
  assumes "arq_wf x fl a" "fec_idle a" "arq_encode x nonce p a = (r, p', a')"
  shows "engine_ok x fl a a' \<and> engine_ok x fl a (transmit w a') \<and> same_recv a a' \<and> pacer a' = pacer a
    \<and> spawned a' = spawned a \<and> fecDec a' = fecDec a \<and> fecEnc a' = fecEnc a \<and> sendSeq a' = sendSeq a"
proof -
  obtain c' where "a' = a\<lparr>arq_codec := c'\<rparr>" using arq_encode_cases [OF assms(3)] .
  then show ?thesis using arq_encode_wf [OF assms(1,3)] assms(2)
    by (simp add: engine_ok_def fec_idle_def transmit_def same_recv_def)
qed

lemma conn_control_wf:
  assumes "conn_wf x fl c"
  shows "conn_wf x fl (snd (conn_control x env p c)) \<and> same_conn c (snd (conn_control x env p c))
    \<and> same_recv (arq c) (arq (snd (conn_control x env p c)))"
proof -
  let ?ok = "env_write_ok env \<and> \<not> conn_closed c"
  obtain r p' a1 where e: "arq_encode x (env_nonce env) p (arq c) = (r, p', a1)" by (metis prod_cases3)
  obtain r' a where s: "SendControl x (env_nonce env) ?ok p (arq c) = (r', a)" by fastforce
  have "a = a1 \<or> (\<exists>w. a = transmit w a1)"
    using s e by (auto simp: SendControl_def split: sum.splits failure.splits)
  moreover have "arq_wf x fl (arq c)" "fec_idle (arq c)" using assms by (simp_all add: conn_wf_def)
  ultimately have "engine_ok x fl (arq c) a \<and> same_recv (arq c) a"
    using encode_engine_ok [OF _ _ e] by (auto simp: transmit_def same_recv_def)
  moreover have "snd (conn_control x env p c)
      = send_outbox (env_write_ok env) (env_now env) (c\<lparr>arq := a\<rparr>)"
    using s by (simp add: conn_control_def)
  ultimately show ?thesis using send_outbox_wf [OF assms, of a] by (simp add: same_recv_def)
qed

lemma Conn_Close_wf:
  assumes "conn_wf x fl c"
  shows "conn_wf x fl (Conn_Close x env c) \<and> conn_closed (Conn_Close x env c)
    \<and> onClose_calls (Conn_Close x env c) = 1"
proof (cases "close_done c")
  case True
  then show ?thesis using assms by (simp add: Conn_Close_def conn_wf_def)
next
  case False
  let ?c = "snd (conn_control x env (control_packet PacketFIN 0 0 []) c)"
  note c = conn_control_wf [OF assms, of env "control_packet PacketFIN 0 0 []"]
  let ?a = "ARQ_Close (arq ?c)"
  have "arq_wf x fl ?a" "arq_closed ?a" "outbox ?a = []" "fec_idle ?a"
    using c ARQ_Close_wf [of x fl "arq ?c"]
    by (auto simp: conn_wf_def ARQ_Close_def fec_idle_def)
  then have "arq_wf x fl (?a\<lparr>arq_codec := Codec_Close (arq_codec ?a)\<rparr>)"
    "arq_closed (?a\<lparr>arq_codec := Codec_Close (arq_codec ?a)\<rparr>)"
    "outbox (?a\<lparr>arq_codec := Codec_Close (arq_codec ?a)\<rparr>) = []"
    "fec_idle (?a\<lparr>arq_codec := Codec_Close (arq_codec ?a)\<rparr>)"
    by (auto intro!: codec_change_wf Codec_Close_wf simp: fec_idle_def)
       (simp add: arq_wf_def parts_wf_def)
  moreover have "onClose_calls ?c = 0" "length (recvCh ?c) \<le> 512"
    using c assms False by (auto simp: conn_wf_def same_conn_def)
  ultimately show ?thesis using False by (simp add: Conn_Close_def Let_def conn_wf_def)
qed

lemma HandlePacket_closed:
  assumes "HandlePacket x fl nonce clock order p a = Some a'"
  shows "arq_closed a' = arq_closed a"
proof (cases "arq_closed a")
  case True
  then show ?thesis using assms by (simp add: HandlePacket_def)
next
  case False
  let ?a = "a\<lparr> totalPacketsRecv := totalPacketsRecv a + 1,
      totalBytesRecv := totalBytesRecv a + of_nat (length (Payload p)) \<rparr>"
  consider "handleACK fl clock order p ?a = Some a'" | "Type p = PacketDATA"
    | "fec_receive (AddParity x (SeqNum p) (Flags p) (Payload p)) ?a = Some a'" | "a' = ?a"
    using assms False unfolding HandlePacket_def Let_def
    by (cases "Type p = PacketACK"; cases "Type p = PacketDATA"; cases "Type p = PacketFEC"; simp)
  then show ?thesis
  proof cases
    case 1
    obtain a1 a2 where h: "same_rest ?a a1" "adapt_fec fl (updatePacing fl a1) = Some a2"
      "a' = a2\<lparr>sendWindow := congestion_window fl a2\<rparr>"
      using handleACK_decompose [OF 1] by metis
    then show ?thesis using adapt_fec_fields(12) [OF h(2)] by (simp add: same_rest_def)
  next
    case 2
    obtain b where "same_recv a b" "same_recv (accept_data p b) a'"
      using HandlePacket_data_shape [OF 2 False assms] .
    then show ?thesis by (simp add: same_recv_def)
  next
    case 3
    then show ?thesis using fec_receive_frame [OF 3] by (simp add: same_recv_def)
  qed simp
qed

lemma handle_decoded_wf:
  assumes "float_rounding fl" "rs_valid x" "conn_wf x fl c"
  shows "\<exists>c'. handle_decoded x fl env p c = Some c' \<and> conn_wf x fl c'"
proof (cases "Type p = PacketDATA \<or> Type p = PacketACK")
  case True
  have wf: "arq_wf x fl (arq c)" "fec_idle (arq c)" using assms(3) by (simp_all add: conn_wf_def)
  obtain a where a: "HandlePacket x fl (env_nonce env) (env_clock env) (env_order env) p (arq c) = Some a"
    "arq_wf x fl a" using HandlePacket_total [OF assms(1,2) wf(1)] by blast
  have "fec_idle a" by (rule HandlePacket_idle [OF assms(2) wf _ a(1)]) (use True in auto)
  moreover have "arq_closed a = arq_closed (arq c)" by (rule HandlePacket_closed [OF a(1)])
  ultimately have "engine_ok x fl (arq c) a" using a(2) by (simp add: engine_ok_def)
  then show ?thesis using True a(1) send_outbox_wf [OF assms(3)] by (simp add: handle_decoded_def)
next
  case False
  have ctl: "conn_wf x fl (snd (conn_control x env q c))" for q
    using conn_control_wf [OF assms(3)] by blast
  have "Conn_Close x env (snd (conn_control x env q c)) = Conn_Close x env (snd (conn_control x env q c))
      \<and> conn_wf x fl (Conn_Close x env (snd (conn_control x env q c)))" for q
    using Conn_Close_wf [OF ctl] by blast
  then show ?thesis using False ctl assms(3) Conn_Close_wf [OF assms(3)]
    by (auto simp: handle_decoded_def Let_def)
qed

definition arrived :: "call_env \<Rightarrow> bytes \<Rightarrow> PacketCodec \<Rightarrow> MTPConn \<Rightarrow> MTPConn" where
  "arrived env raw k c = c\<lparr> BytesRecv := BytesRecv c + of_nat (length raw),
     PacketsRecv := PacketsRecv c + 1, lastRecv := env_now env, arq := (arq c)\<lparr>arq_codec := k\<rparr> \<rparr>"

lemma processIncoming_alt:
  "processIncoming x fl env raw c =
     (case Decode x (arq_codec (arq c)) raw of
        (Inl Panic, _) \<Rightarrow> None
      | (Inl (Err e), k) \<Rightarrow> Some (arrived env raw k c)
      | (Inr pkt, k) \<Rightarrow> handle_decoded x fl env pkt (arrived env raw k c))"
  by (simp add: processIncoming_def Let_def arrived_def split: prod.splits sum.splits failure.splits)

lemma arrived_wf:
  assumes "conn_wf x fl c" "Decode x (arq_codec (arq c)) raw = (r, k)"
  shows "conn_wf x fl (arrived env raw k c)"
proof -
  have "codec_wf x k" using Decode_wf [of x "arq_codec (arq c)" raw] assms
    by (simp add: conn_wf_def arq_wf_def parts_wf_def)
  then have "arq_wf x fl (arq (arrived env raw k c))"
    using assms(1) by (simp add: arrived_def conn_wf_def codec_change_wf)
  then show ?thesis using assms(1) by (simp add: arrived_def conn_wf_def fec_idle_def)
qed

lemma processIncoming_wf:
  assumes "float_rounding fl" "rs_valid x" "conn_wf x fl c"
  shows "(\<exists>c'. processIncoming x fl env raw c = Some c' \<and> conn_wf x fl c')
    \<or> processIncoming x fl env raw c = None \<and> fst (Decode x (arq_codec (arq c)) raw) = Inl Panic"
proof -
  obtain r k where d: "Decode x (arq_codec (arq c)) raw = (r, k)" by fastforce
  note wf = arrived_wf [OF assms(3) d]
  consider "r = Inl Panic" | e where "r = Inl (Err e)" | p where "r = Inr p"
    by (metis failure.exhaust sum.exhaust)
  then show ?thesis
  proof cases
    case (3 p)
    then show ?thesis using handle_decoded_wf [OF assms(1,2) wf] d by (simp add: processIncoming_alt)
  qed (use d wf in \<open>auto simp: processIncoming_alt\<close>)
qed

text \<open>What sending and resending leave alone.\<close>

definition same_frame :: "ARQEngine \<Rightarrow> ARQEngine \<Rightarrow> bool" where
  "same_frame b a \<longleftrightarrow> spawned b = spawned a \<and> fecDec b = fecDec a \<and> arq_closed b = arq_closed a"

lemma same_frame_trans: "same_frame b a \<Longrightarrow> same_frame c b \<Longrightarrow> same_frame c a"
  by (simp add: same_frame_def)

lemma fold_opt_frame:
  assumes "\<And>q u v. g q u = Some v \<Longrightarrow> same_frame v u" "fold_opt g qs a = Some b"
  shows "same_frame b a"
  by (rule fold_opt_inv [of "\<lambda>b. same_frame b a", OF _ assms(2)])
    (auto simp: same_frame_def dest!: assms(1))

lemma send_parity_frame: "send_parity x nonces q u = Some v \<Longrightarrow> same_frame v u \<and> pacer v = pacer u"
  by (auto simp: send_parity_def Let_def arq_encode_def transmit_def same_frame_def
      split: prod.splits sum.splits failure.splits)

lemma retransmit_one_frame: "retransmit_one x nonces now q u = Some v \<Longrightarrow> same_frame v u"
  by (auto simp: same_frame_def retransmit_one_def Let_def arq_encode_def transmit_def
      split: option.splits if_splits prod.splits sum.splits failure.splits)

lemma retransmit_tick_frame:
  assumes "retransmit_tick x fl nonces now order a = Some a'"
  shows "same_frame a' a"
proof -
  have "a' = a \<or> (\<exists>b w t. fold_opt (retransmit_one x nonces now) (timed_out now order a) a = Some b
      \<and> (a' = b \<or> a' = b\<lparr>ssthresh := w, sendWindow := w, rto := t\<rparr>))"
    using assms
    by (cases "fold_opt (retransmit_one x nonces now) (timed_out now order a) a")
       (auto simp: retransmit_tick_def Let_def simp del: fold_opt.simps split: if_splits)
  then show ?thesis
    using fold_opt_frame [of "retransmit_one x nonces now", OF retransmit_one_frame] by (auto simp: same_frame_def)
qed

lemma fec_flush_timer_frame:
  assumes "fec_flush_timer x nonces a = Some a'"
  shows "same_frame a' a"
proof -
  have "a' = a \<or> (\<exists>e ps. fold_opt (send_parity x nonces) ps (a\<lparr>fecEnc := e\<rparr>) = Some a')"
    using assms by (auto simp: fec_flush_timer_def split: option.splits)
  moreover have "same_frame b (a\<lparr>fecEnc := e\<rparr>)" if "fold_opt (send_parity x nonces) ps (a\<lparr>fecEnc := e\<rparr>) = Some b" for b e ps
    using fold_opt_frame [of "send_parity x nonces", OF _ that] send_parity_frame by blast
  ultimately show ?thesis by (auto simp: same_frame_def)
qed

lemma Send_wf:
  assumes "float_rounding fl" "rs_valid x" "arq_wf x fl a" "fec_idle a"
    and "sorted (lastRefill (pacer a) # map fst polls)"
    and "Send x fl nonce now nonces polls ok pl a = Some (r, a')"
  shows "engine_ok x fl a a'"
proof (cases "arq_closed a")
  case True
  then show ?thesis using assms by (auto simp: Send_def engine_ok_def)
next
  case False
  define keep where "keep = (\<lambda>b. arq_wf x fl b \<and> fec_idle b \<and> arq_closed b = arq_closed a \<and> pacer b = pacer a)"
  have eng: "keep b \<Longrightarrow> engine_ok x fl a b" for b by (simp add: keep_def engine_ok_def)
  obtain r1 b where b: "Send_enqueue x nonce now pl a = (r1, b)" by fastforce
  have "pacer b = pacer a \<and> arq_closed b = arq_closed a \<and> spawned b = spawned a \<and> fecDec b = fecDec a"
    using b by (auto simp: Send_enqueue_def Let_def arq_encode_def split: prod.splits sum.splits failure.splits)
  then have kb: "keep b" using Send_enqueue_wf [OF assms(3) b] assms(4) by (simp add: keep_def fec_idle_def)
  show ?thesis
  proof (cases r1)
    case (Inl e)
    then show ?thesis using assms(6) False b eng [OF kb] by (simp add: Send_def)
  next
    case (Inr sw)
    obtain seq w where sw: "sw = (seq, w)" by fastforce
    have par: "keep v" if "keep u" "send_parity x nonces q u = Some v" for q u v
      using that send_parity_wf [OF _ that(2)] send_parity_frame [OF that(2)]
      by (simp add: keep_def fec_idle_def same_frame_def)
    have kd: "keep d" if h: "Send_fec x nonces seq pl b = Some d" for d
    proof -
      obtain e e' ps where e: "fecEnc b = Some e" "AddDataPacket x seq pl e = Some (e', ps)"
        "fold_opt (send_parity x nonces) ps (b\<lparr>fecEnc := Some e'\<rparr>) = Some d"
        using h by (auto simp: Send_fec_def split: option.splits)
      have "fe_wf e" using fecEnc_some [of x fl b] kb e(1) by (simp add: keep_def)
      then have "fe_wf e'" using AddDataPacket_wf [OF assms(2), of e seq pl] e(2) by auto
      then have "keep (b\<lparr>fecEnc := Some e'\<rparr>)" using kb set_fecEnc_wf by (simp add: keep_def fec_idle_def)
      then show ?thesis by (rule fold_opt_inv [of keep, OF _ e(3)]) (rule par)
    qed
    show ?thesis
    proof (cases "Send_fec x nonces seq pl b")
      case None
      then show ?thesis using assms(6) False b Inr sw eng [OF kb] by (simp add: Send_def)
    next
      case (Some d)
      then have t: "Send_transmit fl polls ok w d = Some (r, a')"
        using assms(6) False b Inr sw by (simp add: Send_def)
      note kd = kd [OF Some]
      have "arq_wf x fl a'"
        by (rule Send_transmit_wf [OF assms(1) _ _ t]) (use kd assms(5) in \<open>auto simp: keep_def\<close>)
      moreover have "arq_closed a' = arq_closed d \<and> spawned a' = spawned d \<and> fecDec a' = fecDec d"
        using t by (auto simp: Send_transmit_def transmit_def Let_def split: option.splits)
      ultimately show ?thesis using kd by (simp add: keep_def engine_ok_def fec_idle_def)
    qed
  qed
qed

lemma background_ok:
  assumes "float_rounding fl" "rs_valid x" "digests_correct x" "arq_wf x fl a" "fec_idle a"
    and "arq_background x fl a a'"
  shows "engine_ok x fl a a'"
proof -
  have wf: "arq_wf x fl a'"
    using assms(6) engine_step_wf [OF assms(1-4)]
    by cases (blast intro: engine_step.intros)+
  have "fec_idle a' \<and> arq_closed a' = arq_closed a"
    using assms(6)
  proof cases
    case (bg_retransmit nonces now order)
    then show ?thesis using retransmit_tick_frame assms(5) by (simp add: fec_idle_def same_frame_def)
  next
    case (bg_ack_timer nonce order)
    then show ?thesis using sendACK_frame [of x nonce order "a\<lparr>delayedACKTimer := False, unackedRecv := 0\<rparr>" a']
        assms(5) by (simp add: ack_timer_def flushACK_def fec_idle_def same_recv_def)
  next
    case (bg_fec_timer nonces)
    then show ?thesis using fec_flush_timer_frame assms(5) by (simp add: fec_idle_def same_frame_def)
  next
    case (bg_fec_group d s)
    then show ?thesis using assms(5) group_timeout_quiet by (simp add: fec_idle_def)
  next
    case bg_enc_config
    then show ?thesis using assms(5) by (auto simp: enc_config_loop_def fec_idle_def split: option.splits list.splits)
  next
    case bg_dec_config
    have ch: "data_only (d\<lparr>fd_configCh := l\<rparr>) = data_only d" for d l by (simp add: data_only_def)
    show ?thesis using bg_dec_config assms(5)
      by (auto simp: dec_config_loop_def fec_idle_def ch dec_configure_quiet split: option.splits list.splits)
  next
    case bg_rotate
    then show ?thesis using assms(5) by (simp add: fec_idle_def)
  qed
  with wf show ?thesis by (simp add: engine_ok_def)
qed

lemma conn_wf_cong:
  assumes "arq d = arq c" "conn_closed d = conn_closed c" "close_done d = close_done c"
    "onClose_calls d = onClose_calls c" "length (recvCh d) \<le> length (recvCh c)"
  shows "conn_wf x fl c \<Longrightarrow> conn_wf x fl d"
  using assms by (simp add: conn_wf_def)

lemma Read_enter_fields:
  "Read_enter len now c = Some (r, c') \<Longrightarrow> \<exists>b. c' = c\<lparr>readBuf := b\<rparr>"
  by (cases c) (auto simp: Read_enter_def split: if_splits option.splits)

lemma Read_wait_fields:
  assumes "Read_wait len dl ch c = Some (r, c')"
  shows "\<exists>b. c' = c\<lparr>readBuf := b\<rparr> \<or> c' = c\<lparr>arq := snd (take_delivered (arq c)), readBuf := b\<rparr>"
  using assms
  by (cases c) (auto simp: Read_wait_def copyPayload_def Let_def
      split: read_choice.splits option.splits prod.splits if_splits)

lemma take_delivered_frame:
  "outbox (snd (take_delivered a)) = outbox a \<and> fec_idle (snd (take_delivered a)) = fec_idle a
    \<and> arq_closed (snd (take_delivered a)) = arq_closed a"
  by (auto simp: take_delivered_def fec_idle_def split: list.splits)

lemma conn_step_wf:
  assumes "float_rounding fl" "rs_valid x" "digests_correct x" "conn_wf x fl c" "conn_step x fl c c'"
  shows "conn_wf x fl c'"
  using assms(5)
proof cases
  case (cs_send env chunk r)
  have wf: "arq_wf x fl (arq c)" "fec_idle (arq c)" using assms(4) by (simp_all add: conn_wf_def)
  from cs_send(2) show ?thesis
  proof (cases rule: conn_sendD)
    case (sent a)
    then show ?thesis
      using send_outbox_wf [OF assms(4) Send_wf [OF assms(1,2) wf cs_send(1) sent(1)]] by simp
  qed (use assms(4) in simp)
next
  case (cs_datagram env raw)
  then show ?thesis using processIncoming_wf [OF assms(1,2,4), of env raw] by auto
next
  case (cs_dispatch data)
  then show ?thesis using assms(4) by (simp add: DispatchPacket_def conn_wf_def)
next
  case (cs_recv env)
  show ?thesis
  proof (cases "recvCh c")
    case Nil
    then show ?thesis using cs_recv assms(4) by (simp add: recvLoop_round_def)
  next
    case (Cons raw chan)
    have "conn_wf x fl (c\<lparr>recvCh := chan\<rparr>)"
      by (rule conn_wf_cong [OF _ _ _ _ _ assms(4)]) (simp_all add: Cons)
    then show ?thesis using processIncoming_wf [OF assms(1,2), of "c\<lparr>recvCh := chan\<rparr>" env raw] cs_recv Cons
      by (auto simp: recvLoop_round_def)
  qed
next
  case (cs_keepalive env millis)
  then show ?thesis using assms(4) conn_control_wf [OF assms(4)] Conn_Close_wf [OF assms(4)]
    by (simp add: keepalive_tick_def)
next
  case (cs_read_enter len now r)
  then show ?thesis using Read_enter_fields [OF cs_read_enter] assms(4) by (auto simp: conn_wf_def)
next
  case (cs_read_wait len dl ch r)
  then show ?thesis using Read_wait_fields [OF cs_read_wait] assms(4) take_delivered_wf [of x fl "arq c"]
      take_delivered_frame [of "arq c"] by (auto simp: conn_wf_def)
next
  case (cs_background a ok now)
  have wf: "arq_wf x fl (arq c)" "fec_idle (arq c)" using assms(4) by (simp_all add: conn_wf_def)
  show ?thesis
    unfolding cs_background(1) by (rule send_outbox_wf [OF assms(4) background_ok [OF assms(1-3) wf cs_background(2)]])
next
  case (cs_close env)
  then show ?thesis using Conn_Close_wf [OF assms(4)] by simp
qed (use assms(4) in \<open>simp_all add: SetDeadline_def SetReadDeadline_def SetWriteDeadline_def conn_wf_def\<close>)

definition conn_start :: "externals \<Rightarrow> (rat \<Rightarrow> rat) \<Rightarrow> MTPConn \<Rightarrow> bool" where
  "conn_start x fl c \<longleftrightarrow> float_rounding fl \<and> rs_valid x \<and> digests_correct x \<and> rs_new x 8 2
     \<and> (\<exists>now sock addr secret server compression sid.
          c = (newMTPConn x fl now sock addr secret server compression)\<lparr>sessionID := sid, workers := True\<rparr>)"

lemma newMTPConn_wf:
  assumes "float_rounding fl" "rs_valid x" "digests_correct x" "rs_new x 8 2"
  shows "conn_wf x fl (newMTPConn x fl now sock addr secret server compression)"
proof -
  have "codec_wf x (NewPacketCodecWithConfig x cfg)" for cfg by (rule NewPacketCodec_wf [OF assms(3)])
  from NewARQEngine_wf [OF assms(1) this assms(2,4)] show ?thesis
    using assms(4) by (simp add: conn_wf_def newMTPConn_def Let_def)
      (simp add: NewARQEngine_def fec_idle_def NewFecDecoder_def data_only_def Let_def NewFECConfig_def)
qed

interpretation connection: invariant_system "conn_start x fl" "conn_step x fl"
  "\<lambda>c. float_rounding fl \<and> rs_valid x \<and> digests_correct x \<and> conn_wf x fl c"
  for x fl
proof unfold_locales
  fix c c' :: MTPConn
  assume "conn_start x fl c"
  then show "float_rounding fl \<and> rs_valid x \<and> digests_correct x \<and> conn_wf x fl c"
    using newMTPConn_wf [of fl x] by (auto simp: conn_start_def conn_wf_def)
next
  fix c c' :: MTPConn
  assume "float_rounding fl \<and> rs_valid x \<and> digests_correct x \<and> conn_wf x fl c" "conn_step x fl c c'"
  then show "float_rounding fl \<and> rs_valid x \<and> digests_correct x \<and> conn_wf x fl c'"
    using conn_step_wf by blast
qed

subsection \<open>The stream a reader sees\<close>

definition pending :: "MTPConn \<Rightarrow> bytes" where
  "pending c = readBuf c @ concat (map Payload (delivered (arq c)))"

lemma Read_stream:
  assumes "Read len now ch c = Some (r, c')"
  shows "(case r of Inr bs \<Rightarrow> bs @ pending c' = pending c \<and> length bs \<le> len
         \<and> (bs = [] \<longrightarrow> len = 0 \<or> (\<exists>p\<in>set (delivered (arq c)). Payload p = []))
       | Inl e \<Rightarrow> c' = c)"
proof -
  consider "Read_enter len now c = Some (r, c')"
    | "Read_enter len now c = None" "Read_wait len (readDeadline c) ch c = Some (r, c')"
    using assms by (auto simp: Read_def split: option.splits)
  then show ?thesis
  proof cases
    case 1
    then show ?thesis by (auto simp: Read_enter_def pending_def split: if_splits option.splits)
  next
    case 2
    have "readBuf c = []" using 2(1) by (auto simp: Read_enter_def split: if_splits)
    with 2(2) show ?thesis
      by (cases "delivered (arq c)")
         (auto simp: Read_wait_def take_delivered_def copyPayload_def Let_def pending_def
           split: read_choice.splits if_splits)
  qed
qed

text \<open>Datagrams and reads, in the order they happen; what was read so far is collected.\<close>

datatype conn_event = Datagram call_env bytes | ReadCall nat int read_choice

fun conn_event_step :: "externals \<Rightarrow> (rat \<Rightarrow> rat) \<Rightarrow> MTPConn \<times> bytes \<Rightarrow> conn_event \<Rightarrow> MTPConn \<times> bytes" where
  "conn_event_step x fl (c, got) (Datagram env raw) =
     (case processIncoming x fl env raw c of Some c' \<Rightarrow> (c', got) | None \<Rightarrow> (c, got))"
| "conn_event_step x fl (c, got) (ReadCall len now ch) =
     (case Read len now ch c of Some (Inr bs, c') \<Rightarrow> (c', got @ bs) | _ \<Rightarrow> (c, got))"

text \<open>What no peer of \<open>k\<close> accepts.\<close>

definition not_ours :: "externals \<Rightarrow> PacketCodec \<Rightarrow> bytes \<Rightarrow> bool" where
  "not_ours x k w \<longleftrightarrow> (\<forall>d. codec_wf x d \<and> codec_peer k d \<longrightarrow> (\<exists>e. fst (Decode x d w) = Inl (Err e)))"

definition frame_ok :: "externals \<Rightarrow> PacketCodec \<Rightarrow> bytes list \<Rightarrow> bytes \<Rightarrow> bool" where
  "frame_ok x k chunks w \<longleftrightarrow> not_ours x k w \<or> parity_frame x k w
     \<or> (\<exists>i<length chunks. data_frame x k (of_nat i) (chunks ! i) w)"

definition stream_inv :: "externals \<Rightarrow> (rat \<Rightarrow> rat) \<Rightarrow> PacketCodec \<Rightarrow> bytes list \<Rightarrow> MTPConn \<times> bytes \<Rightarrow> bool" where
  "stream_inv x fl k chunks s \<longleftrightarrow> (case s of (c, got) \<Rightarrow>
     conn_wf x fl c \<and> \<not> conn_closed c \<and> codec_peer k (arq_codec (arq c))
     \<and> length chunks \<le> deliverBufSize (arq c) \<and> length chunks < 2 ^ 32
     \<and> received_set (arq c) \<subseteq> {..<length chunks}
     \<and> (\<exists>taken. in_order (\<lambda>i. chunks ! i) taken True (arq c) \<and> concat taken = got @ readBuf c))"

lemma same_recv_outbox: "same_recv a (b\<lparr>outbox := ws\<rparr>) = same_recv a b"
  by (simp add: same_recv_def)

lemma stream_inv_recv:
  assumes "stream_inv x fl k chunks (c, got)" "conn_wf x fl d" "same_recv (arq c) (arq d)"
    and "conn_closed d = conn_closed c" "readBuf d = readBuf c" "codec_peer k (arq_codec (arq d))"
  shows "stream_inv x fl k chunks (d, got) \<and> received_set (arq d) = received_set (arq c)"
  using assms same_recv_in_order [OF assms(3)] by (auto simp: stream_inv_def)

lemma arrived_simps [simp]:
  "conn_closed (arrived env raw k c) = conn_closed c" "readBuf (arrived env raw k c) = readBuf c"
  "arq (arrived env raw k c) = (arq c)\<lparr>arq_codec := k\<rparr>"
  by (simp_all add: arrived_def)

lemma of_nat_bound: "i < n \<Longrightarrow> n < 2 ^ 32 \<Longrightarrow> unat (of_nat i :: u32) = i \<and> (of_nat i :: u32) \<noteq> - 1"
proof -
  assume i: "i < n" "n < 2 ^ 32"
  then have u: "unat (of_nat i :: u32) = i" "unat (of_nat (Suc i) :: u32) = Suc i"
    by (intro unat_of_nat_small; simp)+
  have "(of_nat (Suc i) :: u32) \<noteq> 0"
  proof
    assume "(of_nat (Suc i) :: u32) = 0"
    then have "unat (of_nat (Suc i) :: u32) = 0" by (simp only: unat_0)
    with u(2) show False by (simp only:)
  qed
  then have "(of_nat i :: u32) \<noteq> - 1" by auto
  with u(1) show ?thesis by simp
qed

lemma codec_peer_sym: "codec_peer c d \<longleftrightarrow> codec_peer d c"
  by (auto simp: codec_peer_def)

lemma HandlePacket_peer:
  assumes "HandlePacket x fl nonce clock order p a = Some a'" "Type p = PacketDATA" "codec_peer k (arq_codec a)"
  shows "codec_peer k (arq_codec a')"
proof (cases "arq_closed a")
  case True
  then show ?thesis using assms by (simp add: HandlePacket_def)
next
  case False
  obtain b where b: "fec_receive (AddData x (SeqNum p) (Payload p)) (a\<lparr> totalPacketsRecv :=
      totalPacketsRecv a + 1, totalBytesRecv := totalBytesRecv a + of_nat (length (Payload p)) \<rparr>) = Some b"
    "handleDATA x nonce order p b = Some a'"
    using assms(1,2) False by (auto simp: HandlePacket_def split: option.splits)
  have cb: "arq_codec b = arq_codec a" using fec_receive_frame [OF b(1)] by simp
  let ?d = "(accept_data p b)\<lparr>unackedRecv := unackedRecv b + 1\<rparr>"
  have cd: "arq_codec (accept_data p b) = arq_codec a" using accept_data_same [of b p] cb by simp
  have enc: "codec_peer k (snd (snd (Encode x nonce c q)))" if "codec_peer k c" for c q
    using Encode_peer [of c k x nonce q] that by (simp add: codec_peer_sym)
  have "codec_peer k (arq_codec a')" if h: "flushACK x nonce order ?d = Some a'"
  proof -
    let ?e = "?d\<lparr>delayedACKTimer := False, unackedRecv := 0\<rparr>"
    obtain r q c where e: "Encode x nonce (arq_codec ?e) (ack_packet order ?e) = (r, q, c)"
      by (metis prod_cases3)
    have "arq_codec a' = c"
      using h e by (auto simp: flushACK_def sendACK_def arq_encode_def transmit_def
          split: sum.splits failure.splits)
    then show ?thesis using enc [of "arq_codec ?e" "ack_packet order ?e"] assms(3) cd e by simp
  qed
  then show ?thesis using b(2) cd assms(3)
    by (auto simp: handleDATA_alt Let_def split: if_splits)
qed

lemma data_arrives:
  assumes "float_rounding fl" "rs_valid x" "stream_inv x fl k chunks (c, got)" "i < length chunks"
    and "data_frame x k (of_nat i) (chunks ! i) w"
    and "processIncoming x fl env w c = Some c'"
  shows "stream_inv x fl k chunks (c', got) \<and> received_set (arq c') = insert i (received_set (arq c))"
proof -
  obtain r q where d: "Decode x (arq_codec (arq c)) w = (r, q)" by fastforce
  have inv: "conn_wf x fl c" "\<not> conn_closed c" "codec_peer k (arq_codec (arq c))"
    "length chunks \<le> deliverBufSize (arq c)" "length chunks < 2 ^ 32"
    "received_set (arq c) \<subseteq> {..<length chunks}"
    using assms(3) by (simp_all add: stream_inv_def)
  obtain taken where tk: "in_order (\<lambda>i. chunks ! i) taken True (arq c)" "concat taken = got @ readBuf c"
    using assms(3) by (auto simp: stream_inv_def)
  have cw: "codec_wf x (arq_codec (arq c))" using inv(1) by (simp add: conn_wf_def arq_wf_def parts_wf_def)
  obtain p where p: "r = Inr p" "Type p = PacketDATA" "SeqNum p = of_nat i" "Payload p = chunks ! i"
    using assms(5) cw inv(3) d by (fastforce simp: data_frame_def)
  note b = of_nat_bound [OF assms(4) inv(5)]
  let ?c = "arrived env w q c"
  have peer: "codec_peer k (arq_codec (arq ?c))" using Decode_peer [OF inv(3), of x w] d by simp
  have wf: "conn_wf x fl ?c" by (rule arrived_wf [OF inv(1) d])
  have s1: "stream_inv x fl k chunks (?c, got) \<and> received_set (arq ?c) = received_set (arq c)"
    by (rule stream_inv_recv [OF assms(3) wf]) (use peer in \<open>simp_all add: same_recv_def\<close>)
  obtain a where a: "HandlePacket x fl (env_nonce env) (env_clock env) (env_order env) p (arq ?c) = Some a"
    "c' = send_outbox (env_write_ok env) (env_now env) (?c\<lparr>arq := a\<rparr>)"
    using assms(6) d p by (auto simp: processIncoming_alt handle_decoded_def split: option.splits)
  have "conn_wf x fl c'" using processIncoming_wf [OF assms(1,2) inv(1), of env w] assms(6) by auto
  have io: "in_order (\<lambda>i. chunks ! i) taken True (arq ?c)"
    using tk(1) same_recv_in_order(1) [of "arq c" "arq ?c"] by (simp add: same_recv_def)
  have h: "in_order (\<lambda>i. chunks ! i) taken True a
      \<and> received_set a = insert (unat (SeqNum p)) (received_set (arq ?c))
      \<and> deliverBufSize a = deliverBufSize (arq ?c) \<and> \<not> arq_closed a"
    by (rule HandlePacket_in_order [OF io p(2) _ _ _ _ a(1)])
       (use inv p b assms(4) s1 in \<open>auto simp: conn_wf_def\<close>)
  have out: "received_set (a\<lparr>outbox := []\<rparr>) = received_set a"
    "in_order P tk True (a\<lparr>outbox := []\<rparr>) = in_order P tk True a" for P tk
    by (simp_all add: received_set_def in_order_def log_ok_def)
  have fields: "conn_closed c' = conn_closed c" "readBuf c' = readBuf c"
    using same_connD [OF send_outbox_same [of ?c "env_write_ok env" "env_now env" a]] a(2) by simp_all
  have "codec_peer k (arq_codec a)" by (rule HandlePacket_peer [OF a(1) p(2) peer])
  then show ?thesis
    using \<open>conn_wf x fl c'\<close> inv h out fields tk(2) p(3) b assms(4) s1 a(2)
    by (auto simp: stream_inv_def)
qed

lemma quiet_arrives:
  assumes "stream_inv x fl k chunks (c, got)" "not_ours x k w \<or> parity_frame x k w"
  shows "\<exists>c'. processIncoming x fl env w c = Some c' \<and> stream_inv x fl k chunks (c', got)
    \<and> received_set (arq c') = received_set (arq c)"
proof -
  obtain r q where d: "Decode x (arq_codec (arq c)) w = (r, q)" by fastforce
  have inv: "conn_wf x fl c" "codec_peer k (arq_codec (arq c))"
    using assms(1) by (simp_all add: stream_inv_def)
  have cw: "codec_wf x (arq_codec (arq c))" using inv(1) by (simp add: conn_wf_def arq_wf_def parts_wf_def)
  have "(\<exists>e. r = Inl (Err e)) \<or> (\<exists>p. r = Inr p \<and> Type p = PacketFEC)"
    using assms(2) cw inv(2) d unfolding not_ours_def parity_frame_def by (metis fst_conv)
  then have "processIncoming x fl env w c = Some (arrived env w q c)"
    using d by (auto simp: processIncoming_alt handle_decoded_def)
  moreover have "codec_peer k (arq_codec (arq (arrived env w q c)))"
    using Decode_peer [OF inv(2), of x w] d by simp
  then have "stream_inv x fl k chunks (arrived env w q c, got)
      \<and> received_set (arq (arrived env w q c)) = received_set (arq c)"
    by (intro stream_inv_recv [OF assms(1) arrived_wf [OF inv(1) d]]) (simp_all add: same_recv_def)
  ultimately show ?thesis by blast
qed

lemma read_keeps:
  assumes "stream_inv x fl k chunks (c, got)" "Read len now ch c = Some (Inr bs, c')"
  shows "stream_inv x fl k chunks (c', got @ bs) \<and> received_set (arq c') = received_set (arq c)"
proof -
  obtain taken where tk: "in_order (\<lambda>i. chunks ! i) taken True (arq c)" "concat taken = got @ readBuf c"
    using assms(1) by (auto simp: stream_inv_def)
  have inv: "conn_wf x fl c" "\<not> conn_closed c" using assms(1) by (simp_all add: stream_inv_def)
  consider "Read_enter len now c = Some (Inr bs, c')"
    | "Read_enter len now c = None" "Read_wait len (readDeadline c) ch c = Some (Inr bs, c')"
    using assms(2) by (auto simp: Read_def split: option.splits)
  then show ?thesis
  proof cases
    case 1
    then have c': "c' = c\<lparr>readBuf := drop len (readBuf c)\<rparr>" "bs = take len (readBuf c)"
      by (auto simp: Read_enter_def split: if_splits)
    then have "concat taken = (got @ bs) @ readBuf c'" "conn_wf x fl c'"
      using tk(2) inv(1) by (simp_all add: conn_wf_def)
    then show ?thesis using assms(1) tk(1) c'(1) by (auto simp: stream_inv_def)
  next
    case 2
    have e: "readBuf c = []" using 2(1) by (auto simp: Read_enter_def split: if_splits)
    obtain p ps where p: "delivered (arq c) = p # ps" "bs = take len (Payload p)"
      "c' = c\<lparr>arq := (arq c)\<lparr>delivered := ps\<rparr>, readBuf := drop len (Payload p)\<rparr>"
      using 2(2) e by (cases "delivered (arq c)"; cases c)
        (auto simp: Read_wait_def take_delivered_def copyPayload_def Let_def
          split: read_choice.splits if_splits)
    have "conn_wf x fl c'"
      using inv(1) take_delivered_wf [of x fl "arq c"] p(1)
      by (simp add: p(3) conn_wf_def take_delivered_def fec_idle_def)
    moreover have "in_order (\<lambda>i. chunks ! i) (taken @ [Payload p]) True (arq c')"
      using tk(1) p(1) by (simp add: p(3) in_order_def log_ok_def)
    moreover have "concat (taken @ [Payload p]) = (got @ bs) @ readBuf c'"
      using tk(2) e by (simp add: p(2,3))
    moreover have "received_set (arq c') = received_set (arq c)" by (simp add: p(3) received_set_def)
    ultimately show ?thesis using assms(1) by (auto simp: stream_inv_def p(3))
  qed
qed

definition event_ok :: "externals \<Rightarrow> PacketCodec \<Rightarrow> bytes list \<Rightarrow> conn_event \<Rightarrow> bool" where
  "event_ok x k chunks e \<longleftrightarrow> (case e of Datagram env w \<Rightarrow> frame_ok x k chunks w | ReadCall _ _ _ \<Rightarrow> True)"

lemma event_keeps:
  assumes "float_rounding fl" "rs_valid x" "stream_inv x fl k chunks s" "event_ok x k chunks e"
  shows "stream_inv x fl k chunks (conn_event_step x fl s e)
    \<and> received_set (arq (fst s)) \<subseteq> received_set (arq (fst (conn_event_step x fl s e)))
    \<and> (\<forall>env w i. e = Datagram env w \<and> i < length chunks \<and> data_frame x k (of_nat i) (chunks ! i) w \<longrightarrow>
         i \<in> received_set (arq (fst (conn_event_step x fl s e))))"
proof -
  obtain c got where s: "s = (c, got)" by fastforce
  note si = assms(3) [unfolded s]
  show ?thesis
  proof (cases e)
    case (Datagram env w)
    have dat: "\<exists>c'. processIncoming x fl env w c = Some c' \<and> stream_inv x fl k chunks (c', got)
        \<and> received_set (arq c') = insert i (received_set (arq c))"
      if h: "i < length chunks" "data_frame x k (of_nat i) (chunks ! i) w" for i
    proof -
      have wf: "conn_wf x fl c" "codec_wf x (arq_codec (arq c))" "codec_peer k (arq_codec (arq c))"
        using si by (simp_all add: stream_inv_def conn_wf_def arq_wf_def parts_wf_def)
      obtain p where "fst (Decode x (arq_codec (arq c)) w) = Inr p"
        using h(2) wf by (auto simp: data_frame_def)
      then obtain c' where "processIncoming x fl env w c = Some c'"
        using processIncoming_wf [OF assms(1,2) wf(1), of env w] by auto
      then show ?thesis using data_arrives [OF assms(1,2) si h] by blast
    qed
    show ?thesis
    proof (cases "\<exists>i<length chunks. data_frame x k (of_nat i) (chunks ! i) w")
      case True
      then obtain i where "i < length chunks" "data_frame x k (of_nat i) (chunks ! i) w" by blast
      from dat [OF this] obtain c' where c': "processIncoming x fl env w c = Some c'"
        "stream_inv x fl k chunks (c', got)" "received_set (arq c) \<subseteq> received_set (arq c')" by blast
      then show ?thesis using s Datagram dat by auto
    next
      case False
      then have "not_ours x k w \<or> parity_frame x k w"
        using assms(4) Datagram by (auto simp: event_ok_def frame_ok_def)
      from quiet_arrives [OF si this, of env] show ?thesis using s Datagram False by auto
    qed
  next
    case (ReadCall len now ch)
    show ?thesis
    proof (cases "\<exists>bs c'. Read len now ch c = Some (Inr bs, c')")
      case True
      then show ?thesis using read_keeps [OF si] s ReadCall by auto
    next
      case False
      then have "conn_event_step x fl s e = s"
        using s ReadCall by (auto split: option.splits sum.splits)
      then show ?thesis using assms(3) ReadCall by simp
    qed
  qed
qed

lemma events_keep:
  assumes "float_rounding fl" "rs_valid x" "stream_inv x fl k chunks s" "list_all (event_ok x k chunks) es"
  shows "stream_inv x fl k chunks (foldl (conn_event_step x fl) s es)
    \<and> received_set (arq (fst s)) \<subseteq> received_set (arq (fst (foldl (conn_event_step x fl) s es)))
    \<and> (\<forall>env w i. Datagram env w \<in> set es \<and> i < length chunks \<and> data_frame x k (of_nat i) (chunks ! i) w \<longrightarrow>
         i \<in> received_set (arq (fst (foldl (conn_event_step x fl) s es))))"
  using assms(3,4)
proof (induction es arbitrary: s)
  case (Cons e es)
  have e: "event_ok x k chunks e" "list_all (event_ok x k chunks) es" using Cons.prems(2) by simp_all
  note 1 = event_keeps [OF assms(1,2) Cons.prems(1) e(1)]
  note 2 = Cons.IH [OF conjunct1 [OF 1] e(2)]
  show ?case using 1 2 by (auto 0 4)
qed simp

lemma stream_inv_result:
  assumes "stream_inv x fl k chunks (c, got)"
  shows "\<exists>n\<le>length chunks. got @ pending c = concat (take n chunks)
    \<and> (received_set (arq c) = {..<length chunks} \<longrightarrow> n = length chunks)"
proof -
  obtain taken where tk: "in_order (\<lambda>i. chunks ! i) taken True (arq c)" "concat taken = got @ readBuf c"
    using assms by (auto simp: stream_inv_def)
  let ?n = "unat (recvNext (arq c))"
  have l: "taken @ map Payload (delivered (arq c)) = map (\<lambda>i. chunks ! i) [0..<?n]"
    using tk(1) by (simp add: in_order_def log_ok_def)
  note least = in_order_least [OF tk(1)]
  have sub: "received_set (arq c) \<subseteq> {..<length chunks}" using assms by (simp add: stream_inv_def)
  have n: "?n \<le> length chunks" using least(2) sub by (metis lessThan_subset_iff subset_trans)
  have "map (\<lambda>i. chunks ! i) [0..<?n] = take ?n chunks" using n by (intro nth_equalityI) auto
  moreover have "got @ pending c = concat (taken @ map Payload (delivered (arq c)))"
    using tk(2) by (simp add: pending_def)
  moreover have "?n = length chunks" if "received_set (arq c) = {..<length chunks}"
    using least(1) n that by auto
  ultimately show ?thesis using l n by metis
qed

lemma new_conn_stream_inv:
  assumes "float_rounding fl" "rs_valid x" "digests_correct x" "rs_new x 8 2"
    and "length chunks \<le> 4096"
    and "c = (newMTPConn x fl now sock addr secret server compression)\<lparr>sessionID := sid, workers := w\<rparr>"
  shows "stream_inv x fl (arq_codec (arq c)) chunks (c, [])"
proof -
  have wf: "conn_wf x fl c" using newMTPConn_wf [OF assms(1-4)] by (simp add: assms(6) conn_wf_def)
  have "\<not> conn_closed c" "readBuf c = []" by (simp_all add: assms(6) newMTPConn_def Let_def)
  moreover obtain q where "arq c = NewARQEngine x fl now q 4096"
    by (simp add: assms(6) newMTPConn_def Let_def)
  ultimately show ?thesis using wf assms(5)
    by (auto simp: stream_inv_def NewARQEngine_def received_set_def in_order_def log_ok_def
        intro!: exI [of _ "[]"])
qed

lemma new_conn_ready:
  assumes "digests_correct x" "rs_valid x" "rs_new x 8 2"
    and "c = (newMTPConn x fl now sock addr secret server compression)\<lparr>sessionID := sid, workers := w\<rparr>"
  shows "conn_ready x (arq_codec (arq c)) c \<and> sendSeq (arq c) = 0 \<and> written c = []"
proof -
  obtain e where e: "NewFecEncoder x (Some NewFECConfig) = Some e"
    using assms(3) by (simp add: NewFecEncoder_def NewFECConfig_def Let_def)
  then have "fec_ready e" using NewFecEncoder_wf [OF assms(2) e]
    by (auto simp: fec_ready_def NewFecEncoder_def NewFECConfig_def Let_def split: if_splits)
  then show ?thesis using e NewPacketCodec_wf [OF assms(1)]
    by (simp add: assms(4) newMTPConn_def Let_def conn_ready_def sender_ready_def NewARQEngine_def)
qed

subsection \<open>Handshake\<close>

text \<open>What a reply to a handshake is to the client, whose codec is \<open>d\<close>.\<close>

definition is_synack :: "externals \<Rightarrow> PacketCodec \<Rightarrow> net_read \<Rightarrow> Packet \<Rightarrow> bool" where
  "is_synack x d reply p \<longleftrightarrow>
     (\<exists>raw. reply = NetData raw \<and> fst (Decode x d raw) = Inr p \<and> Type p = PacketSYNACK)"

definition ignored_reply :: "externals \<Rightarrow> PacketCodec \<Rightarrow> net_read \<Rightarrow> bool" where
  "ignored_reply x d reply \<longleftrightarrow> reply = NetTimeout
     \<or> (\<exists>raw. reply = NetData raw \<and> ((\<exists>e. fst (Decode x d raw) = Inl (Err e))
          \<or> (\<exists>p. fst (Decode x d raw) = Inr p \<and> Type p \<noteq> PacketSYNACK)))"

lemma set_arq_same: "arq c = a \<Longrightarrow> c\<lparr>arq := a\<rparr> = c"
  by (cases c) simp

lemma set_codec_same [simp]: "a\<lparr>arq_codec := arq_codec a\<rparr> = a"
  by (cases a) simp

lemma sendRaw_opened:
  assumes "\<not> conn_closed c"
  obtains d where "sendRaw True now w c = (Inr (), d)" "arq d = arq c" "conn_closed d = conn_closed c"
    "udpConn d = udpConn c" "remoteAddr d = remoteAddr c" "closed_sockets d = closed_sockets c"
    "written d = written c @ addressed c [w]"
  using assms by (simp add: sendRaw_def addressed_def)

text \<open>Without compression the client's codec does not change while it waits; the datagram is
  sent once more for every reply that is passed over, and the first SYN-ACK ends the wait.\<close>

lemma handshake_passes_over:
  assumes "\<not> compression_on (arq_codec (arq c))" "\<not> conn_closed c"
    and "\<forall>att\<in>set atts. at_write_ok att \<and> ignored_reply x (arq_codec (arq c)) (at_response att)"
  shows "\<exists>d. handshake_loop x w (atts @ rest) c = handshake_loop x w rest d
    \<and> arq d = arq c \<and> conn_closed d = conn_closed c \<and> udpConn d = udpConn c
    \<and> remoteAddr d = remoteAddr c \<and> closed_sockets d = closed_sockets c
    \<and> written d = written c @ addressed c (replicate (length atts) w)"
  using assms
proof (induction atts arbitrary: c)
  case Nil
  then show ?case by (auto simp: addressed_def)
next
  case (Cons att atts)
  have w: "at_write_ok att" "ignored_reply x (arq_codec (arq c)) (at_response att)"
    using Cons.prems(3) by simp_all
  obtain e where e: "sendRaw True (at_now att) w c = (Inr (), e)" "arq e = arq c"
    "conn_closed e = conn_closed c" "udpConn e = udpConn c" "remoteAddr e = remoteAddr c"
    "closed_sockets e = closed_sockets c" "written e = written c @ addressed c [w]"
    using sendRaw_opened [OF Cons.prems(2)] .
  have same: "snd (Decode x (arq_codec (arq c)) raw) = arq_codec (arq c)" for raw
    using Decode_off [OF Cons.prems(1)] by blast
  have step: "handshake_loop x w ((att # atts) @ rest) c = handshake_loop x w (atts @ rest) e"
  proof (cases "at_response att")
    case (NetData raw)
    obtain r where d: "Decode x (arq_codec (arq c)) raw = (r, arq_codec (arq c))"
      using same [of raw] by (metis prod.collapse)
    then have "(\<exists>e. r = Inl (Err e)) \<or> (\<exists>p. r = Inr p \<and> Type p \<noteq> PacketSYNACK)"
      using w(2) NetData by (auto simp: ignored_reply_def)
    then show ?thesis using w(1) NetData d e(1,2) by (auto simp: Let_def set_arq_same [OF e(2)])
  qed (use w e in \<open>auto simp: ignored_reply_def\<close>)
  have "\<exists>d. handshake_loop x w (atts @ rest) e = handshake_loop x w rest d
    \<and> arq d = arq e \<and> conn_closed d = conn_closed e \<and> udpConn d = udpConn e
    \<and> remoteAddr d = remoteAddr e \<and> closed_sockets d = closed_sockets e
    \<and> written d = written e @ addressed e (replicate (length atts) w)"
    by (rule Cons.IH) (use Cons.prems e in auto)
  then show ?case using e(2-) unfolding step by (auto simp: addressed_def)
qed

lemma handshake_ends:
  assumes "\<not> compression_on (arq_codec (arq c))" "\<not> conn_closed c" "at_write_ok att"
    and "is_synack x (arq_codec (arq c)) (at_response att) p"
  shows "\<exists>d. handshake_loop x w (att # atts) c = (Inr (), d\<lparr>sessionID := string_of_bytes (Payload p)\<rparr>)
    \<and> arq d = arq c \<and> conn_closed d = conn_closed c \<and> closed_sockets d = closed_sockets c
    \<and> written d = written c @ addressed c [w]"
proof -
  obtain e where e: "sendRaw True (at_now att) w c = (Inr (), e)" "arq e = arq c"
    "conn_closed e = conn_closed c" "closed_sockets e = closed_sockets c" "written e = written c @ addressed c [w]"
    using sendRaw_opened [OF assms(2)] by metis
  obtain raw where raw: "at_response att = NetData raw" "fst (Decode x (arq_codec (arq c)) raw) = Inr p"
    "Type p = PacketSYNACK" using assms(4) by (auto simp: is_synack_def)
  have d: "Decode x (arq_codec (arq c)) raw = (Inr p, arq_codec (arq c))"
    using raw(2) Decode_off [OF assms(1), of x raw] by (metis prod.collapse)
  show ?thesis using assms(3) raw d e by (auto simp: Let_def set_arq_same [OF e(2)])
qed

lemma encode_syn:
  assumes "aead_correct x" "codec_wf x (arq_codec a)" "\<not> compression_on (arq_codec a)"
    and "length n = 24" "length s \<le> 2000"
  shows "\<exists>w. arq_encode x (Some n) ((control_packet PacketSYN 0 0 (bytes_of_string s))\<lparr>Flags := f\<rparr>) a
       = (Inr w, (control_packet PacketSYN 0 0 (bytes_of_string s))\<lparr>Flags := f\<rparr>, a)"
proof -
  let ?p = "(control_packet PacketSYN 0 0 (bytes_of_string s))\<lparr>Flags := f\<rparr>"
  have "length (Payload ?p) + length (sack_part ?p) \<le> 2036"
    using assms(5) by (simp add: control_packet_def sack_part_def)
  from Encode_off_total [OF assms(1,2,3,4) this]
  obtain w where "Encode x (Some n) (arq_codec a) ?p = (Inr w, ?p, arq_codec a)" by blast
  then show ?thesis by (cases a) (simp add: arq_encode_def)
qed

lemma new_conn_codec:
  "digests_correct x \<Longrightarrow> codec_wf x (arq_codec (arq (newMTPConn x fl now sock addr secret server compression)))"
  "\<not> compression_on (arq_codec (arq (newMTPConn x fl now sock addr secret server None)))"
  using NewPacketCodec_wf [of x]
  by (simp add: newMTPConn_def NewARQEngine_def Let_def)
    (simp add: newMTPConn_def NewARQEngine_def Let_def NewPacketCodecWithConfig_def compression_on_def)

subsection \<open>Write returns\<close>

lemma length_update_le: "length (AList.update k v m) \<le> Suc (length m)"
  by (induction m) auto

definition same_window :: "ARQEngine \<Rightarrow> ARQEngine \<Rightarrow> bool" where
  "same_window a b \<longleftrightarrow> sendWindow b = sendWindow a \<and> length (unacked b) \<le> Suc (length (unacked a))"

lemma Send_window:
  assumes "Send x fl nonce now nonces polls ok pl a = Some (r, a')"
  shows "same_window a a'"
proof (cases "arq_closed a")
  case True
  then show ?thesis using assms by (auto simp: Send_def same_window_def)
next
  case False
  obtain r1 b where b: "Send_enqueue x nonce now pl a = (r1, b)" by fastforce
  have wb: "same_window a b"
    using b length_update_le
    by (auto simp: same_window_def Send_enqueue_def Let_def arq_encode_def
        split: prod.splits sum.splits failure.splits)
  define keep where "keep = (\<lambda>d :: ARQEngine. sendWindow d = sendWindow b \<and> unacked d = unacked b)"
  have par: "keep v" if "keep u" "send_parity x nonces q u = Some v" for q u v
    using that by (auto simp: keep_def send_parity_def Let_def arq_encode_def transmit_def
        split: prod.splits sum.splits failure.splits)
  have k0: "keep (b\<lparr>fecEnc := e\<rparr>)" for e by (simp add: keep_def)
  have kd: "keep d" if h: "Send_fec x nonces s pl b = Some d" for s d
  proof -
    obtain e ps where "fold_opt (send_parity x nonces) ps (b\<lparr>fecEnc := e\<rparr>) = Some d"
      using h by (auto simp: Send_fec_def split: option.splits)
    then show ?thesis by (rule fold_opt_inv [of keep, OF k0]) (rule par)
  qed
  have "a' = b \<or> (\<exists>d s. Send_fec x nonces s pl b = Some d \<and> sendWindow a' = sendWindow d \<and> unacked a' = unacked d)"
    using assms False b
    by (auto simp: Send_def Send_transmit_def transmit_def Let_def split: sum.splits option.splits prod.splits)
  then show ?thesis using wb kd by (auto simp: keep_def same_window_def)
qed

lemma conn_send_returns:
  assumes "\<And>p. Wait fl (env_polls env) p \<noteq> None"
    and "int (length (unacked (arq c))) < sendWindow (arq c)"
  shows "\<exists>r d. conn_send x fl env chunk c = Some (r, d)
    \<and> sendWindow (arq d) = sendWindow (arq c) \<and> length (unacked (arq d)) \<le> Suc (length (unacked (arq c)))"
proof -
  have w: "\<exists>r b. Send_transmit fl (env_polls env) ok w a = Some (r, b)" for ok w a
    using assms(1) [of "pacer a"] by (auto simp: Send_transmit_def Let_def)
  have "Send x fl (env_nonce env) (env_now env) (env_parity_nonces env) (env_polls env)
      (env_write_ok env \<and> \<not> conn_closed c) chunk (arq c) \<noteq> None"
    by (auto simp: Send_def w split: sum.splits option.splits prod.splits)
  then obtain r a where a: "Send x fl (env_nonce env) (env_now env) (env_parity_nonces env) (env_polls env)
      (env_write_ok env \<and> \<not> conn_closed c) chunk (arq c) = Some (r, a)" by auto
  show ?thesis
  proof (cases "arq_closed (arq c)")
    case True
    then have "Send_wait [(0, arq c)] = Refused" by simp
    then show ?thesis unfolding conn_send_def by (simp only: send_wait.case) auto
  next
    case False
    then have "Send_wait [(0, arq c)] = Proceed" using assms(2) by simp
    then have "conn_send x fl env chunk c
        = Some (r, send_outbox (env_write_ok env) (env_now env) (c\<lparr>arq := a\<rparr>))"
      unfolding conn_send_def by (simp only: send_wait.case a option.case prod.case)
    then show ?thesis using Send_window [OF a] by (simp add: same_window_def)
  qed
qed

lemma write_loop_returns:
  assumes "\<And>i p. Wait fl (env_polls (envs i)) p \<noteq> None"
    and "int (length (unacked (arq c)) + length (segments rem)) \<le> sendWindow (arq c)"
  shows "write_loop x fl envs n rem tot c \<noteq> None"
  using assms(2)
proof (induction "length rem" arbitrary: n rem tot c rule: less_induct)
  case less
  show ?case
  proof (cases "rem = [] \<or> conn_closed c")
    case True
    then show ?thesis by (auto simp: write_loop.simps [of x fl envs n rem])
  next
    case False
    then have ne: "rem \<noteq> []" "\<not> conn_closed c" by simp_all
    have seg: "length (segments rem) = Suc (length (segments (drop 1200 rem)))"
      using ne(1) by (subst segments.simps) simp
    then have room: "int (length (unacked (arq c))) < sendWindow (arq c)" using less.prems by simp
    obtain r d where d: "conn_send x fl (envs n) (take 1200 rem) c = Some (r, d)"
      "sendWindow (arq d) = sendWindow (arq c)" "length (unacked (arq d)) \<le> Suc (length (unacked (arq c)))"
      using conn_send_returns [OF assms(1) room] by blast
    have "write_loop x fl envs (n + 1) (drop 1200 rem) t d \<noteq> None" for t
      by (rule less.hyps) (use less.prems seg d(2,3) ne(1) in auto)
    then show ?thesis using write_loop_step [OF ne, of x fl envs n tot] d(1)
      by (auto split: sum.splits failure.splits)
  qed
qed

subsection \<open>A connection for the witnesses\<close>

definition demo_conn :: "bool \<Rightarrow> MTPConn" where
  "demo_conn server = (newMTPConn demo (\<lambda>r. r) 0 7 ''peer'' ''k'' server None)
     \<lparr>sessionID := ''session'', workers := True\<rparr>"

definition demo_env :: call_env where
  "demo_env = \<lparr> env_now = 1, env_nonce = Some (replicate 24 1), env_clock = (\<lambda>_. 1), env_order = [],
     env_parity_nonces = (\<lambda>_. None), env_polls = [(1, True)], env_write_ok = True \<rparr>"

lemma demo_env_simps [simp]:
  "nonces_ok demo_env" "env_polls demo_env = [(1, True)]" "env_write_ok demo_env"
  by (simp_all add: demo_env_def nonces_ok_def)

lemma demo_conn_wf [simp]: "conn_wf demo (\<lambda>r. r) (demo_conn b)"
  using newMTPConn_wf [of "\<lambda>r. r" demo] by (simp add: demo_conn_def conn_wf_def)

lemma demo_conn_ready [simp]: "conn_ready demo (arq_codec (arq (demo_conn b))) (demo_conn b)"
    "sendSeq (arq (demo_conn b)) = 0" "written (demo_conn b) = []"
  using new_conn_ready [OF _ _ _ demo_conn_def]
  by (simp_all add: demo_conn_def)

lemma demo_conn_simps [simp]:
  "conn_closed (demo_conn b) = False" "readBuf (demo_conn b) = []" "delivered (arq (demo_conn b)) = []"
  "unacked (arq (demo_conn b)) = []" "sendWindow (arq (demo_conn b)) = 256"
  "writeDeadline (demo_conn b) = None" "readDeadline (demo_conn b) = None"
  "udpConn (demo_conn b) = 7" "remoteAddr (demo_conn b) = ''peer''"
  by (simp_all add: demo_conn_def newMTPConn_def NewARQEngine_def Let_def)

lemma demo_conn_reachable: "reachable (conn_start demo (\<lambda>r. r)) (conn_step demo (\<lambda>r. r)) (demo_conn b)"
proof (rule reach_start)
  show "conn_start demo (\<lambda>r. r) (demo_conn b)"
    unfolding conn_start_def demo_conn_def by simp blast
qed

section \<open>Properties\<close>

text \<open>C4. \<^verbatim>\<open>Write\<close> cuts its buffer into segments of 1200 bytes (the last may be shorter) and sends
  a prefix of them under consecutive sequence numbers: the datagrams it writes are these
  segments, as any peer decodes them, and parity packets, and every segment it counts was
  written. It returns the number of bytes of that prefix: all of them without an error. It
  does not return only where the window has no place for all segments or a pacer wait does
  not end.\<close>

theorem conn_write:
  assumes "aead_correct x" "zstd_correct x" "rs_valid x" "rs_sizes x"
    and "\<forall>i. nonces_ok (envs i)" "conn_ready x k c"
  shows "case Write x fl envs now b c of
       None \<Rightarrow> sendWindow (arq c) < int (length (unacked (arq c)) + length (segments b))
         \<or> (\<exists>i p. Wait fl (env_polls (envs i)) p = None)
     | Some (n, e, c') \<Rightarrow> n \<le> length b \<and> (e = None \<longrightarrow> n = length b)
         \<and> (\<exists>sent ws. concat sent = take n b \<and> (\<forall>s\<in>set sent. s \<noteq> [] \<and> length s \<le> 1200)
              \<and> (e = None \<longrightarrow> length sent = (length b + 1199) div 1200)
              \<and> written c' = written c @ addressed c ws
              \<and> stream_frames x k (sendSeq (arq c)) sent ws)"
proof (cases "Write x fl envs now b c")
  case None
  then have "write_loop x fl envs 0 b 0 c = None" by (auto simp: Write_def split: if_splits)
  then show ?thesis
    using None write_loop_returns [of fl envs c b x 0 0] by (auto simp del: of_nat_add)
      (meson linorder_not_le)
next
  case (Some r)
  obtain n e c' where r: "r = (n, e, c')" by (cases r)
  show ?thesis
  proof (cases "write_loop x fl envs 0 b 0 c = Some (n, e, c')")
    case True
    obtain m where m: "n = length (concat (take m (segments b)))"
      "e = None \<longrightarrow> length (segments b) \<le> m" "wrote x k (take m (segments b)) (e = None) c c'"
      using write_loop_frames [OF assms(1-4) _ True assms(6)] assms(5) by auto
    note seg = segments_facts [of b]
    have "concat (take m (segments b)) @ concat (drop m (segments b)) = b"
      using seg by (metis append_take_drop_id concat_append)
    then have c: "concat (take m (segments b)) = take n b" "n \<le> length b"
      using m(1) by (metis append_eq_conv_conj, metis le_add1 length_append)
    have "e = None \<Longrightarrow> take m (segments b) = segments b" using m(2) by simp
    moreover have "\<forall>s\<in>set (take m (segments b)). s \<noteq> [] \<and> length s \<le> 1200"
      using seg by (auto dest: in_set_takeD)
    ultimately show ?thesis using c m(1,3) seg r Some unfolding wrote_def by auto
  next
    case False
    then have "n = 0" "e \<noteq> None" "c' = c" using Some r by (auto simp: Write_def split: if_splits)
    then show ?thesis using r Some by (auto simp: addressed_def intro!: exI [of _ "[]"])
  qed
qed

theorem conn_write_witness:
  "\<exists>n e c'. Write demo (\<lambda>r. r) (\<lambda>_. demo_env) 0 (replicate 1201 7) (demo_conn False) = Some (n, e, c')
     \<and> n \<le> 1201"
proof -
  have w: "(Wait (\<lambda>r. r) (env_polls demo_env) p = None) = False" for p
    by (auto simp: Let_def split: prod.splits bool.splits)
  have "length (segments (replicate 1201 7)) = 2"
    using segments_facts [of "replicate 1201 7"] by simp
  then show ?thesis
    using conn_write [where x = demo and envs = "\<lambda>_. demo_env" and c = "demo_conn False"
        and k = "arq_codec (arq (demo_conn False))" and fl = "\<lambda>r. r" and now = 0
        and b = "replicate 1201 7"]
    by (auto simp: w simp del: Wait.simps demo_env_simps(2) split: option.splits)
qed

text \<open>C5. \<^verbatim>\<open>Read\<close> hands out the delivered stream: the bytes it returns are the next ones of what
  waits in its buffer and in the delivery channel, no more than asked for; on an error nothing
  is lost. It returns no byte only when asked for none or for an empty packet.\<close>

theorem conn_read:
  assumes "Read len now ch c = Some (r, c')"
  shows "case r of
       Inr bs \<Rightarrow> bs @ pending c' = pending c \<and> length bs \<le> len
         \<and> (bs = [] \<longrightarrow> len = 0 \<or> (\<exists>p\<in>set (delivered (arq c)). Payload p = []))
     | Inl e \<Rightarrow> c' = c"
  by (rule Read_stream [OF assms])

theorem conn_read_witness:
  "case Read 2 0 PickData ((demo_conn False)\<lparr>arq := (arq (demo_conn False))\<lparr>delivered := [demo_packet 1 [1, 2, 3]]\<rparr>\<rparr>)
     of Some (Inr bs, c') \<Rightarrow> bs @ pending c' = [1, 2, 3] \<and> readBuf c' = [3] | _ \<Rightarrow> False"
proof -
  let ?c = "(demo_conn False)\<lparr>arq := (arq (demo_conn False))\<lparr>delivered := [demo_packet 1 [1, 2, 3]]\<rparr>\<rparr>"
  have r: "Read 2 0 PickData ?c = Some (Inr [1, 2], ?c\<lparr>arq := (arq (demo_conn False))\<lparr>delivered := []\<rparr>,
      readBuf := [3]\<rparr>)"
    by (simp add: Read_def Read_enter_def Read_wait_def take_delivered_def copyPayload_def)
  show ?thesis using conn_read [OF r] unfolding r by (simp add: pending_def)
qed



text \<open>The connection never recovers a packet by FEC: \<^verbatim>\<open>processIncoming\<close> has no case for parity
  packets, so the decoder sees data only and \<^verbatim>\<open>onRecover\<close> is never called, although the sending
  side computes and transmits parity.\<close>

theorem conn_fec_inert:
  assumes "reachable (conn_start x fl) (conn_step x fl) c"
  shows "spawned (arq c) = []
    \<and> (\<forall>p. Type p = PacketFEC \<longrightarrow> handle_decoded x fl env p c = Some c)"
  using connection.reachable_inv [OF assms] by (auto simp: conn_wf_def fec_idle_def handle_decoded_def)

theorem conn_fec_inert_witness: "spawned (arq (Conn_Close demo demo_env (demo_conn True))) = []"
proof -
  have "reachable (conn_start demo (\<lambda>r. r)) (conn_step demo (\<lambda>r. r)) (Conn_Close demo demo_env (demo_conn True))"
    by (rule reach_step [OF demo_conn_reachable cs_close])
  from conn_fec_inert [OF this] show ?thesis by blast
qed

text \<open>C34. Dialling, without compression: the client sends one and the same SYN for each attempt,
  passes over time-outs, undecodable datagrams and packets that are no SYN-ACK, and with a
  SYN-ACK among the first five replies takes its payload as session id and starts its workers;
  with a secret of six characters or more every peer decodes the SYN as \<^verbatim>\<open>AUTH:\<close> and the secret.\<close>

theorem dial_handshake:
  assumes "aead_correct x" "zstd_correct x" "digests_correct x" "length n = 24"
    and "6 \<le> length secret" "length secret \<le> 1900"
    and "k = arq_codec (arq (newMTPConn x fl now sock addr secret False compression))"
    and "\<not> compression_on k" "length miss < 5"
    and "\<forall>att\<in>set miss. at_write_ok att \<and> ignored_reply x k (at_response att)"
    and "at_write_ok att" "is_synack x k (at_response att) p"
  shows "\<exists>c w. DialWithConfig x fl now (Some addr) (Some sock) (Some n) (miss @ att # rest) secret compression
         = (Inr (), Some c)
     \<and> sessionID c = string_of_bytes (Payload p) \<and> workers c \<and> \<not> conn_closed c
     \<and> written c = replicate (Suc (length miss)) (sock, addr, w)
     \<and> (\<forall>d. codec_wf x d \<and> codec_peer k d \<longrightarrow>
          (\<exists>q. fst (Decode x d w) = Inr q \<and> Type q = PacketSYN
             \<and> string_of_bytes (Payload q) = ''AUTH:'' @ secret))"
proof -
  let ?c = "newMTPConn x fl now sock addr secret False compression"
  let ?syn = "control_packet PacketSYN 0 0 (bytes_of_string (''AUTH:'' @ secret))"
  have k: "codec_wf x k" using assms(7) new_conn_codec(1) [OF assms(3)] by simp
  obtain w where w: "Encode x (Some n) k ?syn = (Inr w, ?syn, k)" "length w = wire_size ?syn"
    using Encode_off_total [OF assms(1) k assms(8,4), of ?syn] assms(6)
    by (auto simp: control_packet_def sack_part_def)
  then have e: "arq_encode x (Some n) ?syn (arq ?c) = (Inr w, ?syn, arq ?c)"
    using assms(7) by (simp add: arq_encode_def)
  have c0: "\<not> conn_closed ?c" "written ?c = []" "udpConn ?c = sock" "remoteAddr ?c = addr"
    by (simp_all add: newMTPConn_def Let_def)
  have tk: "take 5 (miss @ att # rest) = miss @ att # take (4 - length miss) rest"
    using assms(9) by (simp add: take_Cons')
  obtain d where d: "handshake_loop x w (miss @ att # take (4 - length miss) rest) ?c
      = handshake_loop x w (att # take (4 - length miss) rest) d"
    "arq d = arq ?c" "conn_closed d = conn_closed ?c" "udpConn d = udpConn ?c"
    "remoteAddr d = remoteAddr ?c" "written d = written ?c @ addressed ?c (replicate (length miss) w)"
    using handshake_passes_over [of ?c miss x w "att # take (4 - length miss) rest"] assms(7,8,10) c0
    by auto
  obtain f where f: "handshake_loop x w (att # take (4 - length miss) rest) d
      = (Inr (), f\<lparr>sessionID := string_of_bytes (Payload p)\<rparr>)" "arq f = arq d"
    "conn_closed f = conn_closed d" "written f = written d @ addressed d [w]"
    using handshake_ends [of d att x p w "take (4 - length miss) rest"] assms(7,8,11,12) c0 d(2,3) by auto
  have "DialWithConfig x fl now (Some addr) (Some sock) (Some n) (miss @ att # rest) secret compression
      = (Inr (), Some (startWorkers (f\<lparr>sessionID := string_of_bytes (Payload p)\<rparr>)))"
    using e d(1) f(1) tk by (simp add: DialWithConfig_def handshakeClient_def set_arq_same)
  moreover have "written f = replicate (Suc (length miss)) (sock, addr, w)"
    using f(4) d(4-6) c0 by (simp add: addressed_def map_replicate replicate_append_same)
  moreover have "\<exists>q. fst (Decode x v w) = Inr q \<and> Type q = PacketSYN
      \<and> string_of_bytes (Payload q) = ''AUTH:'' @ secret" if v: "codec_wf x v" "codec_peer k v" for v
  proof -
    have "fst (Decode x v w) = Inr (wire_view ?syn)"
      by (rule decode_encode_fst [OF assms(1,2) k v assms(4), of ?syn])
         (use w assms(5,6) in \<open>auto simp: control_packet_def wire_size_def isInitial_def sack_part_def
            intro: flag_consistent_fresh\<close>)
    then show ?thesis by (simp add: control_packet_def)
  qed
  moreover have "\<not> conn_closed f" using f(3) d(3) c0(1) by simp
  ultimately show ?thesis by (auto simp: startWorkers_def)
qed

theorem dial_handshake_witness:
  "\<exists>atts c. DialWithConfig demo (\<lambda>r. r) 0 (Some ''a'') (Some 3) (Some (replicate 24 1)) atts ''secret'' None
     = (Inr (), Some c) \<and> sessionID c = ''a-session-id'' \<and> length (written c) = 2"
proof -
  define k where "k = arq_codec (arq (newMTPConn demo (\<lambda>r. r) 0 3 ''a'' ''secret'' False None))"
  let ?p = "control_packet PacketSYNACK 0 1 (bytes_of_string ''a-session-id'')"
  have k: "codec_wf demo k" "\<not> compression_on k"
    using new_conn_codec by (simp_all add: k_def)
  obtain raw where "Encode demo (Some (replicate 24 1)) k ?p = (Inr raw, ?p, k)" "length raw = wire_size ?p"
    using Encode_off_total [OF demo_aead_correct k, of "replicate 24 1" ?p]
    by (auto simp: control_packet_def sack_part_def)
  then have "fst (Decode demo k raw) = Inr (wire_view ?p)"
    by (intro decode_encode_fst [OF _ _ k(1) k(1), of "replicate 24 1" ?p])
       (auto simp: control_packet_def wire_size_def isInitial_def sack_part_def intro: flag_consistent_fresh)
  then have s: "is_synack demo k (NetData raw) (wire_view ?p)"
    by (simp add: is_synack_def control_packet_def)
  let ?miss = "[\<lparr>at_now = 0, at_write_ok = True, at_response = NetTimeout\<rparr>]"
  let ?att = "\<lparr>at_now = 1, at_write_ok = True, at_response = NetData raw\<rparr>"
  have "\<exists>c w. DialWithConfig demo (\<lambda>r. r) 0 (Some ''a'') (Some 3) (Some (replicate 24 1)) (?miss @ ?att # []) ''secret'' None
         = (Inr (), Some c)
     \<and> sessionID c = string_of_bytes (Payload (wire_view ?p)) \<and> workers c \<and> \<not> conn_closed c
     \<and> written c = replicate (Suc (length ?miss)) (3, ''a'', w)
     \<and> (\<forall>d. codec_wf demo d \<and> codec_peer k d \<longrightarrow>
          (\<exists>q. fst (Decode demo d w) = Inr q \<and> Type q = PacketSYN
             \<and> string_of_bytes (Payload q) = ''AUTH:'' @ ''secret''))"
    by (rule dial_handshake [OF _ _ _ _ _ _ k_def k(2)]) (use s in \<open>auto simp: ignored_reply_def\<close>)
  then obtain c w where "DialWithConfig demo (\<lambda>r. r) 0 (Some ''a'') (Some 3) (Some (replicate 24 1))
      (?miss @ ?att # []) ''secret'' None = (Inr (), Some c)"
    "sessionID c = ''a-session-id''" "length (written c) = 2"
    by (auto simp: control_packet_def)
  then show ?thesis by blast
qed

text \<open>When the first five replies are passed over, dialling fails with a time-out after
  five SYNs and closes the socket; the connection object it made is neither closed nor are its
  engine and codec stopped: their goroutines run on.\<close>

theorem dial_timeout:
  assumes "aead_correct x" "digests_correct x" "length n = 24" "length secret \<le> 1900"
    and "k = arq_codec (arq (newMTPConn x fl now sock addr secret False compression))"
    and "\<not> compression_on k" "5 \<le> length attempts"
    and "\<forall>att\<in>set (take 5 attempts). at_write_ok att \<and> ignored_reply x k (at_response att)"
  shows "\<exists>c w. DialWithConfig x fl now (Some addr) (Some sock) (Some n) attempts secret compression
         = (Inl (Err ErrHandshakeTimeout), Some c)
     \<and> written c = replicate 5 (sock, addr, w) \<and> closed_sockets c = [sock]
     \<and> \<not> conn_closed c \<and> \<not> arq_closed (arq c) \<and> arq_codec (arq c) = k"
proof -
  let ?c = "newMTPConn x fl now sock addr secret False compression"
  let ?syn = "control_packet PacketSYN 0 0 (bytes_of_string (''AUTH:'' @ secret))"
  have k: "codec_wf x k" using assms(5) new_conn_codec(1) [OF assms(2)] by simp
  obtain w where w: "Encode x (Some n) k ?syn = (Inr w, ?syn, k)"
    using Encode_off_total [OF assms(1) k assms(6,3), of ?syn] assms(4)
    by (auto simp: control_packet_def sack_part_def)
  then have e: "arq_encode x (Some n) ?syn (arq ?c) = (Inr w, ?syn, arq ?c)"
    using assms(5) by (simp add: arq_encode_def)
  have c0: "\<not> conn_closed ?c" "written ?c = []" "udpConn ?c = sock" "remoteAddr ?c = addr"
    "closed_sockets ?c = []" "\<not> arq_closed (arq ?c)"
    by (simp_all add: newMTPConn_def NewARQEngine_def Let_def)
  obtain d where d: "handshake_loop x w (take 5 attempts @ []) ?c = handshake_loop x w [] d"
    "arq d = arq ?c" "conn_closed d = conn_closed ?c" "udpConn d = udpConn ?c"
    "closed_sockets d = closed_sockets ?c"
    "written d = written ?c @ addressed ?c (replicate (length (take 5 attempts)) w)"
    using handshake_passes_over [of ?c "take 5 attempts" x w "[]"] assms(5,6,8) c0 by blast
  have "DialWithConfig x fl now (Some addr) (Some sock) (Some n) attempts secret compression
      = (Inl (Err ErrHandshakeTimeout), Some (d\<lparr>closed_sockets := closed_sockets d @ [udpConn d]\<rparr>))"
    using e d(1) by (simp add: DialWithConfig_def handshakeClient_def set_arq_same)
  moreover have "written d = replicate 5 (sock, addr, w)"
    using d(6) c0 assms(7) by (simp add: addressed_def map_replicate)
  ultimately show ?thesis using d c0 assms(5) by auto
qed

theorem dial_timeout_witness:
  "\<exists>c. DialWithConfig demo (\<lambda>r. r) 0 (Some ''a'') (Some 3) (Some (replicate 24 1))
       (replicate 5 \<lparr>at_now = 0, at_write_ok = True, at_response = NetTimeout\<rparr>) ''secret'' None
     = (Inl (Err ErrHandshakeTimeout), Some c) \<and> \<not> arq_closed (arq c)"
proof -
  define k where "k = arq_codec (arq (newMTPConn demo (\<lambda>r. r) 0 3 ''a'' ''secret'' False None))"
  have "\<not> compression_on k" unfolding k_def by (rule new_conn_codec(2))
  from dial_timeout [OF _ _ _ _ k_def this, of "replicate 24 1"
      "replicate 5 \<lparr>at_now = 0, at_write_ok = True, at_response = NetTimeout\<rparr>"]
  show ?thesis by (auto simp: ignored_reply_def)
qed

end
