(* ===== verification/Listener.thy ===== *)
theory Listener
  imports Conn
begin

text \<open>
  The server side (\<^verbatim>\<open>pkg/mtp/listener.go\<close>): one UDP socket, the connections of the addresses it
  has heard of, and the sessions for migration. A \<^verbatim>\<open>*MTPConn\<close> is a number into the store
  \<open>conns\<close>; the two Go maps, the accept channel and the callbacks share it. \<open>None\<close> is a panic.
\<close>

section \<open>State\<close>

type_synonym conn_id = nat

record Listener =
  l_udpConn :: nat
  l_secret :: string
  l_codec :: PacketCodec
  l_compression :: "CompressionConfig option"
  connections :: "(string, conn_id) gomap"
  sessions :: "(string, conn_id) gomap"
  acceptCh :: "conn_id list" \<comment> \<open>capacity 64\<close>
  l_closed :: bool \<comment> \<open>closeCh and acceptCh are closed with it\<close>
  conns :: "(conn_id, MTPConn) gomap"
  next_conn :: conn_id
  l_written :: "(string \<times> bytes) list"

datatype listen_error = ErrListenResolve | ErrListenUDP

definition ListenWithConfig :: "externals \<Rightarrow> string option \<Rightarrow> nat option \<Rightarrow> string
    \<Rightarrow> CompressionConfig option \<Rightarrow> listen_error + Listener" where
  "ListenWithConfig x resolved sock secret compression =
     (case resolved of
        None \<Rightarrow> Inl ErrListenResolve
      | Some _ \<Rightarrow>
          (case sock of
             None \<Rightarrow> Inl ErrListenUDP
           | Some u \<Rightarrow>
               Inr \<lparr> l_udpConn = u, l_secret = secret,
                     l_codec = NewPacketCodecWithConfig x \<lparr> Secret = secret, EnableDCIDRot = True,
                       DCIDRotInterval = 300, Compression_cfg = compression \<rparr>,
                     l_compression = compression, connections = [], sessions = [], acceptCh = [],
                     l_closed = False, conns = [], next_conn = 0, l_written = [] \<rparr>))"

definition Listen :: "externals \<Rightarrow> string option \<Rightarrow> nat option \<Rightarrow> string \<Rightarrow> listen_error + Listener" where
  "Listen x resolved sock secret = ListenWithConfig x resolved sock secret None"

definition conn_at :: "Listener \<Rightarrow> conn_id \<Rightarrow> MTPConn option" where
  "conn_at l i = map_of (conns l) i"

definition put_conn :: "conn_id \<Rightarrow> MTPConn \<Rightarrow> Listener \<Rightarrow> Listener" where
  "put_conn i c l = l\<lparr>conns := AList.update i c (conns l)\<rparr>"

section \<open>Sessions and the close callback\<close>

definition GetSession :: "string \<Rightarrow> Listener \<Rightarrow> conn_id option" where
  "GetSession sid l = map_of (sessions l) sid"

definition RemoveConnection :: "string \<Rightarrow> Listener \<Rightarrow> Listener" where
  "RemoveConnection sid l =
     (case map_of (sessions l) sid of
        None \<Rightarrow> l
      | Some i \<Rightarrow>
          let l = l\<lparr>sessions := AList.delete sid (sessions l)\<rparr>
          in case conn_at l i of
               None \<Rightarrow> l
             | Some c \<Rightarrow> l\<lparr>connections := AList.delete (remoteAddr c) (connections l)\<rparr>)"

text \<open>
  An operation on a connection of the listener: where it closes the connection, the
  \<^verbatim>\<open>onClose\<close> callback that \<^verbatim>\<open>handleSYN\<close> registered removes its session.
\<close>

definition conn_op :: "conn_id \<Rightarrow> (MTPConn \<Rightarrow> MTPConn option) \<Rightarrow> Listener \<Rightarrow> Listener option" where
  "conn_op i f l =
     (case conn_at l i of
        None \<Rightarrow> Some l
      | Some c \<Rightarrow>
          (case f c of
             None \<Rightarrow> None
           | Some c' \<Rightarrow>
               Some (if onClose_calls c < onClose_calls c'
                     then RemoveConnection (sessionID c) (put_conn i c' l) else put_conn i c' l)))"

section \<open>Accepting\<close>

text \<open>\<open>pick_close\<close>: of two ready cases the \<^verbatim>\<open>select\<close> takes the closed channel. \<open>None\<close>: still waiting.\<close>

definition Accept :: "bool \<Rightarrow> Listener \<Rightarrow> (unit + conn_id) option \<times> Listener" where
  "Accept pick_close l =
     (if l_closed l \<and> pick_close then (Some (Inl ()), l)
      else case acceptCh l of
             i # ch \<Rightarrow> (Some (Inr i), l\<lparr>acceptCh := ch\<rparr>)
           | [] \<Rightarrow> (if l_closed l then Some (Inl ()) else None, l))"

text \<open>\<open>order\<close>: the order of the range over \<^verbatim>\<open>connections\<close>.\<close>

definition Listener_Close :: "externals \<Rightarrow> call_env \<Rightarrow> conn_id list \<Rightarrow> Listener \<Rightarrow> Listener option" where
  "Listener_Close x env order l =
     (if l_closed l then Some l
      else case fold_opt (\<lambda>i. conn_op i (\<lambda>c. Some (Conn_Close x env c))) order (l\<lparr>l_closed := True\<rparr>) of
             None \<Rightarrow> None
           | Some l \<Rightarrow> Some (l\<lparr>l_codec := Codec_Close (l_codec l)\<rparr>))"

section \<open>Datagrams\<close>

definition fakeDns :: bytes where
  "fakeDns = [0x00, 0x00, 0x81, 0x05, 0x00, 0x01, 0x00, 0x00, 0x00, 0x00, 0x00, 0x00,
     0x00, 0x00, 0x01, 0x00, 0x01]"

definition write_to :: "bool \<Rightarrow> string \<Rightarrow> bytes \<Rightarrow> Listener \<Rightarrow> Listener" where
  "write_to ok addr w l = (if ok then l\<lparr>l_written := l_written l @ [(addr, w)]\<rparr> else l)"

definition sendFakeResponse :: "bool \<Rightarrow> string \<Rightarrow> Listener \<Rightarrow> Listener" where
  "sendFakeResponse ok addr l = write_to ok addr fakeDns l"

text \<open>\<^verbatim>\<open>l.codec.Encode\<close> of a SYN-ACK and the write; \<open>Inl\<close> where the caller returns (\<open>None\<close>: panics).\<close>

definition reply_synack :: "externals \<Rightarrow> call_env \<Rightarrow> string \<Rightarrow> string \<Rightarrow> Listener
    \<Rightarrow> (Listener + Listener) option" where
  "reply_synack x env addr payload l =
     (case Encode x (env_nonce env) (l_codec l)
             (control_packet PacketSYNACK 0 1 (bytes_of_string payload)) of
        (Inl Panic, _, _) \<Rightarrow> None
      | (Inl (Err e), _, k) \<Rightarrow> Some (Inl (l\<lparr>l_codec := k\<rparr>))
      | (Inr encoded, _, k) \<Rightarrow> Some (Inr (write_to (env_write_ok env) addr encoded (l\<lparr>l_codec := k\<rparr>))))"

definition handleMigration :: "externals \<Rightarrow> call_env \<Rightarrow> string \<Rightarrow> string \<Rightarrow> Listener \<Rightarrow> Listener option" where
  "handleMigration x env newAddr payload l =
     (if \<not> HasPrefix payload ''MIGRATE:'' then Some l
      else case GetSession (drop 8 payload) l of
             None \<Rightarrow> Some l
           | Some i \<Rightarrow>
               (case conn_at l i of
                  None \<Rightarrow> Some l
                | Some c \<Rightarrow>
                    let l = put_conn i (c\<lparr>remoteAddr := newAddr\<rparr>) l;
                        l = l\<lparr>connections := AList.update newAddr i
                               (AList.delete (remoteAddr c) (connections l))\<rparr>
                    in case reply_synack x env newAddr ''OK'' l of
                         None \<Rightarrow> None | Some (Inl l) \<Rightarrow> Some l | Some (Inr l) \<Rightarrow> Some l))"

definition register :: "externals \<Rightarrow> (rat \<Rightarrow> rat) \<Rightarrow> int \<Rightarrow> string \<Rightarrow> string \<Rightarrow> Listener \<Rightarrow> Listener" where
  "register x fl now addr sid l =
     (let c = newMTPConn x fl now (l_udpConn l) addr (l_secret l) True (l_compression l);
          c = startWorkers (c\<lparr>sessionID := sid\<rparr>); i = next_conn l
      in (put_conn i c l)\<lparr> next_conn := i + 1, connections := AList.update addr i (connections l),
                           sessions := AList.update sid i (sessions l) \<rparr>)"

text \<open>The hand-over to \<^verbatim>\<open>Accept\<close>; sending on the closed channel panics, in a \<^verbatim>\<open>select\<close> too.\<close>

definition offer :: "externals \<Rightarrow> call_env \<Rightarrow> conn_id \<Rightarrow> Listener \<Rightarrow> Listener option" where
  "offer x env i l =
     (if l_closed l then None
      else if length (acceptCh l) < 64 then Some (l\<lparr>acceptCh := acceptCh l @ [i]\<rparr>)
      else conn_op i (\<lambda>c. Some (Conn_Close x env c)) l)"

definition handleSYN :: "externals \<Rightarrow> (rat \<Rightarrow> rat) \<Rightarrow> call_env \<Rightarrow> string \<Rightarrow> Packet \<Rightarrow> Listener
    \<Rightarrow> Listener option" where
  "handleSYN x fl env addr pkt l =
     (let payload = string_of_bytes (Payload pkt)
      in if Flags pkt AND FlagMigrate \<noteq> 0 then handleMigration x env addr payload l
         else if \<not> HasPrefix payload ''AUTH:'' then Some l
         else let sid = drop 5 payload; i = next_conn l
              in case reply_synack x env addr sid (register x fl (env_now env) addr sid l) of
                   None \<Rightarrow> None
                 | Some (Inl l) \<Rightarrow> Some l
                 | Some (Inr l) \<Rightarrow> offer x env i l)"

text \<open>One datagram through \<^verbatim>\<open>readLoop\<close>.\<close>

definition readLoop :: "externals \<Rightarrow> (rat \<Rightarrow> rat) \<Rightarrow> call_env \<Rightarrow> string \<Rightarrow> bytes \<Rightarrow> Listener
    \<Rightarrow> Listener option" where
  "readLoop x fl env addr data l =
     (if l_closed l then Some l
      else case map_of (connections l) addr of
             Some i \<Rightarrow> conn_op i (\<lambda>c. Some (DispatchPacket data c)) l
           | None \<Rightarrow>
               (case Decode x (l_codec l) data of
                  (Inl Panic, _) \<Rightarrow> None
                | (Inl (Err e), k) \<Rightarrow>
                    Some (sendFakeResponse (env_write_ok env) addr (l\<lparr>l_codec := k\<rparr>))
                | (Inr pkt, k) \<Rightarrow>
                    if Type pkt \<noteq> PacketSYN
                    then Some (sendFakeResponse (env_write_ok env) addr (l\<lparr>l_codec := k\<rparr>))
                    else handleSYN x fl env addr pkt (l\<lparr>l_codec := k\<rparr>)))"

section \<open>Lemmas\<close>

subsection \<open>What a connection step leaves alone\<close>

definition same_id :: "MTPConn \<Rightarrow> MTPConn \<Rightarrow> bool" where
  "same_id c d \<longleftrightarrow> isServer d = isServer c \<and> sessionID d = sessionID c
     \<and> remoteAddr d = remoteAddr c \<and> udpConn d = udpConn c"

lemma same_id_refl [simp]: "same_id c c"
  by (simp add: same_id_def)

lemma same_id_trans: "same_id c d \<Longrightarrow> same_id d e \<Longrightarrow> same_id c e"
  by (simp add: same_id_def)

lemma same_conn_id: "same_conn c d \<Longrightarrow> same_id c d"
  by (simp add: same_conn_def same_id_def)

lemma conn_control_id [simp]: "same_id c (snd (conn_control x env p c))"
  by (auto simp: conn_control_def intro!: same_conn_id split: prod.splits)

lemma Conn_Close_id [simp]: "same_id c (Conn_Close x env c)"
proof (cases "close_done c")
  case False
  let ?c = "snd (conn_control x env (control_packet PacketFIN 0 0 []) c)"
  have "same_id c ?c" by simp
  then show ?thesis using False by (simp add: Conn_Close_def Let_def same_id_def)
qed (simp add: Conn_Close_def)

lemma handle_decoded_id:
  assumes "handle_decoded x fl env p c = Some d"
  shows "same_id c d"
proof -
  have "same_id c (Conn_Close x env (snd (conn_control x env q c)))" for q
    by (rule same_id_trans [OF conn_control_id Conn_Close_id])
  then show ?thesis using assms
    by (auto simp: handle_decoded_def Let_def intro: same_conn_id split: if_splits option.splits)
qed

lemma processIncoming_id:
  assumes "processIncoming x fl env raw c = Some d"
  shows "same_id c d"
proof -
  have "same_id c (arrived env raw k c)" for k by (simp add: arrived_def same_id_def)
  then show ?thesis using assms handle_decoded_id same_id_trans
    by (fastforce simp: processIncoming_alt split: prod.splits sum.splits failure.splits)
qed

lemma conn_step_id:
  assumes "conn_step x fl c d"
  shows "same_id c d"
  using assms
proof cases
  case (cs_send env chunk r)
  from cs_send(2) show ?thesis by (cases rule: conn_sendD) (auto intro: same_conn_id)
next
  case (cs_recv env)
  show ?thesis
  proof (cases "recvCh c")
    case (Cons raw chan)
    then have "same_id (c\<lparr>recvCh := chan\<rparr>) d"
      using cs_recv processIncoming_id by (auto simp: recvLoop_round_def)
    then show ?thesis by (simp add: same_id_def)
  qed (use cs_recv in \<open>simp add: recvLoop_round_def\<close>)
next
  case (cs_read_enter len now r)
  then show ?thesis using Read_enter_fields [OF cs_read_enter] by (auto simp: same_id_def)
next
  case (cs_read_wait len dl ch r)
  then show ?thesis using Read_wait_fields [OF cs_read_wait] by (auto simp: same_id_def)
qed (auto simp: processIncoming_id DispatchPacket_def keepalive_tick_def SetDeadline_def
    SetReadDeadline_def SetWriteDeadline_def same_id_def [of c "c\<lparr>recvCh := _\<rparr>"]
    same_id_def [of c "c\<lparr>readDeadline := _\<rparr>"] same_id_def [of c "c\<lparr>writeDeadline := _\<rparr>"]
    same_id_def [of c "c\<lparr>readDeadline := _, writeDeadline := _\<rparr>"] intro: same_conn_id)

subsection \<open>The tables of the listener\<close>

definition tables_wf :: "externals \<Rightarrow> (rat \<Rightarrow> rat) \<Rightarrow> Listener \<Rightarrow> bool" where
  "tables_wf x fl l \<longleftrightarrow>
     (\<forall>i c. conn_at l i = Some c \<longrightarrow> i < next_conn l \<and> conn_wf x fl c \<and> isServer c)
     \<and> (\<forall>a i. map_of (connections l) a = Some i \<longrightarrow> (\<exists>c. conn_at l i = Some c \<and> remoteAddr c = a))
     \<and> (\<forall>s i. map_of (sessions l) s = Some i \<longrightarrow> (\<exists>c. conn_at l i = Some c \<and> sessionID c = s))
     \<and> (\<forall>i\<in>set (acceptCh l). conn_at l i \<noteq> None) \<and> length (acceptCh l) \<le> 64"

definition listener_wf :: "externals \<Rightarrow> (rat \<Rightarrow> rat) \<Rightarrow> Listener \<Rightarrow> bool" where
  "listener_wf x fl l \<longleftrightarrow> tables_wf x fl l \<and> codec_wf x (l_codec l)"

lemma put_conn_simps [simp]:
  "conn_at (put_conn i c l) j = (if j = i then Some c else conn_at l j)"
  "connections (put_conn i c l) = connections l" "sessions (put_conn i c l) = sessions l"
  "acceptCh (put_conn i c l) = acceptCh l" "next_conn (put_conn i c l) = next_conn l"
  "l_closed (put_conn i c l) = l_closed l" "l_codec (put_conn i c l) = l_codec l"
  "l_written (put_conn i c l) = l_written l"
  by (simp_all add: put_conn_def conn_at_def amap_simps)

lemma tables_wf_cong:
  assumes "conns m = conns l" "connections m = connections l" "sessions m = sessions l"
    "acceptCh m = acceptCh l" "next_conn m = next_conn l"
  shows "tables_wf x fl m = tables_wf x fl l"
  using assms by (simp add: tables_wf_def conn_at_def)

lemma RemoveConnection_wf:
  assumes "tables_wf x fl l"
  shows "tables_wf x fl (RemoveConnection sid l)"
proof (cases "map_of (sessions l) sid")
  case None
  then show ?thesis using assms by (simp add: RemoveConnection_def)
next
  case (Some i)
  have at: "conn_at (l\<lparr>sessions := s\<rparr>) j = conn_at l j"
    "conn_at (l\<lparr>sessions := s, connections := t\<rparr>) j = conn_at l j" for s t j
    by (simp_all add: conn_at_def)
  show ?thesis using assms Some
    by (auto simp: RemoveConnection_def Let_def tables_wf_def at amap_simps split: option.splits if_splits)
qed

lemma RemoveConnection_simps [simp]:
  "l_codec (RemoveConnection sid l) = l_codec l" "conn_at (RemoveConnection sid l) i = conn_at l i"
  "l_closed (RemoveConnection sid l) = l_closed l" "acceptCh (RemoveConnection sid l) = acceptCh l"
  "next_conn (RemoveConnection sid l) = next_conn l"
  "map_of (sessions (RemoveConnection sid l)) = (map_of (sessions l))(sid := None)"
  by (auto simp: RemoveConnection_def Let_def conn_at_def amap_simps split: option.splits)

text \<open>Updating a connection without moving it.\<close>

lemma put_conn_wf:
  assumes "tables_wf x fl l" "conn_at l i = Some c" "conn_wf x fl d" "same_id c d"
  shows "tables_wf x fl (put_conn i d l)"
proof -
  have "map_of (connections l) a = Some i \<Longrightarrow> remoteAddr c = a"
    "map_of (sessions l) s = Some i \<Longrightarrow> sessionID c = s" for a s
    using assms(1,2) unfolding tables_wf_def by (metis option.inject)+
  then show ?thesis using assms by (auto simp: tables_wf_def same_id_def)
qed

lemma conn_op_wf:
  assumes "listener_wf x fl l"
    and "\<And>c d. conn_at l i = Some c \<Longrightarrow> conn_wf x fl c \<Longrightarrow> f c = Some d \<Longrightarrow> conn_wf x fl d \<and> same_id c d"
    and "conn_op i f l = Some m"
  shows "listener_wf x fl m"
proof (cases "conn_at l i")
  case None
  then show ?thesis using assms by (simp add: conn_op_def)
next
  case (Some c)
  have t: "tables_wf x fl l" "codec_wf x (l_codec l)" using assms(1) by (simp_all add: listener_wf_def)
  then have cw: "conn_wf x fl c" using Some by (simp add: tables_wf_def)
  obtain d where d: "f c = Some d" using assms(3) Some by (auto simp: conn_op_def split: option.splits)
  have "tables_wf x fl (put_conn i d l)"
    using put_conn_wf [OF t(1) Some] assms(2) [OF Some cw d] by blast
  then show ?thesis using assms(3) Some d t(2) RemoveConnection_wf
    by (auto simp: conn_op_def listener_wf_def)
qed

lemma write_to_simps [simp]:
  "l_codec (write_to ok a w l) = l_codec l" "conns (write_to ok a w l) = conns l"
  "connections (write_to ok a w l) = connections l" "sessions (write_to ok a w l) = sessions l"
  "acceptCh (write_to ok a w l) = acceptCh l" "next_conn (write_to ok a w l) = next_conn l"
  "l_closed (write_to ok a w l) = l_closed l"
  by (simp_all add: write_to_def)

lemma set_codec_wf: "listener_wf x fl l \<Longrightarrow> codec_wf x k \<Longrightarrow> listener_wf x fl (l\<lparr>l_codec := k\<rparr>)"
  using tables_wf_cong [of "l\<lparr>l_codec := k\<rparr>" l x fl] by (simp add: listener_wf_def)

lemma write_to_wf: "listener_wf x fl l \<Longrightarrow> listener_wf x fl (write_to ok a w l)"
  using tables_wf_cong [of "write_to ok a w l" l x fl] by (simp add: listener_wf_def)

lemma reply_synack_wf:
  assumes "listener_wf x fl l" "reply_synack x env addr payload l = Some r"
  shows "(\<exists>m. (r = Inl m \<or> r = Inr m) \<and> listener_wf x fl m)"
proof -
  obtain e q k where e: "Encode x (env_nonce env) (l_codec l)
      (control_packet PacketSYNACK 0 1 (bytes_of_string payload)) = (e, q, k)" by (metis prod_cases3)
  have "codec_wf x k" using Encode_wf [of x "l_codec l" "env_nonce env"] e assms(1)
    by (metis listener_wf_def snd_conv)
  then show ?thesis using assms e set_codec_wf write_to_wf
    by (auto simp: reply_synack_def split: sum.splits failure.splits)
qed

lemma handleMigration_wf:
  assumes "listener_wf x fl l" "handleMigration x env newAddr payload l = Some m"
  shows "listener_wf x fl m"
proof (cases "HasPrefix payload ''MIGRATE:'' \<and> GetSession (drop 8 payload) l \<noteq> None")
  case False
  then show ?thesis using assms by (auto simp: handleMigration_def split: if_splits)
next
  case True
  have t: "tables_wf x fl l" "codec_wf x (l_codec l)" using assms(1) by (simp_all add: listener_wf_def)
  obtain i where i1: "map_of (sessions l) (drop 8 payload) = Some i"
    using True by (auto simp: GetSession_def)
  then obtain c where "conn_at l i = Some c" using t(1) unfolding tables_wf_def by blast
  note i = i1 this
  let ?n = "(put_conn i (c\<lparr>remoteAddr := newAddr\<rparr>) l)\<lparr>connections := AList.update newAddr i
      (AList.delete (remoteAddr c) (connections l))\<rparr>"
  have at: "conn_at ?n j = (if j = i then Some (c\<lparr>remoteAddr := newAddr\<rparr>) else conn_at l j)" for j
    using put_conn_simps(1) [of i "c\<lparr>remoteAddr := newAddr\<rparr>" l j] by (simp add: conn_at_def)
  have own: "map_of (connections l) a = Some i \<Longrightarrow> remoteAddr c = a"
    "map_of (sessions l) s = Some i \<Longrightarrow> sessionID c = s" for a s
    using t(1) i(2) unfolding tables_wf_def by (metis option.inject)+
  have "conn_wf x fl (c\<lparr>remoteAddr := newAddr\<rparr>)"
    by (rule conn_wf_cong [where c = c]) (use t(1) i(2) in \<open>auto simp: tables_wf_def\<close>)
  then have "tables_wf x fl ?n"
    unfolding tables_wf_def at using t(1) own i(2)
    by (auto simp: amap_simps tables_wf_def split: if_splits)
  then have "listener_wf x fl ?n" using t(2) by (simp add: listener_wf_def)
  then show ?thesis using reply_synack_wf [of x fl ?n env newAddr "''OK''"] assms(2) True i
    by (auto simp: handleMigration_def GetSession_def split: option.splits sum.splits)
qed

text \<open>What registering a connection needs of the externals.\<close>

definition externals_ok :: "externals \<Rightarrow> (rat \<Rightarrow> rat) \<Rightarrow> bool" where
  "externals_ok x fl \<longleftrightarrow> float_rounding fl \<and> rs_valid x \<and> digests_correct x \<and> rs_new x 8 2"

lemma register_simps [simp]:
  "l_codec (register x fl now addr sid l) = l_codec l"
  "l_closed (register x fl now addr sid l) = l_closed l"
  "l_written (register x fl now addr sid l) = l_written l"
  "acceptCh (register x fl now addr sid l) = acceptCh l"
  "next_conn (register x fl now addr sid l) = Suc (next_conn l)"
  "map_of (connections (register x fl now addr sid l)) = (map_of (connections l))(addr \<mapsto> next_conn l)"
  "map_of (sessions (register x fl now addr sid l)) = (map_of (sessions l))(sid \<mapsto> next_conn l)"
  "conn_at (register x fl now addr sid l) j = (if j = next_conn l
     then Some ((newMTPConn x fl now (l_udpConn l) addr (l_secret l) True (l_compression l))
       \<lparr>sessionID := sid, workers := True\<rparr>) else conn_at l j)"
  by (simp_all add: register_def Let_def put_conn_def conn_at_def amap_simps startWorkers_def)

lemma register_wf:
  assumes "externals_ok x fl" "listener_wf x fl l"
  shows "listener_wf x fl (register x fl now addr sid l)"
proof -
  have t: "tables_wf x fl l" using assms(2) by (simp add: listener_wf_def)
  have "conn_wf x fl ((newMTPConn x fl now (l_udpConn l) addr (l_secret l) True (l_compression l))
      \<lparr>sessionID := sid, workers := True\<rparr>)" (is "conn_wf x fl ?c")
    using newMTPConn_wf [of fl x] assms(1) by (simp add: externals_ok_def conn_wf_def)
  moreover have "isServer ?c" "remoteAddr ?c = addr" by (simp_all add: newMTPConn_def Let_def)
  moreover have "conn_at l i = Some c \<Longrightarrow> i < Suc (next_conn l) \<and> i \<noteq> next_conn l" for i c
    using t unfolding tables_wf_def by (metis less_SucI nat_neq_iff)
  moreover have "map_of (connections l) a = Some i \<Longrightarrow> i \<noteq> next_conn l"
    "map_of (sessions l) s = Some i \<Longrightarrow> i \<noteq> next_conn l"
    "i \<in> set (acceptCh l) \<Longrightarrow> i \<noteq> next_conn l" for a s i
    using t unfolding tables_wf_def by (metis less_irrefl_nat option.exhaust_sel)+
  ultimately have "tables_wf x fl (register x fl now addr sid l)"
    using t by (auto simp: tables_wf_def)
  then show ?thesis using assms(2) by (simp add: listener_wf_def)
qed

lemma close_op_wf:
  assumes "listener_wf x fl l" "conn_op i (\<lambda>c. Some (Conn_Close x env c)) l = Some m"
  shows "listener_wf x fl m"
  by (rule conn_op_wf [OF assms(1) _ assms(2)]) (use Conn_Close_wf in auto)

lemma offer_wf:
  assumes "listener_wf x fl l" "offer x env i l = Some m" "conn_at l i \<noteq> None"
  shows "listener_wf x fl m"
proof (cases "length (acceptCh l) < 64 \<and> \<not> l_closed l")
  case True
  then have "m = l\<lparr>acceptCh := acceptCh l @ [i]\<rparr>" using assms(2) by (simp add: offer_def)
  then show ?thesis using assms(1,3) True by (auto simp: listener_wf_def tables_wf_def conn_at_def)
next
  case False
  then show ?thesis using assms close_op_wf by (auto simp: offer_def split: if_splits)
qed

lemma reply_synack_conns:
  assumes "reply_synack x env addr payload l = Some r" "r = Inl m \<or> r = Inr m"
  shows "conns m = conns l" "connections m = connections l" "sessions m = sessions l"
    "acceptCh m = acceptCh l" "l_closed m = l_closed l" "next_conn m = next_conn l"
  using assms by (auto simp: reply_synack_def split: prod.splits sum.splits failure.splits)

lemma handleSYN_wf:
  assumes "externals_ok x fl" "listener_wf x fl l" "handleSYN x fl env addr pkt l = Some m"
  shows "listener_wf x fl m"
proof -
  let ?r = "\<lambda>sid. register x fl (env_now env) addr sid l"
  note rw = register_wf [OF assms(1,2)]
  have off: "listener_wf x fl m"
    if h: "reply_synack x env addr sid (?r sid) = Some (Inr v)" "offer x env (next_conn l) v = Some m" for sid v
  proof (rule offer_wf [OF _ h(2)])
    show "listener_wf x fl v" using reply_synack_wf [OF rw h(1)] by auto
    show "conn_at v (next_conn l) \<noteq> None"
      using reply_synack_conns(1) [OF h(1), of v] register_simps(8) [of x fl "env_now env" addr sid l]
      by (simp add: conn_at_def)
  qed
  have inl: "listener_wf x fl v" if h: "reply_synack x env addr sid (?r sid) = Some (Inl v)" for sid v
    using reply_synack_wf [OF rw h] by auto
  show ?thesis
    using assms(2,3) handleMigration_wf [OF assms(2)] off inl
    by (auto simp: handleSYN_def Let_def split: if_splits option.splits sum.splits)
qed

lemma readLoop_wf:
  assumes "externals_ok x fl" "listener_wf x fl l" "readLoop x fl env addr data l = Some m"
  shows "listener_wf x fl m"
proof (cases "l_closed l \<or> map_of (connections l) addr \<noteq> None")
  case True
  have op: "conn_op i (\<lambda>c. Some (DispatchPacket data c)) l = Some m \<Longrightarrow> listener_wf x fl m" for i
    by (rule conn_op_wf [OF assms(2)])
       (auto simp: DispatchPacket_def conn_wf_def same_id_def split: if_splits)
  then show ?thesis using assms(2,3) True by (auto simp: readLoop_def split: if_splits)
next
  case False
  obtain r k where d: "Decode x (l_codec l) data = (r, k)" by fastforce
  have "codec_wf x k" using Decode_wf [of x "l_codec l" data] d assms(2) by (simp add: listener_wf_def)
  then have w: "listener_wf x fl (l\<lparr>l_codec := k\<rparr>)" by (rule set_codec_wf [OF assms(2)])
  then show ?thesis using assms(3) False d handleSYN_wf [OF assms(1) w] write_to_wf [OF w]
    by (auto simp: readLoop_def sendFakeResponse_def split: sum.splits failure.splits if_splits)
qed

inductive listener_step :: "externals \<Rightarrow> (rat \<Rightarrow> rat) \<Rightarrow> Listener \<Rightarrow> Listener \<Rightarrow> bool"
  for x :: externals and fl :: "rat \<Rightarrow> rat" where
  ls_datagram: "readLoop x fl env addr data l = Some m \<Longrightarrow> listener_step x fl l m"
| ls_conn: "conn_at l i = Some c \<Longrightarrow> conn_step x fl c d \<Longrightarrow> conn_op i (\<lambda>_. Some d) l = Some m \<Longrightarrow>
    listener_step x fl l m"
| ls_accept: "Accept pick l = (r, m) \<Longrightarrow> listener_step x fl l m"
| ls_close: "Listener_Close x env order l = Some m \<Longrightarrow> listener_step x fl l m"
| ls_rotate: "listener_step x fl l (l\<lparr>l_codec := rotateDCID x (l_codec l)\<rparr>)"

inductive_cases listener_stepE: "listener_step x fl l m"

lemma listener_step_wf:
  assumes "externals_ok x fl" "listener_wf x fl l" "listener_step x fl l m"
  shows "listener_wf x fl m"
  using assms(3)
proof cases
  case (ls_datagram env addr data)
  then show ?thesis by (rule readLoop_wf [OF assms(1,2)])
next
  case (ls_conn i c d)
  have "conn_wf x fl d" using conn_step_wf [of fl x c d] ls_conn assms(1,2)
    by (auto simp: externals_ok_def listener_wf_def tables_wf_def)
  then show ?thesis
    using conn_step_id [OF ls_conn(2)] ls_conn(1)
    by (intro conn_op_wf [OF assms(2) _ ls_conn(3)]) auto
next
  case (ls_accept pick r)
  then show ?thesis using assms(2)
    by (auto simp: Accept_def listener_wf_def tables_wf_def conn_at_def split: if_splits list.splits)
next
  case (ls_close env order)
  show ?thesis
  proof (cases "l_closed l")
    case True
    then show ?thesis using ls_close assms(2) by (simp add: Listener_Close_def)
  next
    case False
    then obtain v where v: "fold_opt (\<lambda>i. conn_op i (\<lambda>c. Some (Conn_Close x env c))) order
        (l\<lparr>l_closed := True\<rparr>) = Some v" "m = v\<lparr>l_codec := Codec_Close (l_codec v)\<rparr>"
      using ls_close by (auto simp: Listener_Close_def split: option.splits)
    have "listener_wf x fl (l\<lparr>l_closed := True\<rparr>)"
      using assms(2) by (simp add: listener_wf_def tables_wf_def conn_at_def)
    then have vw: "listener_wf x fl v"
      by (rule fold_opt_inv [OF _ v(1)]) (use close_op_wf in blast)
    show ?thesis unfolding v(2)
      by (rule set_codec_wf [OF vw]) (use vw in \<open>simp add: listener_wf_def Codec_Close_wf\<close>)
  qed
next
  case ls_rotate
  then show ?thesis using set_codec_wf [OF assms(2)] rotateDCID_wf assms(1,2)
    by (simp add: externals_ok_def listener_wf_def)
qed

definition listener_start :: "externals \<Rightarrow> (rat \<Rightarrow> rat) \<Rightarrow> Listener \<Rightarrow> bool" where
  "listener_start x fl l \<longleftrightarrow> externals_ok x fl
     \<and> (\<exists>a u secret compression. ListenWithConfig x (Some a) (Some u) secret compression = Inr l)"

interpretation listener: invariant_system "listener_start x fl" "listener_step x fl"
  "\<lambda>l. externals_ok x fl \<and> listener_wf x fl l"
  for x fl
proof unfold_locales
  fix l :: Listener
  assume "listener_start x fl l"
  then show "externals_ok x fl \<and> listener_wf x fl l"
    using NewPacketCodec_wf [of x]
    by (auto simp: listener_start_def externals_ok_def ListenWithConfig_def listener_wf_def
        tables_wf_def conn_at_def)
qed (use listener_step_wf in blast)

subsection \<open>A reply\<close>

lemma reply_synack_total:
  assumes "aead_correct x" "codec_wf x (l_codec l)" "\<not> compression_on (l_codec l)"
    and "env_nonce env = Some n" "length n = 24" "length payload \<le> 1900"
  shows "\<exists>w. reply_synack x env addr payload l = Some (Inr (write_to (env_write_ok env) addr w l))
    \<and> Encode x (Some n) (l_codec l) (control_packet PacketSYNACK 0 1 (bytes_of_string payload))
        = (Inr w, control_packet PacketSYNACK 0 1 (bytes_of_string payload), l_codec l)
    \<and> length w = 79 + length payload"
proof -
  let ?p = "control_packet PacketSYNACK 0 1 (bytes_of_string payload)"
  obtain w where w: "Encode x (Some n) (l_codec l) ?p = (Inr w, ?p, l_codec l)" "length w = wire_size ?p"
    using Encode_off_total [OF assms(1-3,5), of ?p] assms(6)
    by (auto simp: control_packet_def sack_part_def)
  then have "reply_synack x env addr payload l = Some (Inr (write_to (env_write_ok env) addr w l))"
    using assms(4) by (simp add: reply_synack_def)
  then show ?thesis using w by (auto simp: wire_size_def control_packet_def isInitial_def sack_part_def)
qed

lemma reachable_listener_codec:
  "reachable (listener_start x fl) (listener_step x fl) l \<Longrightarrow> externals_ok x fl \<and> codec_wf x (l_codec l)"
  using listener.reachable_inv by (auto simp: listener_wf_def)

section \<open>Properties\<close>

text \<open>A listener, and a connected client of it, for the witnesses.\<close>

definition demo_listener :: Listener where
  "demo_listener = \<lparr> l_udpConn = 1, l_secret = ''k'', l_codec = NewPacketCodecWithConfig demo
       \<lparr> Secret = ''k'', EnableDCIDRot = True, DCIDRotInterval = 300, Compression_cfg = None \<rparr>,
     l_compression = None, connections = [], sessions = [], acceptCh = [], l_closed = False,
     conns = [], next_conn = 0, l_written = [] \<rparr>"

lemma demo_listener_reachable [simp]:
  "reachable (listener_start demo (\<lambda>r. r)) (listener_step demo (\<lambda>r. r)) demo_listener"
proof (rule reach_start)
  have "ListenWithConfig demo (Some ''a'') (Some 1) ''k'' None = Inr demo_listener"
    by (simp add: ListenWithConfig_def demo_listener_def)
  then show "listener_start demo (\<lambda>r. r) demo_listener"
    unfolding listener_start_def externals_ok_def by auto
qed

lemma demo_listener_simps [simp]:
  "l_closed demo_listener = False" "connections demo_listener = []" "sessions demo_listener = []"
  "acceptCh demo_listener = []" "next_conn demo_listener = 0" "l_written demo_listener = []"
  "\<not> compression_on (l_codec demo_listener)"
  by (simp_all add: demo_listener_def NewPacketCodecWithConfig_def Let_def compression_on_def)

definition demo_syn :: "string \<Rightarrow> Packet" where
  "demo_syn s = control_packet PacketSYN 0 0 (bytes_of_string s)"

lemma demo_env_nonce [simp]: "env_nonce demo_env = Some (replicate 24 1)" "env_write_ok demo_env"
  by (simp_all add: demo_env_def)

text \<open>C10. The tables of the listener are consistent at all times: an address leads to a
  connection whose remote address it is, so no connection has two addresses; a session id leads
  to a connection with that id; accepted connections exist; every connection is a well-formed
  server connection, and the accept queue keeps to its capacity.\<close>

theorem listener_invariant:
  assumes "reachable (listener_start x fl) (listener_step x fl) l"
  shows "(\<forall>a i. map_of (connections l) a = Some i \<longrightarrow> (\<exists>c. conn_at l i = Some c \<and> remoteAddr c = a))
    \<and> (\<forall>a b i. map_of (connections l) a = Some i \<and> map_of (connections l) b = Some i \<longrightarrow> a = b)
    \<and> (\<forall>s i. GetSession s l = Some i \<longrightarrow> (\<exists>c. conn_at l i = Some c \<and> sessionID c = s))
    \<and> (\<forall>i\<in>set (acceptCh l). conn_at l i \<noteq> None) \<and> length (acceptCh l) \<le> 64
    \<and> (\<forall>i c. conn_at l i = Some c \<longrightarrow> conn_wf x fl c \<and> isServer c)"
proof -
  have t: "tables_wf x fl l" using listener.reachable_inv [OF assms] by (simp add: listener_wf_def)
  have "a = b" if "map_of (connections l) a = Some i" "map_of (connections l) b = Some i" for a b i
    using t that unfolding tables_wf_def by (metis option.inject)
  then show ?thesis using t unfolding tables_wf_def GetSession_def by blast
qed

text \<open>Whatever comes from an unknown address and is no SYN of a peer, a scanner's probe
  among it, is answered with the fixed 17 bytes of a refused DNS query and changes nothing else
  (without compression).\<close>

theorem listener_probe:
  assumes "\<not> l_closed l" "map_of (connections l) addr = None" "\<not> compression_on (l_codec l)"
    and "\<forall>p. fst (Decode x (l_codec l) data) = Inr p \<longrightarrow> Type p \<noteq> PacketSYN"
  shows "readLoop x fl env addr data l
    = Some (if env_write_ok env then l\<lparr>l_written := l_written l @ [(addr, fakeDns)]\<rparr> else l)"
proof -
  obtain r where d: "Decode x (l_codec l) data = (r, l_codec l)" "r \<noteq> Inl Panic"
    using Decode_off [OF assms(3), of x data] by (metis prod.collapse)
  have "l\<lparr>l_codec := l_codec l\<rparr> = l" by (cases l) simp
  then show ?thesis using assms d
    by (auto simp: readLoop_def sendFakeResponse_def write_to_def split: sum.splits failure.splits)
qed

theorem listener_probe_witness:
  "readLoop demo (\<lambda>r. r) demo_env ''scanner'' [1, 2, 3] demo_listener
     = Some (demo_listener\<lparr>l_written := [(''scanner'', fakeDns)]\<rparr>)"
proof -
  have "fst (Decode demo (l_codec demo_listener) [1, 2, 3]) = Inl (Err ErrPacketTooShort)"
    by (simp add: Decode_def headerSize_def)
  then show ?thesis using listener_probe [of demo_listener "''scanner''" demo "[1, 2, 3]"] by simp
qed

lemma conn_op_close:
  assumes "conn_at l i = Some c" "conn_wf x fl c" "\<not> conn_closed c"
  shows "\<exists>m. conn_op i (\<lambda>c. Some (Conn_Close x env c)) l = Some m
    \<and> map_of (sessions m) = (map_of (sessions l))(sessionID c := None)
    \<and> conn_at m i = Some (Conn_Close x env c) \<and> conn_closed (Conn_Close x env c)
    \<and> m = RemoveConnection (sessionID c) (put_conn i (Conn_Close x env c) l)"
  using assms Conn_Close_wf [OF assms(2), of env] by (simp add: conn_op_def conn_wf_def)

lemma HasPrefix_append [simp]: "HasPrefix (p @ s) p"
  by (simp add: HasPrefix_def)

text \<open>A SYN of a new client, without compression.\<close>

lemma syn_registers:
  assumes "aead_correct x" "codec_wf x (l_codec l)" "\<not> compression_on (l_codec l)"
    and "env_nonce env = Some n" "length n = 24" "length sid \<le> 1900"
    and "Flags p AND FlagMigrate = 0" "string_of_bytes (Payload p) = ''AUTH:'' @ sid"
  shows "\<exists>w. handleSYN x fl env addr p l = offer x env (next_conn l)
      (write_to (env_write_ok env) addr w (register x fl (env_now env) addr sid l))
    \<and> Encode x (Some n) (l_codec l) (control_packet PacketSYNACK 0 1 (bytes_of_string sid))
        = (Inr w, control_packet PacketSYNACK 0 1 (bytes_of_string sid), l_codec l)
    \<and> length w = 79 + length sid"
proof -
  have pre: "HasPrefix (''AUTH:'' @ sid) ''AUTH:''" by (rule HasPrefix_append)
  have drop: "drop 5 (''AUTH:'' @ sid) = sid" by simp
  obtain w where "reply_synack x env addr sid (register x fl (env_now env) addr sid l)
      = Some (Inr (write_to (env_write_ok env) addr w (register x fl (env_now env) addr sid l)))"
    "Encode x (Some n) (l_codec l) (control_packet PacketSYNACK 0 1 (bytes_of_string sid))
        = (Inr w, control_packet PacketSYNACK 0 1 (bytes_of_string sid), l_codec l)"
    "length w = 79 + length sid"
    using reply_synack_total [OF assms(1) _ _ assms(4-6), of "register x fl (env_now env) addr sid l" addr]
      assms(2,3) by auto
  then show ?thesis using assms(7,8) pre drop by (simp add: handleSYN_def Let_def del: append_Cons)
qed

lemma offer_full:
  assumes "conn_at l i = Some c" "conn_wf x fl c" "\<not> conn_closed c" "\<not> length (acceptCh l) < 64" "\<not> l_closed l"
    and "map_of (sessions l) (sessionID c) = Some i"
  shows "\<exists>m c'. offer x env i l = Some m \<and> acceptCh m = acceptCh l \<and> l_written m = l_written l
    \<and> map_of (connections m) (remoteAddr c) = None \<and> map_of (sessions m) (sessionID c) = None
    \<and> conn_at m i = Some c' \<and> conn_closed c'"
proof -
  obtain m where m:
    "conn_op i (\<lambda>c. Some (Conn_Close x env c)) l = Some m"
    "map_of (sessions m) = (map_of (sessions l))(sessionID c := None)"
    "conn_at m i = Some (Conn_Close x env c)" "conn_closed (Conn_Close x env c)"
    "m = RemoveConnection (sessionID c) (put_conn i (Conn_Close x env c) l)"
    using conn_op_close [OF assms(1-3), of env] by auto
  have "offer x env i l = Some m" using assms(4,5) m(1) by (simp add: offer_def)
  moreover have "remoteAddr (Conn_Close x env c) = remoteAddr c"
    using Conn_Close_id [of c x env] by (simp add: same_id_def)
  then have "map_of (connections m) (remoteAddr c) = None" "acceptCh m = acceptCh l" "l_written m = l_written l"
    unfolding m(5) using assms(6) by (auto simp: RemoveConnection_def Let_def conn_at_def put_conn_def amap_simps
        split: option.splits)
  ultimately show ?thesis using m(2-4) by auto
qed

text \<open>C35. A SYN with \<^verbatim>\<open>AUTH:\<close> and a session id, from an address the listener does not know, makes a
  connection under that address and session, is answered with a SYN-ACK that every peer decodes
  to the session id (of 11 characters or more), and the connection is queued for \<^verbatim>\<open>Accept\<close>. With 64
  connections already queued the SYN-ACK is sent all the same and the connection is closed:
  the client takes a session for established that the server has dropped.\<close>

theorem listener_accepts:
  assumes "aead_correct x" "zstd_correct x" "reachable (listener_start x fl) (listener_step x fl) l"
    and "\<not> l_closed l" "\<not> compression_on (l_codec l)"
    and "env_nonce env = Some n" "length n = 24" "env_write_ok env"
    and "map_of (connections l) addr = None" "fst (Decode x (l_codec l) data) = Inr p"
    and "Type p = PacketSYN" "Flags p AND FlagMigrate = 0"
    and "string_of_bytes (Payload p) = ''AUTH:'' @ sid" "11 \<le> length sid" "length sid \<le> 1900"
  shows "\<exists>m w. readLoop x fl env addr data l = Some m \<and> l_written m = l_written l @ [(addr, w)]
    \<and> (\<forall>d. codec_wf x d \<and> codec_peer (l_codec l) d \<longrightarrow>
         (\<exists>q. fst (Decode x d w) = Inr q \<and> Type q = PacketSYNACK \<and> string_of_bytes (Payload q) = sid))
    \<and> (if length (acceptCh l) < 64
       then acceptCh m = acceptCh l @ [next_conn l] \<and> map_of (connections m) addr = Some (next_conn l)
         \<and> GetSession sid m = Some (next_conn l)
         \<and> (\<exists>c. conn_at m (next_conn l) = Some c \<and> \<not> conn_closed c \<and> workers c)
       else acceptCh m = acceptCh l \<and> map_of (connections m) addr = None \<and> GetSession sid m = None
         \<and> (\<exists>c. conn_at m (next_conn l) = Some c \<and> conn_closed c))"
proof -
  have cw: "codec_wf x (l_codec l)" "externals_ok x fl" using reachable_listener_codec [OF assms(3)] by simp_all
  have d: "Decode x (l_codec l) data = (Inr p, l_codec l)"
    using assms(10) Decode_off [OF assms(5), of x data] by (metis prod.collapse)
  have l0: "l\<lparr>l_codec := l_codec l\<rparr> = l" by (cases l) simp
  let ?r = "register x fl (env_now env) addr sid l" and ?i = "next_conn l"
  let ?c = "(newMTPConn x fl (env_now env) (l_udpConn l) addr (l_secret l) True (l_compression l))
      \<lparr>sessionID := sid, workers := True\<rparr>"
  obtain w where w: "handleSYN x fl env addr p l = offer x env ?i (write_to True addr w ?r)"
    "Encode x (Some n) (l_codec l) (control_packet PacketSYNACK 0 1 (bytes_of_string sid))
        = (Inr w, control_packet PacketSYNACK 0 1 (bytes_of_string sid), l_codec l)"
    "length w = 79 + length sid"
    using syn_registers [OF assms(1) cw(1) assms(5,6,7,15,12,13)] assms(8) by auto
  have step: "readLoop x fl env addr data l = offer x env ?i (write_to True addr w ?r)"
    using assms(4,9,11) d l0 w(1) by (simp add: readLoop_def)
  have syn: "\<exists>q. fst (Decode x v w) = Inr q \<and> Type q = PacketSYNACK \<and> string_of_bytes (Payload q) = sid"
    if v: "codec_wf x v" "codec_peer (l_codec l) v" for v
  proof -
    let ?p = "control_packet PacketSYNACK 0 1 (bytes_of_string sid)"
    have "fst (Decode x v w) = Inr (wire_view ?p)"
      by (rule decode_encode_fst [OF assms(1,2) cw(1) v assms(7), of ?p])
         (use w assms(14,15) in \<open>auto simp: control_packet_def intro: flag_consistent_fresh\<close>)
    then show ?thesis by (simp add: control_packet_def)
  qed
  let ?m0 = "write_to True addr w ?r"
  have m0: "l_written ?m0 = l_written l @ [(addr, w)]" by (simp add: write_to_def)
  have at0: "conn_at ?m0 ?i = Some ?c" using register_simps(8) [of x fl "env_now env" addr sid l ?i]
    by (simp add: conn_at_def)
  have c: "\<not> conn_closed ?c" "workers ?c" "sessionID ?c = sid" "remoteAddr ?c = addr"
    by (simp_all add: newMTPConn_def Let_def)
  show ?thesis
  proof (cases "length (acceptCh l) < 64")
    case True
    have "offer x env ?i ?m0 = Some (?m0\<lparr>acceptCh := acceptCh l @ [?i]\<rparr>)"
      using True assms(4) by (simp add: offer_def)
    moreover have "conn_at (?m0\<lparr>acceptCh := s\<rparr>) ?i = Some ?c" for s using at0 by (simp add: conn_at_def)
    ultimately show ?thesis using step syn True m0 c by (auto simp: GetSession_def)
  next
    case False
    have "conn_wf x fl ?c" using newMTPConn_wf [of fl x] cw(2) by (simp add: externals_ok_def conn_wf_def)
    from offer_full [OF at0 this c(1)] False assms(4) c(3,4)
    have "\<exists>m c'. offer x env ?i ?m0 = Some m \<and> acceptCh m = acceptCh l \<and> l_written m = l_written ?m0
        \<and> map_of (connections m) addr = None \<and> map_of (sessions m) sid = None \<and> conn_at m ?i = Some c' \<and> conn_closed c'"
      by simp
    then show ?thesis using step syn False m0 by (auto simp: GetSession_def)
  qed
qed

lemma demo_decode_syn:
  assumes "6 \<le> length s" "length s \<le> 1900"
  shows "\<exists>raw. fst (Decode demo (l_codec demo_listener) raw) = Inr (demo_syn (''AUTH:'' @ s))"
proof -
  let ?p = "demo_syn (''AUTH:'' @ s)"
  have k: "codec_wf demo (l_codec demo_listener)"
    using reachable_listener_codec [OF demo_listener_reachable] by simp
  obtain raw where "Encode demo (Some (replicate 24 1)) (l_codec demo_listener) ?p = (Inr raw, ?p, l_codec demo_listener)"
    "length raw = wire_size ?p"
    using Encode_off_total [OF demo_aead_correct k, of "replicate 24 1" ?p] assms(2)
    by (auto simp: demo_syn_def control_packet_def sack_part_def)
  then have "fst (Decode demo (l_codec demo_listener) raw) = Inr (wire_view ?p)"
    by (intro decode_encode_fst [OF _ _ k k, of "replicate 24 1" ?p])
       (use assms in \<open>auto simp: demo_syn_def control_packet_def wire_size_def isInitial_def sack_part_def
          intro: flag_consistent_fresh\<close>)
  moreover have "wire_view ?p = ?p" by (simp add: demo_syn_def control_packet_def wire_view_def)
  ultimately show ?thesis by auto
qed

lemma demo_syn_simps [simp]:
  "Type (demo_syn s) = 3" "Flags (demo_syn s) = 0" "string_of_bytes (Payload (demo_syn s)) = s"
  by (simp_all add: demo_syn_def control_packet_def)

theorem listener_accepts_witness:
  "\<exists>raw m. readLoop demo (\<lambda>r. r) demo_env ''a'' raw demo_listener = Some m
     \<and> acceptCh m = [0] \<and> GetSession ''a-session-id'' m = Some 0"
proof -
  obtain raw where raw: "fst (Decode demo (l_codec demo_listener) raw) = Inr (demo_syn (''AUTH:'' @ ''a-session-id''))"
    using demo_decode_syn [of "''a-session-id''"] by auto
  from listener_accepts [OF _ _ demo_listener_reachable _ _ _ _ _ _ raw, where env = demo_env
      and addr = "''a''" and sid = "''a-session-id''"]
  show ?thesis by auto
qed

text \<open>Two clients with the same id (the id is the configured UUID, not fresh): the second
  registration takes the session over, and when the first connection then closes, the session
  and the address of the second are removed with it, so the second client's datagrams reach no
  connection any more, while the first address still leads to the closed connection, which drops
  everything: from there nobody can connect again.\<close>

theorem listener_shared_session:
  assumes "reachable (listener_start x fl) (listener_step x fl) l" "a \<noteq> b"
    and "m = register x fl now2 b sid (register x fl now1 a sid l)"
    and "i = next_conn l"
  shows "\<exists>r. conn_op i (\<lambda>c. Some (Conn_Close x env c)) m = Some r
    \<and> GetSession sid m = Some (Suc i) \<and> map_of (connections m) b = Some (Suc i)
    \<and> GetSession sid r = None \<and> map_of (connections r) b = None
    \<and> map_of (connections r) a = Some i
    \<and> (l_closed l \<or> readLoop x fl env2 a data r = Some (put_conn i (Conn_Close x env (the (conn_at m i))) r))"
proof -
  have ok: "externals_ok x fl" "listener_wf x fl l" using listener.reachable_inv [OF assms(1)] by simp_all
  let ?c = "(newMTPConn x fl now1 (l_udpConn l) a (l_secret l) True (l_compression l))
      \<lparr>sessionID := sid, workers := True\<rparr>"
  have at: "conn_at m i = Some ?c" unfolding assms(3,4) by simp
  have c: "conn_wf x fl ?c" "\<not> conn_closed ?c" "sessionID ?c = sid"
    using newMTPConn_wf [of fl x] ok(1)
    by (simp_all add: externals_ok_def conn_wf_def) (simp_all add: newMTPConn_def Let_def)
  obtain r where r: "conn_op i (\<lambda>c. Some (Conn_Close x env c)) m = Some r"
    "map_of (sessions r) = (map_of (sessions m))(sid := None)"
    "conn_at r i = Some (Conn_Close x env ?c)" "conn_closed (Conn_Close x env ?c)"
    "r = RemoveConnection sid (put_conn i (Conn_Close x env ?c) m)"
    using conn_op_close [OF at c(1,2), of env] c(3) by auto
  have ses: "map_of (sessions m) sid = Some (Suc i)" and con: "map_of (connections m) b = Some (Suc i)"
    "map_of (connections m) a = Some i" unfolding assms(3,4) using assms(2) by simp_all
  obtain d where d: "conn_at (put_conn i (Conn_Close x env ?c) m) (Suc i) = Some d" "remoteAddr d = b"
    unfolding assms(3,4) by (simp add: newMTPConn_def Let_def)
  have "map_of (connections r) = (map_of (connections m))(b := None)"
    unfolding r(5) RemoveConnection_def using ses d
    by (simp add: Let_def conn_at_def amap_simps)
  then have rc: "map_of (connections r) b = None" "map_of (connections r) a = Some i" using con assms(2) by simp_all
  have "l_closed r = l_closed l" unfolding r(5) assms(3) by simp
  moreover have "readLoop x fl env2 a data r = Some (put_conn i (Conn_Close x env ?c) r)" if "\<not> l_closed r"
    using that rc(2) r(3,4) by (simp add: readLoop_def conn_op_def DispatchPacket_def)
  ultimately show ?thesis using r(1,2) ses con rc at by (auto simp: GetSession_def)
qed

theorem listener_shared_session_witness:
  "\<exists>r. conn_op 0 (\<lambda>c. Some (Conn_Close demo demo_env c))
       (register demo (\<lambda>r. r) 1 ''b'' ''uuid'' (register demo (\<lambda>r. r) 0 ''a'' ''uuid'' demo_listener)) = Some r
     \<and> GetSession ''uuid'' r = None \<and> map_of (connections r) ''b'' = None \<and> map_of (connections r) ''a'' = Some 0"
proof -
  have "''a'' \<noteq> ''b''" by simp
  from listener_shared_session [OF demo_listener_reachable this refl refl, where env = demo_env and sid = "''uuid''"]
  show ?thesis by fastforce
qed

text \<open>A listener that is closed while it handles a SYN panics: the registration and the SYN-ACK
  are done, then the connection is sent on the closed accept channel.\<close>

theorem listener_close_race:
  assumes "aead_correct x" "reachable (listener_start x fl) (listener_step x fl) l"
    and "\<not> compression_on (l_codec l)" "l_closed l"
    and "env_nonce env = Some n" "length n = 24" "length sid \<le> 1900"
    and "Flags p AND FlagMigrate = 0" "string_of_bytes (Payload p) = ''AUTH:'' @ sid"
  shows "handleSYN x fl env addr p l = None"
proof -
  have "codec_wf x (l_codec l)" using reachable_listener_codec [OF assms(2)] by simp
  from syn_registers [OF assms(1) this assms(3,5-9)] assms(4) show ?thesis by (auto simp: offer_def)
qed

theorem listener_close_race_witness:
  "\<exists>l. Listener_Close demo demo_env [] demo_listener = Some l
     \<and> handleSYN demo (\<lambda>r. r) demo_env ''a'' (demo_syn ''AUTH:x'') l = None"
proof -
  obtain l where l: "Listener_Close demo demo_env [] demo_listener = Some l"
    "l_closed l" "l_codec l = Codec_Close (l_codec demo_listener)"
    by (simp add: Listener_Close_def)
  have "reachable (listener_start demo (\<lambda>r. r)) (listener_step demo (\<lambda>r. r)) l"
    by (rule reach_step [OF demo_listener_reachable ls_close [OF l(1)]])
  moreover have "\<not> compression_on (l_codec l)"
    unfolding l(3) using demo_listener_simps(7) by (simp add: compression_on_def Codec_Close_def split: option.splits)
  ultimately have "handleSYN demo (\<lambda>r. r) demo_env ''a'' (demo_syn ''AUTH:x'') l = None"
    using l(2) by (intro listener_close_race [where n = "replicate 24 1" and sid = "''x''"]) simp_all
  then show ?thesis using l(1) by blast
qed

lemma migrate_passes_over:
  assumes "\<not> compression_on (arq_codec (arq c))"
    and "\<forall>att\<in>set atts. at_write_ok att \<and> ignored_reply x (arq_codec (arq c)) (at_response att)"
  shows "migrate_loop x atts c = (Inl (Err ErrMigrateTimeout), c)"
  using assms(2)
proof (induction atts)
  case (Cons att atts)
  have w: "at_write_ok att" "ignored_reply x (arq_codec (arq c)) (at_response att)"
    and ih: "migrate_loop x atts c = (Inl (Err ErrMigrateTimeout), c)"
    using Cons by simp_all
  show ?case
  proof (cases "at_response att")
    case (NetData raw)
    obtain r where d: "Decode x (arq_codec (arq c)) raw = (r, arq_codec (arq c))"
      using Decode_off [OF assms(1), of x raw] by (metis prod.collapse)
    then have "(\<exists>e. r = Inl (Err e)) \<or> (\<exists>p. r = Inr p \<and> Type p \<noteq> PacketSYNACK)"
      using w(2) NetData by (auto simp: ignored_reply_def)
    then show ?thesis using w(1) NetData d ih set_arq_same [of c "arq c"] by (auto simp: Let_def)
  qed (use w ih in \<open>auto simp: ignored_reply_def\<close>)
qed simp

text \<open>Migration cannot succeed. The listener moves the session to the new address and replies
  \<^verbatim>\<open>OK\<close>, a SYN-ACK so short that the client reads it one byte off; unless the AEAD accepts that
  shifted reading, the client passes over it, gives up after its five attempts, closes the new
  socket and stays on the old one, from where the listener no longer expects it: its datagrams
  there reach no connection.\<close>

lemma migration_fails:
  assumes "aead_correct x" "reachable (listener_start x fl) (listener_step x fl) l"
    and "\<not> compression_on (l_codec l)" "env_nonce env = Some n" "length n = 24" "env_write_ok env"
    and "GetSession sid l = Some i" "conn_at l i = Some s" "newAddr \<noteq> remoteAddr s"
    and "ok = control_packet PacketSYNACK 0 1 (bytes_of_string ''OK'')"
    and "aead_open x (sharedKey (l_codec l)) (0 # butlast n)
           (last n # butlast (aead_seal x (sharedKey (l_codec l)) n (plaintext_of ok (Payload ok)))) = None"
    and "codec_wf x (arq_codec (arq c))" "codec_peer (l_codec l) (arq_codec (arq c))"
    and "length n2 = 24" "sessionID c = sid" "length sid \<le> 1900"
  shows "\<exists>m w s'. handleMigration x env newAddr (''MIGRATE:'' @ sid) l = Some m
    \<and> l_written m = l_written l @ [(newAddr, w)]
    \<and> conn_at m i = Some s' \<and> remoteAddr s' = newAddr
    \<and> map_of (connections m) newAddr = Some i \<and> map_of (connections m) (remoteAddr s) = None
    \<and> (\<forall>attempts. (\<forall>att\<in>set (take 5 attempts). at_write_ok att
           \<and> (at_response att = NetTimeout \<or> at_response att = NetData w)) \<longrightarrow>
         (\<exists>c'. Migrate x (Some n2) (Some srv) (Some sock) attempts c = (Inl (Err ErrMigrateTimeout), c')
            \<and> remoteAddr c' = remoteAddr c \<and> udpConn c' = udpConn c
            \<and> closed_sockets c' = closed_sockets c @ [sock]))"
proof -
  have cw: "codec_wf x (l_codec l)" using reachable_listener_codec [OF assms(2)] by simp
  have off: "\<not> compression_on (arq_codec (arq c))"
    using assms(3,13) by (simp add: compression_on_def codec_peer_def)
  let ?n = "(put_conn i (s\<lparr>remoteAddr := newAddr\<rparr>) l)\<lparr>connections := AList.update newAddr i
      (AList.delete (remoteAddr s) (connections l))\<rparr>"
  have n: "l_codec ?n = l_codec l" "l_written ?n = l_written l"
    "conn_at ?n i = Some (s\<lparr>remoteAddr := newAddr\<rparr>)"
    using put_conn_simps(1) [of i "s\<lparr>remoteAddr := newAddr\<rparr>" l i] by (simp_all add: conn_at_def)
  obtain w where w: "reply_synack x env newAddr ''OK'' ?n = Some (Inr (write_to True newAddr w ?n))"
    "Encode x (Some n) (l_codec l) ok = (Inr w, ok, l_codec l)"
    using reply_synack_total [OF assms(1) _ _ assms(4,5), of ?n "''OK''" newAddr] cw assms(3,6,10) n(1)
    by auto
  let ?m = "write_to True newAddr w ?n"
  have pre: "HasPrefix (''MIGRATE:'' @ sid) ''MIGRATE:''" by (rule HasPrefix_append)
  have drop: "drop 8 (''MIGRATE:'' @ sid) = sid" by simp
  have h: "handleMigration x env newAddr (''MIGRATE:'' @ sid) l = Some ?m"
    unfolding handleMigration_def drop using pre assms(7,8) w(1) by (simp add: Let_def del: append_Cons)
  have m: "l_written ?m = l_written l @ [(newAddr, w)]" "conn_at ?m i = Some (s\<lparr>remoteAddr := newAddr\<rparr>)"
    "map_of (connections ?m) newAddr = Some i" "map_of (connections ?m) (remoteAddr s) = None"
    using n assms(9) by (simp_all add: write_to_def conn_at_def amap_simps)
  have "\<exists>v. Encode x (Some n) (l_codec l) ok = (Inr v, ok, l_codec l)
      \<and> Decode x (arq_codec (arq c)) v = (Inl (Err ErrDecrypt), arq_codec (arq c))"
    using short_initial [OF assms(1) cw assms(12,13,5,3) _ _ refl, of ok] assms(10,11)
    by (simp add: control_packet_def isInitial_def sack_part_def)
  then have lost: "fst (Decode x (arq_codec (arq c)) w) = Inl (Err ErrDecrypt)" using w(2) by simp
  have mig: "\<exists>c'. Migrate x (Some n2) (Some srv) (Some sock) attempts c = (Inl (Err ErrMigrateTimeout), c')
      \<and> remoteAddr c' = remoteAddr c \<and> udpConn c' = udpConn c \<and> closed_sockets c' = closed_sockets c @ [sock]"
    if at: "\<forall>att\<in>set (take 5 attempts). at_write_ok att
        \<and> (at_response att = NetTimeout \<or> at_response att = NetData w)" for attempts
  proof -
    have "migrate_loop x (take 5 attempts) c = (Inl (Err ErrMigrateTimeout), c)"
      by (rule migrate_passes_over [OF off]) (use at lost in \<open>auto simp: ignored_reply_def\<close>)
    moreover obtain v where "arq_encode x (Some n2) ((control_packet PacketSYN 0 0
        (bytes_of_string (''MIGRATE:'' @ sid)))\<lparr>Flags := FlagMigrate\<rparr>) (arq c)
      = (Inr v, (control_packet PacketSYN 0 0 (bytes_of_string (''MIGRATE:'' @ sid)))\<lparr>Flags := FlagMigrate\<rparr>, arq c)"
      using encode_syn [OF assms(1,12) off assms(14), of "''MIGRATE:'' @ sid" FlagMigrate] assms(16) by auto
    ultimately show ?thesis using assms(15) set_arq_same [of c "arq c"] by (simp add: Migrate_def)
  qed
  show ?thesis using h m mig by (intro exI [of _ ?m] exI [of _ w] exI [of _ "s\<lparr>remoteAddr := newAddr\<rparr>"]) auto
qed

lemma demo_session:
  "\<exists>l s. reachable (listener_start demo (\<lambda>r. r)) (listener_step demo (\<lambda>r. r)) l
     \<and> l_codec l = l_codec demo_listener \<and> GetSession ''session'' l = Some 0
     \<and> conn_at l 0 = Some s \<and> remoteAddr s = ''a''"
proof -
  obtain raw where raw: "fst (Decode demo (l_codec demo_listener) raw) = Inr (demo_syn (''AUTH:'' @ ''session''))"
    using demo_decode_syn [of "''session''"] by auto
  have d: "Decode demo (l_codec demo_listener) raw = (Inr (demo_syn (''AUTH:'' @ ''session'')), l_codec demo_listener)"
    using raw Decode_off [OF demo_listener_simps(7), of demo raw] by (metis prod.collapse)
  have cw: "codec_wf demo (l_codec demo_listener)"
    using reachable_listener_codec [OF demo_listener_reachable] by simp
  have l0: "demo_listener\<lparr>l_codec := l_codec demo_listener\<rparr> = demo_listener" by (cases demo_listener) simp
  let ?r = "register demo (\<lambda>r. r) (env_now demo_env) ''a'' ''session'' demo_listener"
  obtain w where w: "handleSYN demo (\<lambda>r. r) demo_env ''a'' (demo_syn (''AUTH:'' @ ''session'')) demo_listener
      = offer demo demo_env 0 (write_to True ''a'' w ?r)"
    using syn_registers [OF demo_aead_correct cw demo_listener_simps(7) demo_env_nonce(1), of "''session''"
        "demo_syn (''AUTH:'' @ ''session'')" "\<lambda>r. r" "''a''"] by auto
  let ?l = "(write_to True ''a'' w ?r)\<lparr>acceptCh := [0]\<rparr>"
  have "readLoop demo (\<lambda>r. r) demo_env ''a'' raw demo_listener = Some ?l"
    using d l0 w by (simp add: readLoop_def offer_def)
  then have "listener_step demo (\<lambda>r. r) demo_listener ?l" by (rule ls_datagram)
  then have "reachable (listener_start demo (\<lambda>r. r)) (listener_step demo (\<lambda>r. r)) ?l"
    by (rule reach_step [OF demo_listener_reachable])
  moreover have "l_codec ?l = l_codec demo_listener" "GetSession ''session'' ?l = Some 0"
    by (simp_all add: GetSession_def)
  moreover have "\<exists>s. conn_at ?l 0 = Some s \<and> remoteAddr s = ''a''"
    using register_simps(8) [of demo "\<lambda>r. r" "env_now demo_env" "''a''" "''session''" demo_listener 0]
    by (simp add: conn_at_def newMTPConn_def Let_def)
  ultimately show ?thesis by blast
qed

theorem listener_invariant_witness:
  "\<exists>l c. GetSession ''session'' l = Some 0 \<and> conn_at l 0 = Some c \<and> sessionID c = ''session''"
proof -
  obtain l where l: "reachable (listener_start demo (\<lambda>r. r)) (listener_step demo (\<lambda>r. r)) l"
    "GetSession ''session'' l = Some 0"
    using demo_session by blast
  from listener_invariant [OF l(1)] l(2) show ?thesis by blast
qed

lemma demo_migration_fails:
  "\<exists>l m w. handleMigration demo (demo_env\<lparr>env_nonce := Some (replicate 24 0)\<rparr>) ''b'' ''MIGRATE:session'' l = Some m
     \<and> map_of (connections m) ''a'' = None \<and> map_of (connections m) ''b'' = Some 0
     \<and> (\<exists>c'. Migrate demo (Some (replicate 24 1)) (Some ''s'') (Some 9)
            (replicate 5 \<lparr>at_now = 0, at_write_ok = True, at_response = NetData w\<rparr>) (demo_conn False)
          = (Inl (Err ErrMigrateTimeout), c'))"
proof -
  obtain l s where l: "reachable (listener_start demo (\<lambda>r. r)) (listener_step demo (\<lambda>r. r)) l"
    "l_codec l = l_codec demo_listener" "GetSession ''session'' l = Some 0"
    "conn_at l 0 = Some s" "remoteAddr s = ''a''"
    using demo_session by blast
  have off: "\<not> compression_on (l_codec l)" using l(2) by simp
  have codec: "arq_codec (arq (demo_conn False)) = l_codec l"
    by (simp add: l(2) demo_listener_def demo_conn_def newMTPConn_def NewARQEngine_def Let_def)
  have cw: "codec_wf demo (l_codec l)" using reachable_listener_codec [OF l(1)] by simp
  have sid: "sessionID (demo_conn False) = ''session''" by (simp add: demo_conn_def)
  have ne: "''b'' \<noteq> remoteAddr s" using l(5) by simp
  note mig = migration_fails [OF demo_aead_correct l(1) off _ _ _ l(3,4) ne refl, where c = "demo_conn False"
      and env = "demo_env\<lparr>env_nonce := Some (replicate 24 0)\<rparr>" and n = "replicate 24 0"
      and ?n2.0 = "replicate 24 1" and srv = "''s''" and sock = 9]
  have "\<exists>m w s'. handleMigration demo (demo_env\<lparr>env_nonce := Some (replicate 24 0)\<rparr>) ''b'' (''MIGRATE:'' @ ''session'') l = Some m
    \<and> l_written m = l_written l @ [(''b'', w)]
    \<and> conn_at m 0 = Some s' \<and> remoteAddr s' = ''b''
    \<and> map_of (connections m) ''b'' = Some 0 \<and> map_of (connections m) (remoteAddr s) = None
    \<and> (\<forall>attempts. (\<forall>att\<in>set (take 5 attempts). at_write_ok att
           \<and> (at_response att = NetTimeout \<or> at_response att = NetData w)) \<longrightarrow>
         (\<exists>c'. Migrate demo (Some (replicate 24 1)) (Some ''s'') (Some 9) attempts (demo_conn False)
             = (Inl (Err ErrMigrateTimeout), c')
            \<and> remoteAddr c' = remoteAddr (demo_conn False) \<and> udpConn c' = udpConn (demo_conn False)
            \<and> closed_sockets c' = closed_sockets (demo_conn False) @ [9]))"
    by (rule mig) (use codec cw sid in \<open>simp_all add: demo_open_zero\<close>)
  then obtain m w where m: "handleMigration demo (demo_env\<lparr>env_nonce := Some (replicate 24 0)\<rparr>) ''b'' (''MIGRATE:'' @ ''session'') l = Some m"
    "map_of (connections m) ''b'' = Some 0" "map_of (connections m) (remoteAddr s) = None"
    and lost: "(\<forall>att\<in>set (take 5 attempts). at_write_ok att
           \<and> (at_response att = NetTimeout \<or> at_response att = NetData w)) \<longrightarrow>
         (\<exists>c'. Migrate demo (Some (replicate 24 1)) (Some ''s'') (Some 9) attempts (demo_conn False)
             = (Inl (Err ErrMigrateTimeout), c')
            \<and> remoteAddr c' = remoteAddr (demo_conn False) \<and> udpConn c' = udpConn (demo_conn False)
            \<and> closed_sockets c' = closed_sockets (demo_conn False) @ [9])" for attempts
    by blast
  have "\<exists>c'. Migrate demo (Some (replicate 24 1)) (Some ''s'') (Some 9)
      (replicate 5 \<lparr>at_now = 0, at_write_ok = True, at_response = NetData w\<rparr>) (demo_conn False)
    = (Inl (Err ErrMigrateTimeout), c')"
    using lost [of "replicate 5 \<lparr>at_now = 0, at_write_ok = True, at_response = NetData w\<rparr>"] by auto
  then show ?thesis using m l(5) by (intro exI [of _ l] exI [of _ m] exI [of _ w]) simp
qed

end
