(* ===== verification/VirtualConn.thy ===== *)
theory VirtualConn
  imports Listener "HOL-Library.Multiset"
begin

text \<open>
  The connection that survives a change of its transport (\<^verbatim>\<open>pkg/transport/virtual_conn.go\<close>).
  The wrapped \<^verbatim>\<open>net.Conn\<close> is a number; what its methods do is an argument of the operations,
  with \<open>'w\<close> the world they act on. \<open>None\<close> is a call that panics or has not returned.
  \<^verbatim>\<open>swapSignal\<close> is created and never used. The sections the two mutexes make atomic are
  definitions of their own, so that the other goroutines' writes can come between them.
\<close>

section \<open>State and operations\<close>

record VirtualConn =
  vc_conn :: "nat option"
  swapping :: bool
  swapBuf :: "bytes list"

type_synonym go_error = "conn_error failure option"
type_synonym 'w conn_write = "nat \<Rightarrow> bytes \<Rightarrow> 'w \<Rightarrow> (nat \<times> go_error \<times> 'w) option"
type_synonym 'w conn_read = "nat \<Rightarrow> nat \<Rightarrow> 'w \<Rightarrow> (bytes \<times> go_error \<times> 'w) option"
type_synonym 'w conn_call = "nat \<Rightarrow> 'w \<Rightarrow> go_error \<times> 'w"

definition NewVirtualConn :: "nat option \<Rightarrow> VirtualConn" where
  "NewVirtualConn c = \<lparr> vc_conn = c, swapping = False, swapBuf = [] \<rparr>"

definition SwapConnection :: "nat option \<Rightarrow> VirtualConn \<Rightarrow> VirtualConn" where
  "SwapConnection c v = v\<lparr>vc_conn := c\<rparr>"

definition swap_begin :: "VirtualConn \<Rightarrow> VirtualConn" where
  "swap_begin v = v\<lparr>swapping := True, swapBuf := []\<rparr>"

definition swap_end :: "VirtualConn \<Rightarrow> bytes list \<times> VirtualConn" where
  "swap_end v = (swapBuf v, v\<lparr>swapping := False, swapBuf := []\<rparr>)"

fun replay :: "'w conn_write \<Rightarrow> nat \<Rightarrow> bytes list \<Rightarrow> 'w \<Rightarrow> (go_error \<times> 'w) option" where
  "replay wr c [] w = Some (None, w)"
| "replay wr c (d # ds) w =
     (case wr c d w of
        None \<Rightarrow> None
      | Some (_, Some e, w) \<Rightarrow> Some (Some e, w)
      | Some (_, None, w) \<Rightarrow> replay wr c ds w)"

text \<open>\<^verbatim>\<open>Write\<close>: the check of \<^verbatim>\<open>swapping\<close>, then the read of \<^verbatim>\<open>conn\<close> and the write.\<close>

definition buffer_write :: "bytes \<Rightarrow> VirtualConn \<Rightarrow> VirtualConn option" where
  "buffer_write b v = (if swapping v then Some (v\<lparr>swapBuf := swapBuf v @ [b]\<rparr>) else None)"

definition direct_write :: "'w conn_write \<Rightarrow> bytes \<Rightarrow> VirtualConn \<Rightarrow> 'w
    \<Rightarrow> (nat \<times> go_error \<times> 'w) option" where
  "direct_write wr b v w =
     (case vc_conn v of None \<Rightarrow> Some (0, Some (Err ErrNetClosed), w) | Some c \<Rightarrow> wr c b w)"

definition VC_Write :: "'w conn_write \<Rightarrow> bytes \<Rightarrow> VirtualConn \<Rightarrow> 'w
    \<Rightarrow> (nat \<times> go_error \<times> VirtualConn \<times> 'w) option" where
  "VC_Write wr b v w =
     (case buffer_write b v of
        Some v \<Rightarrow> Some (length b, None, v, w)
      | None \<Rightarrow>
          (case direct_write wr b v w of
             None \<Rightarrow> None | Some (n, e, w) \<Rightarrow> Some (n, e, v, w)))"

text \<open>The writes of other goroutines, one after the other.\<close>

fun VC_Writes :: "'w conn_write \<Rightarrow> bytes list \<Rightarrow> VirtualConn \<Rightarrow> 'w
    \<Rightarrow> ((nat \<times> go_error) list \<times> VirtualConn \<times> 'w) option" where
  "VC_Writes wr [] v w = Some ([], v, w)"
| "VC_Writes wr (b # bs) v w =
     (case VC_Write wr b v w of
        None \<Rightarrow> None
      | Some (n, e, v, w) \<Rightarrow>
          (case VC_Writes wr bs v w of
             None \<Rightarrow> None | Some (rs, v, w) \<Rightarrow> Some ((n, e) # rs, v, w)))"

text \<open>
  \<^verbatim>\<open>SwapConnectionSeamless\<close>, with the writes \<open>during\<close> that other goroutines make while
  \<^verbatim>\<open>swapping\<close> is set and those, \<open>between\<close>, they make between its clearing and the replay.
\<close>

definition SwapConnectionSeamless :: "'w conn_write \<Rightarrow> bytes list \<Rightarrow> bytes list \<Rightarrow> nat
    \<Rightarrow> VirtualConn \<Rightarrow> 'w \<Rightarrow> (go_error \<times> VirtualConn \<times> 'w) option" where
  "SwapConnectionSeamless wr during between newConn v w =
     (let v = SwapConnection (Some newConn) (swap_begin v)
      in case VC_Writes wr during v w of
           None \<Rightarrow> None
         | Some (_, v, w) \<Rightarrow>
             (case swap_end v of
                (buffered, v) \<Rightarrow>
                  (case VC_Writes wr between v w of
                     None \<Rightarrow> None
                   | Some (_, v, w) \<Rightarrow>
                       (case replay wr newConn buffered w of
                          None \<Rightarrow> None | Some (e, w) \<Rightarrow> Some (e, v, w)))))"

definition VC_Read :: "'w conn_read \<Rightarrow> nat \<Rightarrow> VirtualConn \<Rightarrow> 'w
    \<Rightarrow> (bytes \<times> go_error \<times> 'w) option" where
  "VC_Read rd n v w =
     (case vc_conn v of None \<Rightarrow> Some ([], Some (Err ErrNetClosed), w) | Some c \<Rightarrow> rd c n w)"

text \<open>\<^verbatim>\<open>Close\<close> and the deadlines are handed on; without a connection they do nothing.\<close>

definition VC_Close :: "'w conn_call \<Rightarrow> VirtualConn \<Rightarrow> 'w \<Rightarrow> go_error \<times> 'w" where
  "VC_Close close_conn v w =
     (case vc_conn v of None \<Rightarrow> (None, w) | Some c \<Rightarrow> close_conn c w)"

definition VC_SetDeadline :: "(int option \<Rightarrow> 'w conn_call) \<Rightarrow> int option \<Rightarrow> VirtualConn \<Rightarrow> 'w
    \<Rightarrow> go_error \<times> 'w" where
  "VC_SetDeadline set_dl t v w =
     (case vc_conn v of None \<Rightarrow> (None, w) | Some c \<Rightarrow> set_dl t c w)"

definition VC_SetReadDeadline :: "(int option \<Rightarrow> 'w conn_call) \<Rightarrow> int option \<Rightarrow> VirtualConn \<Rightarrow> 'w
    \<Rightarrow> go_error \<times> 'w" where
  "VC_SetReadDeadline set_dl t v w =
     (case vc_conn v of None \<Rightarrow> (None, w) | Some c \<Rightarrow> set_dl t c w)"

definition VC_SetWriteDeadline :: "(int option \<Rightarrow> 'w conn_call) \<Rightarrow> int option \<Rightarrow> VirtualConn \<Rightarrow> 'w
    \<Rightarrow> go_error \<times> 'w" where
  "VC_SetWriteDeadline set_dl t v w =
     (case vc_conn v of None \<Rightarrow> (None, w) | Some c \<Rightarrow> set_dl t c w)"

text \<open>\<^verbatim>\<open>&net.UDPAddr{}\<close> prints as \<^verbatim>\<open>:0\<close>.\<close>

definition VC_RemoteAddr :: "(nat \<Rightarrow> string) \<Rightarrow> VirtualConn \<Rightarrow> string" where
  "VC_RemoteAddr addr v = (case vc_conn v of None \<Rightarrow> '':0'' | Some c \<Rightarrow> addr c)"

definition VC_LocalAddr :: "(nat \<Rightarrow> string) \<Rightarrow> VirtualConn \<Rightarrow> string" where
  "VC_LocalAddr addr v = (case vc_conn v of None \<Rightarrow> '':0'' | Some c \<Rightarrow> addr c)"

section \<open>The contract of a writer\<close>

text \<open>
  \<^verbatim>\<open>io.Writer\<close>: at most \<^verbatim>\<open>len(b)\<close> bytes are taken, all of them unless an error is returned.
\<close>

locale writer =
  fixes wr :: "'w conn_write"
  assumes taken: "wr c b w = Some (n, e, w') \<Longrightarrow> n \<le> length b \<and> (e = None \<longrightarrow> n = length b)"
begin

lemma virtual_taken:
  assumes "VC_Write wr b v w = Some (n, e, v', w')"
  shows "n \<le> length b \<and> (e = None \<longrightarrow> n = length b)"
  using assms taken
  by (auto simp: VC_Write_def buffer_write_def direct_write_def split: option.splits if_splits)

end

text \<open>
  The writers of this repository: the connections of a store, by \<^verbatim>\<open>MTPConn.Write\<close>.
\<close>

definition mtp_write :: "externals \<Rightarrow> (rat \<Rightarrow> rat) \<Rightarrow> (nat \<Rightarrow> call_env) \<Rightarrow> int
    \<Rightarrow> (conn_id, MTPConn) gomap conn_write" where
  "mtp_write x fl envs now i b w =
     (case map_of w i of
        None \<Rightarrow> None
      | Some c \<Rightarrow>
          (case Write x fl envs now b c of
             None \<Rightarrow> None | Some (n, e, c) \<Rightarrow> Some (n, e, AList.update i c w)))"

section \<open>Swaps among other goroutines\<close>

text \<open>
  One swap at a time runs against any number of writers. A writer that has passed the check is
  in \<open>passed\<close>, one that has read \<^verbatim>\<open>conn\<close> in \<open>aimed\<close>; \<open>wires\<close> is what each connection took.
  \<open>offered\<close>, \<open>refused\<close> and \<open>dropped\<close> record the calls of \<^verbatim>\<open>Write\<close>, those that returned an error,
  and what a failed replay throws away although its \<^verbatim>\<open>Write\<close> had returned success.
\<close>

datatype swapper = Idle | Begun nat | Swapped nat | Replaying nat "bytes list"

record vc_system =
  vc :: VirtualConn
  swapper :: swapper
  passed :: "bytes list"
  aimed :: "(nat \<times> bytes) list"
  wires :: "(nat \<times> bytes) list"
  offered :: "bytes list"
  refused :: "bytes list"
  dropped :: "bytes list"

datatype vc_event =
  WriteCheck bytes | WriteAim nat | WriteDone nat bool
  | SwapBegin nat | SwapConn | SwapEnd | ReplayNext bool

definition remove_nth :: "nat \<Rightarrow> 'a list \<Rightarrow> 'a list" where
  "remove_nth i xs = take i xs @ drop (Suc i) xs"

text \<open>An event that is not enabled changes nothing.\<close>

fun vc_step :: "vc_system \<Rightarrow> vc_event \<Rightarrow> vc_system" where
  "vc_step s (WriteCheck b) =
     (case buffer_write b (vc s) of
        Some v \<Rightarrow> s\<lparr>vc := v, offered := offered s @ [b]\<rparr>
      | None \<Rightarrow> s\<lparr>passed := passed s @ [b], offered := offered s @ [b]\<rparr>)"
| "vc_step s (WriteAim i) =
     (if i < length (passed s) then
        let b = passed s ! i; s = s\<lparr>passed := remove_nth i (passed s)\<rparr>
        in case vc_conn (vc s) of
             None \<Rightarrow> s\<lparr>refused := refused s @ [b]\<rparr>
           | Some c \<Rightarrow> s\<lparr>aimed := aimed s @ [(c, b)]\<rparr>
      else s)"
| "vc_step s (WriteDone i ok) =
     (if i < length (aimed s) then
        let (c, b) = aimed s ! i; s = s\<lparr>aimed := remove_nth i (aimed s)\<rparr>
        in if ok then s\<lparr>wires := wires s @ [(c, b)]\<rparr> else s\<lparr>refused := refused s @ [b]\<rparr>
      else s)"
| "vc_step s (SwapBegin c) =
     (if swapper s = Idle then s\<lparr>vc := swap_begin (vc s), swapper := Begun c\<rparr> else s)"
| "vc_step s SwapConn =
     (case swapper s of
        Begun c \<Rightarrow> s\<lparr>vc := SwapConnection (Some c) (vc s), swapper := Swapped c\<rparr>
      | _ \<Rightarrow> s)"
| "vc_step s SwapEnd =
     (case swapper s of
        Swapped c \<Rightarrow> (case swap_end (vc s) of (buffered, v) \<Rightarrow> s\<lparr>vc := v, swapper := Replaying c buffered\<rparr>)
      | _ \<Rightarrow> s)"
| "vc_step s (ReplayNext ok) =
     (case swapper s of
        Replaying c [] \<Rightarrow> s\<lparr>swapper := Idle\<rparr>
      | Replaying c (d # ds) \<Rightarrow>
          (if ok then s\<lparr>wires := wires s @ [(c, d)], swapper := Replaying c ds\<rparr>
           else s\<lparr>dropped := dropped s @ d # ds, swapper := Idle\<rparr>)
      | _ \<Rightarrow> s)"

definition vc_new :: "nat \<Rightarrow> vc_system" where
  "vc_new c = \<lparr> vc = NewVirtualConn (Some c), swapper = Idle, passed = [], aimed = [], wires = [],
     offered = [], refused = [], dropped = [] \<rparr>"

fun waiting :: "swapper \<Rightarrow> bytes list" where
  "waiting (Replaying c ds) = ds"
| "waiting _ = []"

fun in_swap :: "swapper \<Rightarrow> bool" where
  "in_swap (Begun c) = True"
| "in_swap (Swapped c) = True"
| "in_swap _ = False"

definition vc_flags :: "vc_system \<Rightarrow> bool" where
  "vc_flags s \<longleftrightarrow> swapping (vc s) = in_swap (swapper s) \<and> (\<not> swapping (vc s) \<longrightarrow> swapBuf (vc s) = [])"

text \<open>Where every chunk is that was given to \<^verbatim>\<open>Write\<close>.\<close>

definition whereabouts :: "vc_system \<Rightarrow> bytes multiset" where
  "whereabouts s = mset (map snd (wires s)) + mset (map snd (aimed s)) + mset (passed s)
     + mset (waiting (swapper s)) + mset (swapBuf (vc s)) + mset (refused s) + mset (dropped s)"

definition vc_inv :: "vc_system \<Rightarrow> bool" where
  "vc_inv s \<longleftrightarrow> vc_flags s \<and> whereabouts s = mset (offered s)"

lemmas vc_defs = buffer_write_def swap_begin_def swap_end_def SwapConnection_def

lemma mset_remove_nth:
  "i < length xs \<Longrightarrow> mset xs = add_mset (xs ! i) (mset (remove_nth i xs))"
  by (subst id_take_nth_drop [of i xs]) (auto simp: remove_nth_def)

lemma vc_step_inv: "vc_inv s \<Longrightarrow> vc_inv (vc_step s e)"
proof (cases e)
  case (WriteAim i)
  then show "vc_inv s \<Longrightarrow> ?thesis"
    using mset_remove_nth [of i "passed s"]
    by (auto simp: vc_inv_def vc_flags_def whereabouts_def Let_def split: option.splits)
next
  case (WriteDone i ok)
  then show "vc_inv s \<Longrightarrow> ?thesis"
    using arg_cong [OF mset_remove_nth [of i "aimed s"], of "image_mset snd"]
    by (auto simp: vc_inv_def vc_flags_def whereabouts_def Let_def split: prod.splits)
qed (auto simp: vc_inv_def vc_flags_def whereabouts_def vc_defs ac_simps
       split: option.splits swapper.splits list.splits if_splits)

lemma vc_new_inv: "vc_inv (vc_new c)"
  by (simp add: vc_inv_def vc_flags_def whereabouts_def vc_new_def NewVirtualConn_def)

text \<open>Only a failed replay drops.\<close>

lemma vc_step_dropped: "e \<noteq> ReplayNext False \<Longrightarrow> dropped (vc_step s e) = dropped s"
  by (cases e) (auto simp: Let_def split: option.splits prod.splits swapper.splits list.splits)

subsection \<open>One writer\<close>

text \<open>
  What yamux does: one goroutine writes, each write after the one before it. Writes keep their
  order as long as none of them falls into the replay.
\<close>

definition calm :: "vc_system \<Rightarrow> vc_event \<Rightarrow> bool" where
  "calm s e \<longleftrightarrow>
     (case e of
        WriteCheck b \<Rightarrow> passed s = [] \<and> aimed s = [] \<and> waiting (swapper s) = []
      | WriteDone i ok \<Rightarrow> ok
      | ReplayNext ok \<Rightarrow> ok
      | _ \<Rightarrow> True)"

definition calm_step :: "vc_system \<Rightarrow> vc_event \<Rightarrow> vc_system" where
  "calm_step s e = (if calm s e then vc_step s e else s)"

text \<open>The abstract connection is a queue: what was accepted, in order.\<close>

definition vc_stream :: "vc_system \<Rightarrow> bytes list" where
  "vc_stream s = map snd (wires s) @ map snd (aimed s) @ passed s @ waiting (swapper s) @ swapBuf (vc s)"

definition one_writer :: "vc_system \<Rightarrow> bool" where
  "one_writer s \<longleftrightarrow> vc_flags s \<and> vc_conn (vc s) \<noteq> None \<and> vc_stream s = offered s
     \<and> length (passed s) + length (aimed s) \<le> 1
     \<and> (passed s \<noteq> [] \<or> aimed s \<noteq> [] \<longrightarrow> waiting (swapper s) = [] \<and> swapBuf (vc s) = [])"

lemma one_writer_step: "one_writer s \<Longrightarrow> one_writer (calm_step s e)"
proof (cases e)
  case (WriteAim i)
  then show "one_writer s \<Longrightarrow> ?thesis"
    by (cases "passed s")
      (auto simp: one_writer_def calm_step_def calm_def vc_flags_def vc_stream_def remove_nth_def Let_def
        split: option.splits)
next
  case (WriteDone i ok)
  then show "one_writer s \<Longrightarrow> ?thesis"
    by (cases "aimed s")
      (auto simp: one_writer_def calm_step_def calm_def vc_flags_def vc_stream_def remove_nth_def Let_def
        split: option.splits)
qed (auto simp: one_writer_def calm_step_def calm_def vc_flags_def vc_stream_def vc_defs
       split: option.splits swapper.splits list.splits if_splits)

lemma vc_new_one_writer: "one_writer (vc_new c)"
  by (simp add: one_writer_def vc_flags_def vc_stream_def vc_new_def NewVirtualConn_def)

lemma vc_run_inv: "vc_inv (foldl vc_step (vc_new c) es)"
  by (rule foldl_inv [where I = vc_inv]) (auto intro: vc_step_inv vc_new_inv)

lemma vc_run_dropped: "ReplayNext False \<notin> set es \<Longrightarrow> dropped (foldl vc_step s es) = dropped s"
  by (induction es arbitrary: s) (auto simp: vc_step_dropped)

lemma calm_run: "one_writer (foldl calm_step (vc_new c) es)"
  by (rule foldl_inv [where I = one_writer]) (auto intro: one_writer_step vc_new_one_writer)

subsection \<open>The connections of the store are writers\<close>

lemma write_loop_taken:
  "write_loop x fl envs k rem tot c = Some (n, e, c') \<Longrightarrow> n \<le> tot + length rem \<and> (e = None \<longrightarrow> n = tot + length rem)"
proof (induction "length rem" arbitrary: k rem tot c rule: less_induct)
  case less
  note loop = less.prems [unfolded write_loop.simps [of x fl envs k rem tot c]]
  show ?case
  proof (cases "rem = [] \<or> conn_closed c")
    case False
    define n' where "n' = min (length rem) MaxPayloadSize"
    have small: "length (drop n' rem) < length rem" "length (drop n' rem) + n' = length rem"
      using False by (auto simp: n'_def MaxPayloadSize_def)
    show ?thesis
    proof (cases "\<exists>u d. conn_send x fl (envs k) (take n' rem) c = Some (Inr u, d)")
      case True
      then obtain u d where "write_loop x fl envs (k + 1) (drop n' rem) (tot + n') d = Some (n, e, c')"
        using loop False by (auto simp: Let_def n'_def)
      then show ?thesis using less.hyps [OF small(1)] small(2) by fastforce
    next
      case stop: False
      then show ?thesis using loop False
        by (auto simp: Let_def n'_def [symmetric] split: option.splits prod.splits sum.splits failure.splits)
    qed
  qed (use loop in \<open>auto split: if_splits\<close>)
qed

interpretation mtp: writer "mtp_write x fl envs now"
proof
  fix c :: nat and b n e and w w' :: "(conn_id, MTPConn) gomap"
  assume "mtp_write x fl envs now c b w = Some (n, e, w')"
  then show "n \<le> length b \<and> (e = None \<longrightarrow> n = length b)"
    using write_loop_taken [of x fl envs 0 b 0]
    by (fastforce simp: mtp_write_def Write_def split: option.splits if_splits prod.splits)
qed

section \<open>Properties\<close>

text \<open>C12. Whatever the interleaving of writers with seamless swaps (one at a time), no write is
  lost or sent twice: each chunk given to \<^verbatim>\<open>Write\<close> has gone to exactly one connection, or is on its
  way or in the buffer, or its \<^verbatim>\<open>Write\<close> has reported an error. Only a replay that fails discards
  chunks that \<^verbatim>\<open>Write\<close> had accepted; between swaps nothing is buffered.\<close>

theorem virtual_conserves:
  assumes "s = foldl vc_step (vc_new c) es"
  shows "mset (offered s) = mset (map snd (wires s)) + mset (map snd (aimed s)) + mset (passed s)
        + mset (waiting (swapper s)) + mset (swapBuf (vc s)) + mset (refused s) + mset (dropped s)
     \<and> (\<not> in_swap (swapper s) \<longrightarrow> swapBuf (vc s) = [])
     \<and> (ReplayNext False \<notin> set es \<longrightarrow> dropped s = [])"
  using vc_run_inv [of c es] vc_run_dropped [of es "vc_new c"]
  by (auto simp: assms vc_inv_def vc_flags_def whereabouts_def vc_new_def)

theorem virtual_conserves_witness:
  "dropped (foldl vc_step (vc_new 0) [SwapBegin 1, WriteCheck [7], SwapConn, SwapEnd, ReplayNext True]) = []"
  using virtual_conserves [OF refl, of 0 "[SwapBegin 1, WriteCheck [7], SwapConn, SwapEnd, ReplayNext True]"]
  by simp

text \<open>C13. A single writer, as yamux is: as long as none of its writes falls into the replay, the
  connections together take a prefix of what was written, in order, and all of it once nothing is
  on its way. One write that is made between the clearing of \<^verbatim>\<open>swapping\<close> and the replay is enough
  for the new connection to get the two chunks in the wrong order.\<close>

theorem virtual_order:
  assumes "s = foldl calm_step (vc_new c) es"
  shows "prefix (map snd (wires s)) (offered s)
     \<and> (aimed s = [] \<and> passed s = [] \<and> swapper s = Idle \<longrightarrow> map snd (wires s) = offered s)
     \<and> (\<forall>a b. let t = foldl vc_step (vc_new c) [SwapBegin d, SwapConn, WriteCheck a, SwapEnd,
              WriteCheck b, WriteAim 0, WriteDone 0 True, ReplayNext True, ReplayNext True]
         in offered t = [a, b] \<and> wires t = [(d, b), (d, a)] \<and> swapper t = Idle
            \<and> refused t = [] \<and> dropped t = [])"
proof -
  have w: "one_writer s" using calm_run [of c es] by (simp add: assms)
  then have "prefix (map snd (wires s)) (offered s)" by (metis one_writer_def vc_stream_def prefixI)
  moreover have "(aimed s = [] \<and> passed s = [] \<and> swapper s = Idle \<longrightarrow> map snd (wires s) = offered s)"
    using w by (auto simp: one_writer_def vc_stream_def vc_flags_def)
  ultimately show ?thesis by (simp add: vc_defs vc_new_def NewVirtualConn_def remove_nth_def)
qed

theorem virtual_order_witness:
  "map snd (wires (foldl calm_step (vc_new 0) [WriteCheck [1], WriteAim 0, WriteDone 0 True])) = [[1]]"
  using virtual_order [OF refl, of 0 "[WriteCheck [1], WriteAim 0, WriteDone 0 True]"]
  by (simp add: calm_step_def calm_def vc_defs vc_new_def NewVirtualConn_def remove_nth_def)

text \<open>A second swap that begins before the first has ended throws away what was buffered.\<close>

lemma overlapping_swaps:
  "swapping v \<Longrightarrow> VC_Write wr b v w = Some (length b, None, v', w') \<Longrightarrow> swapBuf (swap_begin v') = []"
  by (simp add: swap_begin_def)

end
