(* ===== verification/Manager.thy ===== *)
theory Manager
  imports VirtualConn
begin

text \<open>
  The transport manager (\<^verbatim>\<open>pkg/transport/manager.go\<close>): the session over one MTP connection and the
  rotation of domains. Connections live in a store, as in \<open>Listener\<close>; a yamux session is a number,
  and what \<^verbatim>\<open>yamux.Client\<close> and \<^verbatim>\<open>IsClosed\<close> say is an argument. Durations are nanoseconds.
\<close>

section \<open>State\<close>

record RotationConfig =
  SwitchMin :: int
  SwitchMax :: int
  Randomize :: bool

record Manager =
  serverAddr :: string
  m_uuid :: string
  m_session :: "nat option"
  virtualConn :: "VirtualConn option"
  currentConn :: "conn_id option"
  mtpConn :: "conn_id option"
  currentDomain :: string
  domainIdx :: nat
  domains :: "string list"
  rotCfg :: RotationConfig

record Store =
  st_conns :: "(conn_id, MTPConn) gomap"
  st_next :: conn_id
  st_closed :: "nat list" \<comment> \<open>yamux sessions on which Close was called\<close>

datatype manager_error =
  ErrNotInitialized | ErrMtpDial "conn_error failure" | ErrYamuxClient | ErrMigrate conn_error

text \<open>What the resolver, the sockets and the peer do in one dial.\<close>

record dial_env =
  d_now :: int
  d_resolved :: "string option"
  d_dialled :: "nat option"
  d_nonce :: "bytes option"
  d_attempts :: "attempt list"

definition NewManager :: "string \<Rightarrow> string \<Rightarrow> Manager" where
  "NewManager srv uuid = \<lparr> serverAddr = srv, m_uuid = uuid, m_session = None, virtualConn = None,
     currentConn = None, mtpConn = None, currentDomain = [], domainIdx = 0, domains = [],
     rotCfg = \<lparr> SwitchMin = 60 * second, SwitchMax = 300 * second, Randomize = False \<rparr> \<rparr>"

definition SetDomains :: "string list \<Rightarrow> Manager \<Rightarrow> Manager" where
  "SetDomains ds m =
     (let m = m\<lparr>domains := ds\<rparr> in if ds \<noteq> [] then m\<lparr>currentDomain := ds ! 0\<rparr> else m)"

definition SetRotationConfig :: "RotationConfig \<Rightarrow> Manager \<Rightarrow> Manager" where
  "SetRotationConfig cfg m =
     (let r = rotCfg m;
          r = (if SwitchMin cfg > 0 then r\<lparr>SwitchMin := SwitchMin cfg\<rparr> else r);
          r = (if SwitchMax cfg > SwitchMin cfg then r\<lparr>SwitchMax := SwitchMax cfg\<rparr>
               else if SwitchMax cfg = 0 then r\<lparr>SwitchMax := SwitchMin r * 5\<rparr> else r)
      in m\<lparr>rotCfg := r\<lparr>Randomize := Randomize cfg\<rparr>\<rparr>)"

text \<open>\<open>rnd n\<close> is what \<^verbatim>\<open>rand.Int63n\<close>, or \<^verbatim>\<open>rand.Intn\<close>, returns for \<open>n\<close>.\<close>

definition NextRotationDelay :: "(int \<Rightarrow> int) \<Rightarrow> Manager \<Rightarrow> int" where
  "NextRotationDelay rnd m =
     (let min = SwitchMin (rotCfg m); max = SwitchMax (rotCfg m)
      in if max \<le> min then min else min + rnd (max - min))"

section \<open>The session\<close>

text \<open>
  \<open>yamux\<close> is the session \<^verbatim>\<open>yamux.Client\<close> makes, unless it fails; the connection is closed then, but
  stays the manager's. \<open>None\<close>: the dial panicked.
\<close>

definition new_session :: "externals \<Rightarrow> (rat \<Rightarrow> rat) \<Rightarrow> call_env \<Rightarrow> dial_env \<Rightarrow> nat option \<Rightarrow> string
    \<Rightarrow> Manager \<Rightarrow> Store \<Rightarrow> ((manager_error + nat) \<times> Manager \<times> Store) option" where
  "new_session x fl env d yamux initialDomain m st =
     (case DialWithConfig x fl (d_now d) (d_resolved d) (d_dialled d) (d_nonce d) (d_attempts d)
             (m_uuid m) None of
        (Inr _, Some c) \<Rightarrow>
          let i = st_next st;
              m = m\<lparr>currentConn := Some i, mtpConn := Some i, virtualConn := Some (NewVirtualConn (Some i))\<rparr>;
              m = (if initialDomain \<noteq> [] then m\<lparr>currentDomain := initialDomain\<rparr>
                   else if domains m \<noteq> [] then m\<lparr>currentDomain := domains m ! 0\<rparr> else m);
              st = st\<lparr>st_next := i + 1\<rparr>
          in (case yamux of
                None \<Rightarrow> Some (Inl ErrYamuxClient, m,
                  st\<lparr>st_conns := AList.update i (Conn_Close x env c) (st_conns st)\<rparr>)
              | Some s \<Rightarrow> Some (Inr s, m\<lparr>m_session := Some s\<rparr>,
                  st\<lparr>st_conns := AList.update i c (st_conns st)\<rparr>))
      | (Inl Panic, _) \<Rightarrow> None
      | (Inl e, _) \<Rightarrow> Some (Inl (ErrMtpDial e), m, st)
      | _ \<Rightarrow> None)"

text \<open>\<open>session_closed\<close>: \<^verbatim>\<open>IsClosed\<close> of the session there is.\<close>

definition StartSession :: "externals \<Rightarrow> (rat \<Rightarrow> rat) \<Rightarrow> call_env \<Rightarrow> dial_env \<Rightarrow> bool \<Rightarrow> nat option \<Rightarrow> string
    \<Rightarrow> Manager \<Rightarrow> Store \<Rightarrow> ((manager_error + nat) \<times> Manager \<times> Store) option" where
  "StartSession x fl env d session_closed yamux initialDomain m st =
     (case m_session m of
        Some s \<Rightarrow>
          if \<not> session_closed then Some (Inr s, m, st)
          else new_session x fl env d yamux initialDomain m st
      | None \<Rightarrow> new_session x fl env d yamux initialDomain m st)"

definition GetSession_m :: "Manager \<Rightarrow> nat option" where
  "GetSession_m m = m_session m"

definition IsSessionAlive :: "bool \<Rightarrow> Manager \<Rightarrow> bool" where
  "IsSessionAlive session_closed m = (case m_session m of None \<Rightarrow> False | Some _ \<Rightarrow> \<not> session_closed)"

definition GetCurrentDomain :: "Manager \<Rightarrow> string" where
  "GetCurrentDomain m = currentDomain m"

definition GetMTPConn :: "Manager \<Rightarrow> conn_id option" where
  "GetMTPConn m = mtpConn m"

definition Shutdown :: "externals \<Rightarrow> call_env \<Rightarrow> Manager \<Rightarrow> Store \<Rightarrow> Manager \<times> Store" where
  "Shutdown x env m st =
     (let st = (case m_session m of None \<Rightarrow> st | Some s \<Rightarrow> st\<lparr>st_closed := st_closed st @ [s]\<rparr>);
          st = (case mtpConn m of
                  None \<Rightarrow> st
                | Some i \<Rightarrow>
                    (case map_of (st_conns st) i of
                       None \<Rightarrow> st
                     | Some c \<Rightarrow> st\<lparr>st_conns := AList.update i (Conn_Close x env c) (st_conns st)\<rparr>))
      in (m\<lparr>m_session := None, mtpConn := None, virtualConn := None\<rparr>, st))"

section \<open>Rotation\<close>

text \<open>The next domain; an index out of range would panic.\<close>

definition choose_domain :: "(int \<Rightarrow> int) \<Rightarrow> string \<Rightarrow> Manager \<Rightarrow> (string \<times> Manager) option" where
  "choose_domain rnd newDomain m =
     (if newDomain = [] \<and> length (domains m) > 1 then
        let idx = (if Randomize (rotCfg m)
                   then let newIdx = nat (rnd (int (length (domains m)) - 1))
                        in if newIdx \<ge> domainIdx m then newIdx + 1 else newIdx
                   else (domainIdx m + 1) mod length (domains m))
        in if idx < length (domains m) then Some (domains m ! idx, m\<lparr>domainIdx := idx\<rparr>) else None
      else Some (newDomain, m))"

text \<open>
  \<open>during\<close> are the writes that arrive while the connection migrates, \<open>between\<close> those that arrive
  when \<^verbatim>\<open>swapping\<close> is cleared and the replay has not begun; \<open>wr\<close> is \<^verbatim>\<open>Write\<close> of a connection.
\<close>

definition RotateTransport :: "externals \<Rightarrow> (int \<Rightarrow> int) \<Rightarrow> dial_env
    \<Rightarrow> (conn_id, MTPConn) gomap conn_write \<Rightarrow> bytes list \<Rightarrow> bytes list \<Rightarrow> string \<Rightarrow> Manager
    \<Rightarrow> (conn_id, MTPConn) gomap \<Rightarrow> (manager_error option \<times> Manager \<times> (conn_id, MTPConn) gomap) option" where
  "RotateTransport x rnd d wr during between newDomain m w =
     (case (virtualConn m, mtpConn m) of
        (Some v, Some i) \<Rightarrow>
          (case (choose_domain rnd newDomain m, VC_Writes wr during (swap_begin v) w) of
             (Some (newDomain, m), Some (_, v, w)) \<Rightarrow>
               (case map_of w i of
                  None \<Rightarrow> None
                | Some c \<Rightarrow>
                    (case Migrate x (d_nonce d) (d_resolved d) (d_dialled d) (d_attempts d) c of
                       (Inl Panic, _) \<Rightarrow> None
                     | (Inl (Err e), c) \<Rightarrow>
                         Some (Some (ErrMigrate e), m\<lparr>virtualConn := Some (snd (swap_end v))\<rparr>,
                           AList.update i c w)
                     | (Inr _, c) \<Rightarrow>
                         (case swap_end v of
                            (buffered, v) \<Rightarrow>
                              (case VC_Writes wr between v (AList.update i c w) of
                                 None \<Rightarrow> None
                               | Some (_, v, w) \<Rightarrow>
                                   (case (case vc_conn v of
                                            None \<Rightarrow> if buffered = [] then Some (None, w) else None
                                          | Some j \<Rightarrow> replay wr j buffered w) of
                                      None \<Rightarrow> None
                                    | Some (_, w) \<Rightarrow>
                                        Some (None,
                                          m\<lparr>virtualConn := Some v,
                                            currentDomain := (if newDomain \<noteq> [] then newDomain
                                                              else currentDomain m)\<rparr>, w))))))
           | _ \<Rightarrow> None)
      | _ \<Rightarrow> Some (Some ErrNotInitialized, m, w))"

section \<open>Lemmas\<close>

lemma buffered_writes:
  "swapping v \<Longrightarrow> VC_Writes wr bs v w
     = Some (map (\<lambda>b. (length b, None)) bs, v\<lparr>swapBuf := swapBuf v @ bs\<rparr>, w)"
  by (induction bs arbitrary: v) (simp_all add: VC_Write_def buffer_write_def)

lemma next_index: "1 < n \<Longrightarrow> Suc d mod n \<noteq> d"
proof (cases "d < n")
  case True
  then show "1 < n \<Longrightarrow> ?thesis" by (cases "Suc d = n") auto
next
  case False
  assume "1 < n"
  then have "Suc d mod n < n" by simp
  then show ?thesis using False by simp
qed

lemma choose_domain_facts:
  assumes "rand_ok rnd" "1 < length (domains m)"
  shows "\<exists>i. choose_domain rnd [] m = Some (domains m ! i, m\<lparr>domainIdx := i\<rparr>) \<and> i < length (domains m)
    \<and> i \<noteq> domainIdx m \<and> (\<not> Randomize (rotCfg m) \<longrightarrow> i = (domainIdx m + 1) mod length (domains m))"
proof -
  let ?n = "length (domains m)"
  have r: "0 \<le> rnd (int ?n - 1)" "rnd (int ?n - 1) < int ?n - 1"
    using assms by (auto simp: rand_ok_def)
  define k where "k = nat (rnd (int ?n - 1))"
  define i where "i = (if Randomize (rotCfg m) then if domainIdx m \<le> k then k + 1 else k
    else (domainIdx m + 1) mod ?n)"
  have k: "k < ?n - 1" using r by (simp add: k_def nat_less_iff)
  have "(domainIdx m + 1) mod ?n < ?n" by (rule mod_less_divisor) (use assms(2) in linarith)
  with k have "i < ?n" "i \<noteq> domainIdx m"
    using next_index [OF assms(2), of "domainIdx m"] by (auto simp: i_def)
  moreover have "choose_domain rnd [] m = (if i < ?n then Some (domains m ! i, m\<lparr>domainIdx := i\<rparr>) else None)"
    using assms(2) unfolding choose_domain_def i_def k_def Let_def by simp
  ultimately show ?thesis by (auto simp: i_def)
qed

lemma RotateTransport_domain:
  assumes "virtualConn m = Some v" "mtpConn m = Some i"
    and "choose_domain rnd newDomain m = Some (dn, m1)"
    and "RotateTransport x rnd d wr during between newDomain m w = Some (e, m', w')"
  shows "domainIdx m' = domainIdx m1 \<and> domains m' = domains m1
    \<and> currentDomain m' = (if e = None \<and> dn \<noteq> [] then dn else currentDomain m1)"
  using assms by (auto simp: RotateTransport_def split: option.splits prod.splits sum.splits failure.splits)

lemma RotateTransport_fails:
  assumes "virtualConn m = Some v" "mtpConn m = Some i" "map_of w i = Some c"
    and "choose_domain rnd newDomain m = Some (dn, m1)"
    and "Migrate x (d_nonce d) (d_resolved d) (d_dialled d) (d_attempts d) c = (Inl (Err e), c')"
  shows "RotateTransport x rnd d wr during between newDomain m w
    = Some (Some (ErrMigrate e), m1\<lparr>virtualConn := Some (v\<lparr>swapping := False, swapBuf := []\<rparr>)\<rparr>,
        AList.update i c' w)"
  using assms buffered_writes [of "swap_begin v" wr during w]
  by (simp add: RotateTransport_def vc_defs)

lemma RotateTransport_succeeds:
  assumes "virtualConn m = Some v" "mtpConn m = Some i" "map_of w i = Some c" "vc_conn v = Some j"
    and "choose_domain rnd newDomain m = Some (dn, m1)"
    and "Migrate x (d_nonce d) (d_resolved d) (d_dialled d) (d_attempts d) c = (Inr (), c')"
  shows "RotateTransport x rnd d wr during [] newDomain m w
    = (case replay wr j during (AList.update i c' w) of
         None \<Rightarrow> None
       | Some (_, w') \<Rightarrow>
           Some (None, m1\<lparr>virtualConn := Some (v\<lparr>swapping := False, swapBuf := []\<rparr>),
             currentDomain := (if dn \<noteq> [] then dn else currentDomain m1)\<rparr>, w'))"
  using assms buffered_writes [of "swap_begin v" wr during w]
  by (simp add: RotateTransport_def vc_defs split: option.splits prod.splits)

lemma SetRotationConfig_min: "0 < SwitchMin (rotCfg m) \<Longrightarrow> 0 < SwitchMin (rotCfg (SetRotationConfig cfg m))"
  by (simp add: SetRotationConfig_def Let_def)

lemma NextRotationDelay_bounds:
  assumes "rand_ok rnd"
  shows "SwitchMin (rotCfg m) \<le> NextRotationDelay rnd m
     \<and> NextRotationDelay rnd m \<le> max (SwitchMin (rotCfg m)) (SwitchMax (rotCfg m))"
proof (cases "SwitchMin (rotCfg m) < SwitchMax (rotCfg m)")
  case True
  let ?d = "SwitchMax (rotCfg m) - SwitchMin (rotCfg m)"
  have "0 \<le> rnd ?d" "rnd ?d < ?d" using assms True by (auto simp: rand_ok_def)
  then show ?thesis using True by (simp add: NextRotationDelay_def Let_def)
qed (simp add: NextRotationDelay_def Let_def)

section \<open>A concrete manager\<close>

definition demo_manager :: Manager where
  "demo_manager = (SetDomains [''a.example'', ''b.example''] (NewManager ''srv:443'' ''u''))
     \<lparr>virtualConn := Some (NewVirtualConn (Some 0)), mtpConn := Some 0\<rparr>"

definition demo_dial :: dial_env where
  "demo_dial = \<lparr> d_now = 0, d_resolved = None, d_dialled = None, d_nonce = None, d_attempts = [] \<rparr>"

lemma demo_manager_simps [simp]:
  "virtualConn demo_manager = Some (NewVirtualConn (Some 0))" "mtpConn demo_manager = Some 0"
  "domains demo_manager = [''a.example'', ''b.example'']" "domainIdx demo_manager = 0"
  "currentDomain demo_manager = ''a.example''" "Randomize (rotCfg demo_manager) = False"
  by (simp_all add: demo_manager_def SetDomains_def NewManager_def)

lemma demo_choose:
  "choose_domain rnd [] demo_manager = Some (''b.example'', demo_manager\<lparr>domainIdx := 1\<rparr>)"
  by (simp add: choose_domain_def Let_def)

lemma demo_unresolved: "Migrate x (d_nonce demo_dial) (d_resolved demo_dial) (d_dialled demo_dial)
    (d_attempts demo_dial) c = (Inl (Err ErrResolve), c)"
  by (simp add: Migrate_def demo_dial_def)

lemma demo_rotation:
  "RotateTransport x rnd demo_dial wr during between [] demo_manager [(0, c)]
     = Some (Some (ErrMigrate ErrResolve), (demo_manager\<lparr>domainIdx := 1\<rparr>)
         \<lparr>virtualConn := Some (NewVirtualConn (Some 0))\<rparr>, [(0, c)])"
  using RotateTransport_fails [OF _ _ _ demo_choose demo_unresolved, of "NewVirtualConn (Some 0)" 0 "[(0, c)]" c x rnd wr during between]
  by (simp add: NewVirtualConn_def)

section \<open>Properties\<close>

text \<open>With at least two domains a rotation moves to another one: the next in turn, or with
  \<^verbatim>\<open>Randomize\<close> any but the present. The index moves even where the migration fails; the domain in
  use changes only with success, so that a failed rotation skips one.\<close>

theorem rotation_domain:
  assumes "rand_ok rnd" "virtualConn m = Some v" "mtpConn m = Some i" "1 < length (domains m)"
    and "RotateTransport x rnd d wr during between [] m w = Some (e, m', w')"
  shows "domainIdx m' < length (domains m) \<and> domainIdx m' \<noteq> domainIdx m
    \<and> (\<not> Randomize (rotCfg m) \<longrightarrow> domainIdx m' = (domainIdx m + 1) mod length (domains m))
    \<and> domains m' = domains m
    \<and> currentDomain m' = (if e = None \<and> domains m ! domainIdx m' \<noteq> [] then domains m ! domainIdx m'
                          else currentDomain m)"
  using choose_domain_facts [OF assms(1,4)] RotateTransport_domain [OF assms(2,3) _ assms(5)] by fastforce

theorem rotation_domain_witness:
  "\<exists>e m' w'. RotateTransport demo (\<lambda>_. 0) demo_dial (mtp_write demo (\<lambda>r. r) (\<lambda>_. demo_env) 0) [] [] []
      demo_manager [(0, demo_conn False)] = Some (e, m', w')
    \<and> domainIdx m' = 1 \<and> currentDomain m' = ''a.example''"
  using rotation_domain [OF _ _ _ _ demo_rotation [of demo "\<lambda>_. 0"
      "mtp_write demo (\<lambda>r. r) (\<lambda>_. demo_env) 0" "[]" "[]" "demo_conn False"]]
  by (fastforce simp: rand_ok_def demo_rotation)

text \<open>What other goroutines write while the connection migrates is accepted at once, every call
  of \<^verbatim>\<open>Write\<close> returning success. If the migration succeeds, these chunks are written to the
  connection in their order before the rotation returns; if it fails they are gone: nothing is
  buffered and the connection is as the failed migration left it.\<close>

theorem rotation_writes:
  assumes "virtualConn m = Some v" "mtpConn m = Some i" "map_of w i = Some c" "vc_conn v = Some i"
    and "choose_domain rnd newDomain m = Some (dn, m1)"
    and "Migrate x (d_nonce d) (d_resolved d) (d_dialled d) (d_attempts d) c = (r, c')"
  shows "map_option fst (VC_Writes wr during (swap_begin v) w) = Some (map (\<lambda>b. (length b, None)) during)
    \<and> (\<forall>e. r = Inl (Err e) \<longrightarrow>
        (\<exists>m'. RotateTransport x rnd d wr during between newDomain m w
            = Some (Some (ErrMigrate e), m', AList.update i c' w)
          \<and> virtualConn m' = Some (NewVirtualConn (Some i))))
    \<and> (\<forall>e w'. r = Inr () \<and> replay wr i during (AList.update i c' w) = Some (e, w') \<longrightarrow>
        (\<exists>m'. RotateTransport x rnd d wr during [] newDomain m w = Some (None, m', w')
          \<and> virtualConn m' = Some (NewVirtualConn (Some i))))"
  using RotateTransport_fails [OF assms(1-3,5), of x d _ c' wr during between] assms(6)
    RotateTransport_succeeds [OF assms(1-5), of x d c' wr during] assms(4)
    buffered_writes [of "swap_begin v" wr during w]
  by (auto simp: vc_defs NewVirtualConn_def)

theorem rotation_writes_witness:
  "\<exists>m'. RotateTransport demo (\<lambda>_. 0) demo_dial (mtp_write demo (\<lambda>r. r) (\<lambda>_. demo_env) 0) [[1, 2]] [] []
      demo_manager [(0, demo_conn False)] = Some (Some (ErrMigrate ErrResolve), m', [(0, demo_conn False)])
    \<and> virtualConn m' = Some (NewVirtualConn (Some 0))"
  using rotation_writes [OF _ _ _ _ demo_choose demo_unresolved, of "NewVirtualConn (Some 0)" 0
      "[(0, demo_conn False)]" "demo_conn False" "mtp_write demo (\<lambda>r. r) (\<lambda>_. demo_env) 0" "[[1, 2]]"
      demo "\<lambda>_. 0" "[]"]
  by (simp add: NewVirtualConn_def)

end
