(* ===== verification/Tunnel.thy ===== *)
theory Tunnel
  imports GoText
begin

text \<open>
  The Android tunnel (\<^verbatim>\<open>pkg/tunnel/tunnel.go\<close>): it runs \<^verbatim>\<open>tun2socks\<close> as a child process and has a
  goroutine watch each child. An \<^verbatim>\<open>exec.Cmd\<close> is a number; what the operating system answers
  (which binaries there are, whether a process starts) is an argument.
\<close>

section \<open>State\<close>

record Tunnel =
  tunFD :: int
  tun_mtu :: int
  cmd :: "nat option" \<comment> \<open>cancel is set and cleared with it\<close>
  running :: bool
  startedAt :: int

record TunnelConfig =
  Tun2socksPath :: string
  Socks5Addr :: string
  tc_DNS :: string
  Verbose :: bool

datatype tunnel_error =
  ErrTunnelAlreadyRunning | ErrTunnelNotRunning | ErrInvalidFD int | ErrTun2socksNotFound
  | ErrStartFailed | ErrNoPreviousConfiguration

text \<open>The tunnel with its processes: those alive, the watching goroutines that have not looked at
  \<^verbatim>\<open>t.cmd\<close> yet, and the commands the others wait for.\<close>

record tun_system =
  tun :: Tunnel
  next_cmd :: nat
  executed :: "(nat \<times> string \<times> string list) list"
  alive :: "nat list"
  new_monitors :: nat
  waits :: "nat list"

record os_env =
  look_path :: "string \<Rightarrow> bool"
  temp_binary :: string
  start_ok :: bool
  os_now :: int

definition New :: Tunnel where
  "New = \<lparr> tunFD = 0, tun_mtu = 0, cmd = None, running = False, startedAt = 0 \<rparr>"

definition tun_init :: tun_system where
  "tun_init = \<lparr> tun = New, next_cmd = 0, executed = [], alive = [], new_monitors = 0, waits = [] \<rparr>"

section \<open>Starting\<close>

definition findTun2socksBinary :: "os_env \<Rightarrow> tunnel_error + string" where
  "findTun2socksBinary os =
     (case find (look_path os) [''tun2socks'', ''./tun2socks'', ''/data/local/tmp/tun2socks'',
             ''/system/bin/tun2socks'', temp_binary os] of
        Some p \<Rightarrow> Inr p | None \<Rightarrow> Inl ErrTun2socksNotFound)"

definition createTun2socksCommand :: "os_env \<Rightarrow> int \<Rightarrow> int \<Rightarrow> TunnelConfig
    \<Rightarrow> tunnel_error + string \<times> string list" where
  "createTun2socksCommand os fd mtu cfg =
     (case (if Tun2socksPath cfg = [] then findTun2socksBinary os else Inr (Tun2socksPath cfg)) of
        Inl e \<Rightarrow> Inl e
      | Inr path \<Rightarrow>
          Inr (path, [''--tun-fd'', itoa fd, ''--socks5-addr'', Socks5Addr cfg, ''--mtu'', itoa mtu,
                      ''--enable-udp-relay''] @ (if Verbose cfg then [''--verbose''] else [])))"

definition StartTunnelFromFDWithConfig :: "os_env \<Rightarrow> int \<Rightarrow> int \<Rightarrow> TunnelConfig \<Rightarrow> tun_system
    \<Rightarrow> (tunnel_error + unit) \<times> tun_system" where
  "StartTunnelFromFDWithConfig os fd mtu cfg s =
     (if running (tun s) then (Inl ErrTunnelAlreadyRunning, s)
      else if fd < 0 then (Inl (ErrInvalidFD fd), s)
      else let mtu = (if mtu \<le> 0 then 1500 else mtu);
               cfg = (if Socks5Addr cfg = [] then cfg\<lparr>Socks5Addr := ''127.0.0.1:1080''\<rparr> else cfg);
               cfg = (if tc_DNS cfg = [] then cfg\<lparr>tc_DNS := ''8.8.8.8:53''\<rparr> else cfg)
           in case createTun2socksCommand os fd mtu cfg of
                Inl e \<Rightarrow> (Inl e, s)
              | Inr (path, args) \<Rightarrow>
                  let c = next_cmd s;
                      s = s\<lparr>tun := (tun s)\<lparr>cmd := Some c, tunFD := fd, tun_mtu := mtu\<rparr>, next_cmd := c + 1\<rparr>
                  in if \<not> start_ok os then (Inl ErrStartFailed, s)
                     else (Inr (), s\<lparr> tun := (tun s)\<lparr>running := True, startedAt := os_now os\<rparr>,
                                      executed := executed s @ [(c, path, args)],
                                      alive := alive s @ [c], new_monitors := new_monitors s + 1 \<rparr>))"

definition StartTunnelFromFD :: "os_env \<Rightarrow> int \<Rightarrow> int \<Rightarrow> tun_system
    \<Rightarrow> (tunnel_error + unit) \<times> tun_system" where
  "StartTunnelFromFD os fd mtu s = StartTunnelFromFDWithConfig os fd mtu
     \<lparr> Tun2socksPath = [], Socks5Addr = [], tc_DNS = [], Verbose = False \<rparr> s"

section \<open>Stopping and watching\<close>

text \<open>Cancelling the context kills the process, like \<^verbatim>\<open>Process.Kill\<close>.\<close>

definition StopTunnel :: "tun_system \<Rightarrow> (tunnel_error + unit) \<times> tun_system" where
  "StopTunnel s =
     (if \<not> running (tun s) then (Inl ErrTunnelNotRunning, s)
      else (Inr (), s\<lparr> tun := (tun s)\<lparr>running := False, cmd := None, tunFD := - 1, tun_mtu := 0\<rparr>,
                       alive := filter (\<lambda>p. Some p \<noteq> cmd (tun s)) (alive s) \<rparr>))"

definition Tunnel_Close :: "tun_system \<Rightarrow> (tunnel_error + unit) \<times> tun_system" where
  "Tunnel_Close s = StopTunnel s"

definition Restart :: "os_env \<Rightarrow> tun_system \<Rightarrow> (tunnel_error + unit) \<times> tun_system" where
  "Restart os s =
     (let fd = tunFD (tun s); mtu = tun_mtu (tun s)
      in if fd < 0 then (Inl ErrNoPreviousConfiguration, s)
         else case StopTunnel s of
                (Inl e, s) \<Rightarrow> if e \<noteq> ErrTunnelNotRunning then (Inl e, s) else StartTunnelFromFD os fd mtu s
              | (Inr _, s) \<Rightarrow> StartTunnelFromFD os fd mtu s)"

text \<open>\<^verbatim>\<open>monitorProcess\<close>: it reads the command, then waits for the process to exit.\<close>

definition monitor_begin :: "tun_system \<Rightarrow> tun_system" where
  "monitor_begin s =
     (if new_monitors s = 0 then s
      else let s = s\<lparr>new_monitors := new_monitors s - 1\<rparr>
           in case cmd (tun s) of None \<Rightarrow> s | Some c \<Rightarrow> s\<lparr>waits := waits s @ [c]\<rparr>)"

definition monitor_end :: "nat \<Rightarrow> tun_system \<Rightarrow> tun_system" where
  "monitor_end c s =
     (if c \<in> set (waits s) \<and> c \<notin> set (alive s)
      then s\<lparr>tun := (tun s)\<lparr>running := False\<rparr>, waits := remove1 c (waits s)\<rparr> else s)"

definition process_exit :: "nat \<Rightarrow> tun_system \<Rightarrow> tun_system" where
  "process_exit c s = s\<lparr>alive := filter (\<lambda>p. p \<noteq> c) (alive s)\<rparr>"

definition IsTunnelRunning :: "Tunnel \<Rightarrow> bool" where
  "IsTunnelRunning t = running t"

definition GetTUNFD :: "Tunnel \<Rightarrow> int" where
  "GetTUNFD t = tunFD t"

definition GetMTU :: "Tunnel \<Rightarrow> int" where
  "GetMTU t = tun_mtu t"

definition GetUptime :: "int \<Rightarrow> Tunnel \<Rightarrow> int" where
  "GetUptime now t = (if \<not> running t then 0 else now - startedAt t)"

text \<open>The numbers of the information map; the process is named by its command.\<close>

definition GetTunnelInfo :: "int \<Rightarrow> Tunnel \<Rightarrow> bool \<times> (string \<times> int) list" where
  "GetTunnelInfo now t = (running t,
     if \<not> running t then []
     else [(''fd'', tunFD t), (''mtu'', tun_mtu t), (''started_at'', startedAt t), (''uptime'', now - startedAt t)]
       @ (case cmd t of None \<Rightarrow> [] | Some p \<Rightarrow> [(''pid'', int p)]))"

definition ValidateFD :: "int \<Rightarrow> tunnel_error + unit" where
  "ValidateFD fd = (if fd < 0 then Inl (ErrInvalidFD fd) else Inr ())"

section \<open>Every interleaving\<close>

inductive tun_step :: "tun_system \<Rightarrow> tun_system \<Rightarrow> bool" where
  tun_start: "tun_step s (snd (StartTunnelFromFDWithConfig os fd mtu cfg s))"
| tun_stop: "tun_step s (snd (StopTunnel s))"
| tun_restart: "tun_step s (snd (Restart os s))"
| tun_monitor_begin: "tun_step s (monitor_begin s)"
| tun_monitor_end: "tun_step s (monitor_end c s)"
| tun_exit: "tun_step s (process_exit c s)"

inductive_cases tun_stepE: "tun_step s t"

text \<open>A running tunnel has a command, which was started, on a valid descriptor; numbers are fresh.\<close>

definition tun_wf :: "tun_system \<Rightarrow> bool" where
  "tun_wf s \<longleftrightarrow>
     (running (tun s) \<longrightarrow> 0 \<le> tunFD (tun s) \<and> 0 < tun_mtu (tun s)
        \<and> (\<exists>c. cmd (tun s) = Some c \<and> c \<in> fst ` set (executed s)))
     \<and> (\<forall>c\<in>set (alive s). c \<in> fst ` set (executed s))
     \<and> (\<forall>c\<in>fst ` set (executed s). c < next_cmd s) \<and> distinct (map fst (executed s))
     \<and> distinct (alive s)"

lemma start_cases:
  fixes s os fd mtu cfg
  defines "t \<equiv> snd (StartTunnelFromFDWithConfig os fd mtu cfg s)"
    and "s' \<equiv> s\<lparr>tun := (tun s)\<lparr>cmd := Some (next_cmd s), tunFD := fd,
               tun_mtu := (if mtu \<le> 0 then 1500 else mtu)\<rparr>, next_cmd := next_cmd s + 1\<rparr>"
  shows "t = s \<or> \<not> running (tun s) \<and> t = s' \<or>
    \<not> running (tun s) \<and> 0 \<le> fd \<and> (\<exists>path args. t = s'\<lparr> tun := (tun s')\<lparr>running := True, startedAt := os_now os\<rparr>,
        executed := executed s @ [(next_cmd s, path, args)], alive := alive s @ [next_cmd s],
        new_monitors := new_monitors s + 1 \<rparr>)"
proof (cases "running (tun s) \<or> fd < 0")
  case False
  let ?c = "(if Socks5Addr cfg = [] then cfg\<lparr>Socks5Addr := ''127.0.0.1:1080''\<rparr> else cfg)"
  let ?cfg = "if tc_DNS ?c = [] then ?c\<lparr>tc_DNS := ''8.8.8.8:53''\<rparr> else ?c"
  obtain r where r: "createTun2socksCommand os fd (if mtu \<le> 0 then 1500 else mtu) ?cfg = r" by simp
  show ?thesis
    using False r unfolding t_def s'_def StartTunnelFromFDWithConfig_def Let_def
    by (cases r; cases "start_ok os") (auto split: prod.splits)
qed (auto simp: t_def StartTunnelFromFDWithConfig_def)

lemma start_wf:
  assumes "tun_wf s"
  shows "tun_wf (snd (StartTunnelFromFDWithConfig os fd mtu cfg s))"
proof -
  have "next_cmd s \<notin> fst ` set (executed s)" "next_cmd s \<notin> set (alive s)"
    "\<forall>c\<in>fst ` set (executed s). c < Suc (next_cmd s)"
    using assms by (force simp: tun_wf_def less_Suc_eq)+
  then show ?thesis using start_cases [of os fd mtu cfg s] assms
    by (elim disjE exE conjE) (auto simp: tun_wf_def)
qed

lemma stop_wf: "tun_wf s \<Longrightarrow> tun_wf (snd (StopTunnel s))"
  by (auto simp: StopTunnel_def tun_wf_def)

lemma restart_wf: "tun_wf s \<Longrightarrow> tun_wf (snd (Restart os s))"
  using stop_wf [of s] start_wf
  by (auto simp: Restart_def StartTunnelFromFD_def Let_def split: sum.splits prod.splits)

lemma monitor_wf: "tun_wf s \<Longrightarrow> tun_wf (monitor_begin s)" "tun_wf s \<Longrightarrow> tun_wf (monitor_end c s)"
  "tun_wf s \<Longrightarrow> tun_wf (process_exit c s)"
  by (auto simp: tun_wf_def monitor_begin_def monitor_end_def process_exit_def Let_def
      intro: rev_image_eqI split: option.splits)

lemma tun_step_wf: "tun_wf s \<Longrightarrow> tun_step s t \<Longrightarrow> tun_wf t"
  by (elim tun_stepE) (simp_all add: start_wf stop_wf restart_wf monitor_wf)

interpretation tunnel: invariant_system "\<lambda>s. s = tun_init" tun_step tun_wf
proof unfold_locales
  show "s = tun_init \<Longrightarrow> tun_wf s" for s by (simp add: tun_init_def New_def tun_wf_def)
qed (rule tun_step_wf)

lemmas restart_defs = Restart_def StopTunnel_def StartTunnelFromFD_def StartTunnelFromFDWithConfig_def
  createTun2socksCommand_def monitor_end_def IsTunnelRunning_def tun_init_def New_def

section \<open>Properties\<close>

text \<open>Restarting a tunnel loses it. The goroutine that watched the old process wakes up when that
  process has been killed, and clears \<^verbatim>\<open>running\<close> although the new process runs: from then on
  \<^verbatim>\<open>StopTunnel\<close> says that there is nothing to stop, so the process is never killed, and another start
  puts a second one beside it. A tunnel that was never started can be restarted all the same: its
  descriptor is zero, not negative, and \<^verbatim>\<open>tun2socks\<close> is run on standard input.\<close>

theorem tunnel_restart_race:
  assumes "running (tun s)" "cmd (tun s) = Some p" "alive s = [p]" "waits s = [p]" "p < next_cmd s"
    and "0 \<le> tunFD (tun s)" "findTun2socksBinary os = Inr path" "start_ok os"
  shows "(\<exists>s1 s2. Restart os s = (Inr (), s1) \<and> running (tun s1) \<and> alive s1 = [next_cmd s]
      \<and> s2 = monitor_end p s1 \<and> \<not> IsTunnelRunning (tun s2) \<and> alive s2 = [next_cmd s]
      \<and> StopTunnel s2 = (Inl ErrTunnelNotRunning, s2)
      \<and> alive (snd (Restart os s2)) = [next_cmd s, next_cmd s + 1])
    \<and> (\<exists>s0. Restart os tun_init = (Inr (), s0) \<and> alive s0 = [0] \<and> tunFD (tun s0) = 0)"
  using assms by (simp add: restart_defs Let_def)

definition demo_os :: os_env where
  "demo_os = \<lparr> look_path = (\<lambda>p. p = ''tun2socks''), temp_binary = ''/tmp/tun2socks'', start_ok = True, os_now = 0 \<rparr>"

theorem tunnel_restart_race_witness:
  "\<exists>s. s = monitor_begin (snd (StartTunnelFromFD demo_os 5 0 tun_init))
     \<and> alive (snd (Restart demo_os (monitor_end 0 (snd (Restart demo_os s))))) = [1, 2]"
proof -
  let ?s = "monitor_begin (snd (StartTunnelFromFD demo_os 5 0 tun_init))"
  have os: "findTun2socksBinary demo_os = Inr ''tun2socks''" "start_ok demo_os"
    by (simp_all add: findTun2socksBinary_def demo_os_def)
  then have s: "running (tun ?s)" "cmd (tun ?s) = Some 0" "alive ?s = [0]" "waits ?s = [0]" "next_cmd ?s = 1"
    "tunFD (tun ?s) = 5"
    by (simp_all add: restart_defs monitor_begin_def Let_def)
  show ?thesis using tunnel_restart_race [of ?s 0 demo_os "''tun2socks''"] s os by auto
qed

end
