(* ===== verification/Client.thy ===== *)
theory Client
  imports Manager Server Tunnel
begin

text \<open>
  The client (\<^verbatim>\<open>pkg/client/client.go\<close>): its status, the transport it dials, the loops that rotate
  the domain and watch the session, and the local proxies. Each method is one step; what the network,
  the operating system and yamux answer are arguments. A yamux session is a number.
\<close>

section \<open>State\<close>

datatype ConnectionStatus = StatusDisconnected | StatusConnecting | StatusConnected | StatusReconnecting

fun ConnectionStatus_String :: "ConnectionStatus \<Rightarrow> string" where
  "ConnectionStatus_String StatusDisconnected = ''disconnected''"
| "ConnectionStatus_String StatusConnecting = ''connecting''"
| "ConnectionStatus_String StatusConnected = ''connected''"
| "ConnectionStatus_String StatusReconnecting = ''reconnecting''"

record NetworkStats =
  DownloadSpeed :: int
  UploadSpeed :: int
  Ping :: int
  TotalDownload :: int
  TotalUpload :: int

text \<open>A local proxy that listens; it keeps the session it was given.\<close>

record local_proxy =
  px_type :: string
  px_addr :: string
  px_server :: SOCKS5Server
  px_session :: "nat option"

record Client =
  cfg :: ClientConfig
  status :: ConnectionStatus
  networkStats :: NetworkStats
  connectedAt :: "int option"
  c_currentDomain :: string
  trafficCallback :: bool
  ctx_done :: bool
  session :: "nat option"
  transportManager :: "Manager option"
  c_mtpConn :: "conn_id option"
  proxies :: "local_proxy list"
  c_tun :: tun_system

text \<open>The goroutines of the client: rotation loops with the delay each waits for, and health loops.\<close>

record client_system =
  client :: Client
  rotators :: "int list"
  watchers :: nat
  store :: Store
  closed_raw :: "nat list" \<comment> \<open>WebSocket and TCP connections closed\<close>
  listening :: "string list"

datatype connect_error = MtpDial conn_error | WsDial | TcpDial

datatype client_error =
  ErrAlreadyConnected | ErrNotConnected | ErrTunnelStart tunnel_error | ErrConnect connect_error
  | ErrYamuxSession | ErrProxyStart string

definition NewClient :: "ClientConfig option \<Rightarrow> Client" where
  "NewClient c = \<lparr> cfg = (case c of None \<Rightarrow> no_client | Some c \<Rightarrow> c), status = StatusDisconnected,
     networkStats = \<lparr> DownloadSpeed = 0, UploadSpeed = 0, Ping = 0, TotalDownload = 0, TotalUpload = 0 \<rparr>,
     connectedAt = None, c_currentDomain = [], trafficCallback = False, ctx_done = False, session = None,
     transportManager = None, c_mtpConn = None, proxies = [], c_tun = tun_init \<rparr>"

definition client_init :: "ClientConfig option \<Rightarrow> client_system" where
  "client_init c = \<lparr> client = NewClient c, rotators = [], watchers = 0,
     store = \<lparr> st_conns = [], st_next = 0, st_closed = [] \<rparr>, closed_raw = [], listening = [] \<rparr>"

section \<open>Connecting\<close>

datatype raw_conn = MtpConn conn_id | OtherConn nat

definition mtp_compression :: "ClientConfig \<Rightarrow> CompressionConfig option" where
  "mtp_compression c =
     (let s = Compression_set c
      in if Enable s then Some \<lparr> cc_enable = Enable s, cc_level = Level s, cc_min_size = comp_MinSize s \<rparr>
         else None)"

text \<open>What one call finds: the dial, the other transports, yamux, the operating system, the clock and
  random numbers.\<close>

record client_env =
  ce_call :: call_env
  ce_dial :: dial_env
  ce_raw :: "nat option"
  ce_yamux :: "nat option"
  ce_os :: os_env
  ce_now :: int
  ce_rnd :: "int \<Rightarrow> int"

definition connectMTP :: "externals \<Rightarrow> (rat \<Rightarrow> rat) \<Rightarrow> dial_env \<Rightarrow> client_system
    \<Rightarrow> (connect_error failure + raw_conn) \<times> client_system" where
  "connectMTP x fl d s =
     (case DialWithConfig x fl (d_now d) (d_resolved d) (d_dialled d) (d_nonce d) (d_attempts d)
             (UUID (cfg (client s))) (mtp_compression (cfg (client s))) of
        (Inr _, Some k) \<Rightarrow>
          let i = st_next (store s)
          in (Inr (MtpConn i),
              s\<lparr> client := (client s)\<lparr>c_mtpConn := Some i\<rparr>,
                 store := (store s)\<lparr>st_conns := AList.update i k (st_conns (store s)), st_next := i + 1\<rparr> \<rparr>)
      | (Inl (Err e), _) \<Rightarrow> (Inl (Err (MtpDial e)), s)
      | _ \<Rightarrow> (Inl Panic, s))"

definition connectWebSocket :: "client_env \<Rightarrow> connect_error failure + raw_conn" where
  "connectWebSocket env = (case ce_raw env of None \<Rightarrow> Inl (Err WsDial) | Some n \<Rightarrow> Inr (OtherConn n))"

definition connectTCP :: "client_env \<Rightarrow> connect_error failure + raw_conn" where
  "connectTCP env = (case ce_raw env of None \<Rightarrow> Inl (Err TcpDial) | Some n \<Rightarrow> Inr (OtherConn n))"

definition connect_transport :: "externals \<Rightarrow> (rat \<Rightarrow> rat) \<Rightarrow> client_env \<Rightarrow> client_system
    \<Rightarrow> (connect_error failure + raw_conn) \<times> client_system" where
  "connect_transport x fl env s =
     (let t = Transport (cfg (client s))
      in if t = ''ws'' \<or> t = ''wss'' then (connectWebSocket env, s)
         else if t = ''mtp'' then connectMTP x fl (ce_dial env) s
         else if t = ''tcp'' then (connectTCP env, s)
         else connectMTP x fl (ce_dial env) s)"

definition close_raw :: "externals \<Rightarrow> call_env \<Rightarrow> raw_conn \<Rightarrow> client_system \<Rightarrow> client_system" where
  "close_raw x env r s =
     (case r of
        OtherConn n \<Rightarrow> s\<lparr>closed_raw := closed_raw s @ [n]\<rparr>
      | MtpConn i \<Rightarrow>
          (case map_of (st_conns (store s)) i of
             None \<Rightarrow> s
           | Some k \<Rightarrow> s\<lparr>store := (store s)\<lparr>st_conns := AList.update i (Conn_Close x env k) (st_conns (store s))\<rparr>\<rparr>))"

section \<open>Starting and stopping\<close>

definition domain_names :: "ClientConfig \<Rightarrow> string list" where
  "domain_names c = (let ds = map Domain (Domains c) in if ds = [] then [ServerName c] else ds)"

definition start_manager :: "ClientConfig \<Rightarrow> Manager" where
  "start_manager c =
     SetRotationConfig \<lparr> SwitchMin = set_SwitchMin (Settings c), SwitchMax = set_SwitchMax (Settings c),
                         Randomize = set_Randomize (Settings c) \<rparr>
       (SetDomains (domain_names c) (NewManager (Server c) (UUID c)))"

text \<open>The delays of the rotation loop; an \<^verbatim>\<open>Int63n\<close> is \<open>rnd\<close> of its bound.\<close>

definition switch_range :: "ClientConfig \<Rightarrow> int \<times> int" where
  "switch_range c =
     (let mn = set_SwitchMin (Settings c); mx = set_SwitchMax (Settings c);
          mn = (if mn = 0 then 60 * second else mn)
      in (mn, if mx = 0 \<or> mx \<le> mn then mn * 5 else mx))"

definition rotation_delay :: "(int \<Rightarrow> int) \<Rightarrow> ClientConfig \<Rightarrow> int" where
  "rotation_delay rnd c =
     (case switch_range c of (mn, mx) \<Rightarrow> if mn < mx then mn + rnd (mx - mn) else mn)"

text \<open>A loop whose context is done when it starts returns from its first \<^verbatim>\<open>select\<close>.\<close>

definition start_loops :: "(int \<Rightarrow> int) \<Rightarrow> client_system \<Rightarrow> client_system" where
  "start_loops rnd s =
     (if ctx_done (client s) then s
      else s\<lparr> rotators := (if transportManager (client s) = None then rotators s
                           else rotators s @ [rotation_delay rnd (cfg (client s))]),
              watchers := watchers s + 1 \<rparr>)"

definition set_status :: "ConnectionStatus \<Rightarrow> client_system \<Rightarrow> client_system" where
  "set_status st s = s\<lparr>client := (client s)\<lparr>status := st\<rparr>\<rparr>"

definition start_tunnel :: "os_env \<Rightarrow> client_system \<Rightarrow> (tunnel_error + unit) \<times> client_system" where
  "start_tunnel os s =
     (let a = Android (cfg (client s))
      in if EnableTUN a \<and> 0 < TUNFD a then
           (case StartTunnelFromFD os (TUNFD a) (MTU a) (c_tun (client s)) of
              (r, t) \<Rightarrow> (r, s\<lparr>client := (client s)\<lparr>c_tun := t\<rparr>\<rparr>))
         else (Inr (), s))"

definition Start :: "externals \<Rightarrow> (rat \<Rightarrow> rat) \<Rightarrow> client_env \<Rightarrow> client_system
    \<Rightarrow> (client_error failure + unit) \<times> client_system" where
  "Start x fl env s =
     (if status (client s) = StatusConnected then (Inl (Err ErrAlreadyConnected), s)
      else case start_tunnel (ce_os env) (set_status StatusConnecting s) of
             (Inl e, s) \<Rightarrow> (Inl (Err (ErrTunnelStart e)), set_status StatusDisconnected s)
           | (Inr _, s) \<Rightarrow>
               let c = client s; s = s\<lparr>client := c\<lparr>transportManager := Some (start_manager (cfg c))\<rparr>\<rparr>
               in case connect_transport x fl env s of
                    (Inl Panic, s) \<Rightarrow> (Inl Panic, s)
                  | (Inl (Err e), s) \<Rightarrow> (Inl (Err (ErrConnect e)), set_status StatusDisconnected s)
                  | (Inr r, s) \<Rightarrow>
                      (case ce_yamux env of
                         None \<Rightarrow> (Inl (Err ErrYamuxSession),
                                  set_status StatusDisconnected (close_raw x (ce_call env) r s))
                       | Some y \<Rightarrow>
                           (Inr (), start_loops (ce_rnd env)
                              (s\<lparr>client := (client s)\<lparr> session := Some y, connectedAt := Some (ce_now env),
                                   c_currentDomain := domain_names (cfg (client s)) ! 0,
                                   status := StatusConnected \<rparr>\<rparr>))))"

definition Stop :: "externals \<Rightarrow> call_env \<Rightarrow> client_system \<Rightarrow> client_system" where
  "Stop x env s =
     (let c = (client s)\<lparr>ctx_done := True, c_tun := snd (StopTunnel (c_tun (client s)))\<rparr>;
          s = s\<lparr> listening := filter (\<lambda>a. a \<notin> px_addr ` set (proxies c)) (listening s),
                 client := c\<lparr>proxies := []\<rparr> \<rparr>;
          s = (case transportManager (client s) of
                 Some m \<Rightarrow> (case Shutdown x env m (store s) of
                     (m, st) \<Rightarrow> s\<lparr>store := st, client := (client s)\<lparr>transportManager := Some m\<rparr>\<rparr>)
               | None \<Rightarrow>
                   (case session (client s) of
                      None \<Rightarrow> s
                    | Some y \<Rightarrow> s\<lparr>store := (store s)\<lparr>st_closed := st_closed (store s) @ [y]\<rparr>\<rparr>))
      in set_status StatusDisconnected s)"

definition Reconnect :: "externals \<Rightarrow> (rat \<Rightarrow> rat) \<Rightarrow> client_env \<Rightarrow> client_system
    \<Rightarrow> (client_error failure + unit) \<times> client_system" where
  "Reconnect x fl env s = Start x fl env (Stop x (ce_call env) s)"

section \<open>Proxies\<close>

definition client_router :: "ClientConfig \<Rightarrow> Router" where
  "client_router c =
     NewRouter (map (\<lambda>r. \<lparr> rule_type = rr_type r, rule_value = rr_value r, rule_policy = rr_policy r,
         ipNet = None \<rparr>)
       (Rules (Routing_cfg c))) (DefaultPolicy (Routing_cfg c))"

text \<open>One configured proxy: \<^verbatim>\<open>net.Listen\<close> fails on an address in use.\<close>

definition start_proxy :: "ProxyConfig \<Rightarrow> client_system \<Rightarrow> (client_error option) \<times> client_system" where
  "start_proxy p s =
     (let c = client s; addr = ''0.0.0.0:'' @ itoa (proxy_port p)
      in if proxy_type p = ''socks5'' \<or> proxy_type p = ''http'' then
           (if addr \<in> set (listening s) then (Some (ErrProxyStart addr), s)
            else (None, s\<lparr> listening := listening s @ [addr],
                   client := c\<lparr>proxies := proxies c @ [\<lparr> px_type = proxy_type p, px_addr = addr,
                     px_server = \<lparr> router = Some (client_router (cfg c)), bufferConfig = Some (Buffer (cfg c)) \<rparr>,
                     px_session = session c \<rparr>]\<rparr> \<rparr>))
         else (None, s))"

fun start_proxies :: "ProxyConfig list \<Rightarrow> client_system \<Rightarrow> (client_error option) \<times> client_system" where
  "start_proxies [] s = (None, s)"
| "start_proxies (p # ps) s =
     (case start_proxy p s of (Some e, s) \<Rightarrow> (Some e, s) | (None, s) \<Rightarrow> start_proxies ps s)"

definition StartProxies :: "client_system \<Rightarrow> (client_error option) \<times> client_system" where
  "StartProxies s = start_proxies (Proxies (cfg (client s))) s"

section \<open>The loops\<close>

text \<open>
  The timer of a rotation loop fires. The writes that arrive while the transport rotates, and \<open>wr\<close>,
  are those of \<open>RotateTransport\<close>. \<open>None\<close>: it panicked.
\<close>

definition domainRotationLoop :: "externals \<Rightarrow> client_env \<Rightarrow> (conn_id, MTPConn) gomap conn_write
    \<Rightarrow> bytes list \<Rightarrow> bytes list \<Rightarrow> nat \<Rightarrow> client_system \<Rightarrow> client_system option" where
  "domainRotationLoop x env wr during between i s =
     (if length (rotators s) \<le> i then Some s
      else if ctx_done (client s) then Some (s\<lparr>rotators := take i (rotators s) @ drop (i + 1) (rotators s)\<rparr>)
      else if status (client s) \<noteq> StatusConnected then Some s
      else case transportManager (client s) of
             None \<Rightarrow> None
           | Some m \<Rightarrow>
               (case RotateTransport x (ce_rnd env) (ce_dial env) wr during between [] m (st_conns (store s)) of
                  None \<Rightarrow> None
                | Some (e, m, w) \<Rightarrow>
                    let s = s\<lparr> store := (store s)\<lparr>st_conns := w\<rparr>,
                               client := (client s)\<lparr>transportManager := Some m\<rparr> \<rparr>
                    in Some (if e \<noteq> None then s\<lparr>rotators := (rotators s)[i := 10 * second]\<rparr>
                             else s\<lparr> client := (client s)\<lparr>c_currentDomain := GetCurrentDomain m\<rparr>,
                                     rotators := (rotators s)[i := rotation_delay (ce_rnd env) (cfg (client s))] \<rparr>)))"

definition reconnectSession :: "externals \<Rightarrow> (rat \<Rightarrow> rat) \<Rightarrow> client_env \<Rightarrow> client_system
    \<Rightarrow> (client_error failure + unit) \<times> client_system" where
  "reconnectSession x fl env s =
     (case connectMTP x fl (ce_dial env) s of
        (Inl Panic, s') \<Rightarrow> (Inl Panic, s')
      | (Inl (Err e), s') \<Rightarrow> (Inl (Err (ErrConnect e)), s)
      | (Inr r, s') \<Rightarrow>
          (case ce_yamux env of
             None \<Rightarrow> (Inl (Err ErrYamuxSession),
               close_raw x (ce_call env) r (s'\<lparr>client := (client s')\<lparr>c_mtpConn := c_mtpConn (client s)\<rparr>\<rparr>))
           | Some y \<Rightarrow> (Inr (), s'\<lparr>client := (client s')\<lparr>session := Some y, connectedAt := Some (ce_now env)\<rparr>\<rparr>)))"

text \<open>A tick of a health loop; \<open>is_closed\<close> is what yamux says of the sessions.\<close>

definition sessionHealthLoop :: "externals \<Rightarrow> (rat \<Rightarrow> rat) \<Rightarrow> client_env \<Rightarrow> (nat \<Rightarrow> bool) \<Rightarrow> client_system
    \<Rightarrow> client_system option" where
  "sessionHealthLoop x fl env is_closed s =
     (if watchers s = 0 then Some s
      else if ctx_done (client s) then Some (s\<lparr>watchers := watchers s - 1\<rparr>)
      else if status (client s) \<noteq> StatusConnected then Some s
      else if (case session (client s) of None \<Rightarrow> True | Some y \<Rightarrow> is_closed y) then
        (case reconnectSession x fl env (set_status StatusReconnecting s) of
           (Inl Panic, _) \<Rightarrow> None
         | (Inl (Err e), s) \<Rightarrow> Some (set_status StatusDisconnected s)
         | (Inr _, s) \<Rightarrow> Some (set_status StatusConnected s))
      else Some s)"

section \<open>Statistics and the tunnel\<close>

definition UpdateSpeed :: "int \<Rightarrow> int \<Rightarrow> Client \<Rightarrow> Client" where
  "UpdateSpeed down up c = c\<lparr>networkStats := (networkStats c)\<lparr>DownloadSpeed := down, UploadSpeed := up\<rparr>\<rparr>"

definition UpdatePing :: "int \<Rightarrow> Client \<Rightarrow> Client" where
  "UpdatePing ms c = c\<lparr>networkStats := (networkStats c)\<lparr>Ping := ms\<rparr>\<rparr>"

definition UpdateTraffic :: "int \<Rightarrow> int \<Rightarrow> Client \<Rightarrow> Client" where
  "UpdateTraffic down up c = c\<lparr>networkStats := (networkStats c)\<lparr>TotalDownload := down, TotalUpload := up\<rparr>\<rparr>"

definition SendSpeedData :: "int \<Rightarrow> int \<Rightarrow> int \<Rightarrow> Client \<Rightarrow> (client_error + unit) \<times> Client" where
  "SendSpeedData down up ms c =
     (if status c \<noteq> StatusConnected then (Inl ErrNotConnected, c)
      else (Inr (), UpdatePing ms (UpdateSpeed down up c)))"

definition SetTrafficCallback :: "bool \<Rightarrow> Client \<Rightarrow> Client" where
  "SetTrafficCallback cb c = c\<lparr>trafficCallback := cb\<rparr>"

definition GetConnectionStatus :: "Client \<Rightarrow> ConnectionStatus" where
  "GetConnectionStatus c = status c"

definition IsConnected :: "Client \<Rightarrow> bool" where
  "IsConnected c \<longleftrightarrow> GetConnectionStatus c = StatusConnected"

record SessionInfo =
  ConnectedAt :: "int option"
  ServerAddress :: string
  si_ServerName :: string
  si_UUID :: string
  si_Transport :: string
  CurrentDomain :: string
  Status :: ConnectionStatus
  Uptime :: int

definition GetSessionInfo :: "int \<Rightarrow> Client \<Rightarrow> SessionInfo" where
  "GetSessionInfo now c = \<lparr> ConnectedAt = connectedAt c, ServerAddress = Server (cfg c),
     si_ServerName = ServerName (cfg c), si_UUID = UUID (cfg c), si_Transport = Transport (cfg c),
     CurrentDomain = c_currentDomain c, Status = GetConnectionStatus c,
     Uptime = (case connectedAt c of None \<Rightarrow> 0 | Some t \<Rightarrow> now - t) \<rparr>"

text \<open>Without the time at which they were asked for.\<close>

definition GetNetworkStats :: "Client \<Rightarrow> NetworkStats" where
  "GetNetworkStats c = networkStats c"

definition GetTrafficStats :: "Client \<Rightarrow> int \<times> int" where
  "GetTrafficStats c = (let stats = GetNetworkStats c in (TotalDownload stats, TotalUpload stats))"

definition Client_GetCurrentDomain :: "Client \<Rightarrow> string" where
  "Client_GetCurrentDomain c = c_currentDomain c"

datatype info_value = InfoText string | InfoDomains "DomainEntry list"

definition GetServerInfo :: "Client \<Rightarrow> (string \<times> info_value) list" where
  "GetServerInfo c =
     [(''server'', InfoText (Server (cfg c))), (''serverName'', InfoText (ServerName (cfg c))),
      (''uuid'', InfoText (UUID (cfg c))), (''domains'', InfoDomains (Domains (cfg c))),
      (''transport'', InfoText (Transport (cfg c))), (''dns'', InfoText (DNS (cfg c)))]"

text \<open>One tick of \<^verbatim>\<open>collectStats\<close>: what the callback is given.\<close>

definition collectStats :: "Client \<Rightarrow> NetworkStats option" where
  "collectStats c = (if ctx_done c \<or> \<not> trafficCallback c then None else Some (GetNetworkStats c))"

definition Client_StartTunnelFromFD :: "os_env \<Rightarrow> int \<Rightarrow> int \<Rightarrow> Client \<Rightarrow> (client_error + unit) \<times> Client" where
  "Client_StartTunnelFromFD os fd mtu c =
     (case StartTunnelFromFD os fd mtu (c_tun c) of
        (Inl e, t) \<Rightarrow> (Inl (ErrTunnelStart e), c\<lparr>c_tun := t\<rparr>)
      | (Inr _, t) \<Rightarrow> (Inr (), c\<lparr>c_tun := t\<rparr>))"

definition Client_StopTunnel :: "Client \<Rightarrow> (tunnel_error + unit) \<times> Client" where
  "Client_StopTunnel c = (case StopTunnel (c_tun c) of (r, t) \<Rightarrow> (r, c\<lparr>c_tun := t\<rparr>))"

definition Client_GetTunnelInfo :: "int \<Rightarrow> Client \<Rightarrow> bool \<times> (string \<times> int) list" where
  "Client_GetTunnelInfo now c = GetTunnelInfo now (tun (c_tun c))"

definition Client_IsTunnelRunning :: "Client \<Rightarrow> bool" where
  "Client_IsTunnelRunning c = IsTunnelRunning (tun (c_tun c))"

section \<open>Every order of calls\<close>

inductive client_step :: "externals \<Rightarrow> (rat \<Rightarrow> rat) \<Rightarrow> client_system \<Rightarrow> client_system \<Rightarrow> bool"
  for x fl where
  step_start: "client_step x fl s (snd (Start x fl env s))"
| step_stop: "client_step x fl s (Stop x env s)"
| step_reconnect: "client_step x fl s (snd (Reconnect x fl e s))"
| step_proxies: "client_step x fl s (snd (StartProxies s))"
| step_rotation: "domainRotationLoop x env wr during between i s = Some t \<Longrightarrow> client_step x fl s t"
| step_health: "sessionHealthLoop x fl env is_closed s = Some t \<Longrightarrow> client_step x fl s t"
| step_speed: "client_step x fl s (s\<lparr>client := snd (SendSpeedData down up ms (client s))\<rparr>)"
| step_traffic: "client_step x fl s (s\<lparr>client := UpdateTraffic down up (client s)\<rparr>)"
| step_callback: "client_step x fl s (s\<lparr>client := SetTrafficCallback cb (client s)\<rparr>)"
| step_tunnel_start: "client_step x fl s (s\<lparr>client := snd (Client_StartTunnelFromFD os fd mtu (client s))\<rparr>)"
| step_tunnel_stop: "client_step x fl s (s\<lparr>client := snd (Client_StopTunnel (client s))\<rparr>)"

inductive_cases client_stepE: "client_step x fl s t"

text \<open>The manager of a client never gets a session of its own.\<close>

definition idle_manager :: "Manager \<Rightarrow> bool" where
  "idle_manager m \<longleftrightarrow> m_session m = None \<and> virtualConn m = None \<and> mtpConn m = None"

definition client_wf :: "client_system \<Rightarrow> bool" where
  "client_wf s \<longleftrightarrow>
     (let c = client s
      in (status c = StatusConnected \<longrightarrow> session c \<noteq> None \<and> c_currentDomain c = domain_names (cfg c) ! 0)
       \<and> (session c \<noteq> None \<longrightarrow> transportManager c \<noteq> None)
       \<and> (\<forall>m. transportManager c = Some m \<longrightarrow> idle_manager m)
       \<and> (rotators s \<noteq> [] \<longrightarrow> transportManager c \<noteq> None)
       \<and> c_currentDomain c \<in> {[], domain_names (cfg c) ! 0}
       \<and> st_closed (store s) = []
       \<and> listening s = map px_addr (proxies c) \<and> distinct (map px_addr (proxies c))
       \<and> (\<forall>p\<in>set (proxies c). px_session p \<noteq> None \<longrightarrow> transportManager c \<noteq> None)
       \<and> tun_wf (c_tun c))"

lemma idle_start_manager: "idle_manager (start_manager c)"
  by (simp add: start_manager_def idle_manager_def SetRotationConfig_def SetDomains_def NewManager_def Let_def)

lemma idle_Shutdown: "idle_manager m \<Longrightarrow> Shutdown x env m st = (m, st)"
  by (cases m) (simp add: idle_manager_def Shutdown_def)

lemma idle_RotateTransport:
  "idle_manager m \<Longrightarrow> RotateTransport x rnd d wr during between nd m w = Some (Some ErrNotInitialized, m, w)"
  by (simp add: idle_manager_def RotateTransport_def)

lemma connectMTP_frame:
  "client (snd (connectMTP x fl d s)) = (client s)\<lparr>c_mtpConn := c_mtpConn (client (snd (connectMTP x fl d s)))\<rparr>"
  "rotators (snd (connectMTP x fl d s)) = rotators s" "watchers (snd (connectMTP x fl d s)) = watchers s"
  "st_closed (store (snd (connectMTP x fl d s))) = st_closed (store s)"
  "listening (snd (connectMTP x fl d s)) = listening s"
  by (auto simp: connectMTP_def Let_def split: prod.splits sum.splits option.splits failure.splits)

lemma close_raw_frame [simp]:
  "client (close_raw x env r s) = client s" "rotators (close_raw x env r s) = rotators s"
  "watchers (close_raw x env r s) = watchers s" "st_closed (store (close_raw x env r s)) = st_closed (store s)"
  "listening (close_raw x env r s) = listening s"
  by (auto simp: close_raw_def split: raw_conn.splits option.splits)

lemma connect_frame:
  assumes "connect_transport x fl env s = (r, t)"
  shows "client t = (client s)\<lparr>c_mtpConn := c_mtpConn (client t)\<rparr> \<and> rotators t = rotators s
    \<and> watchers t = watchers s \<and> st_closed (store t) = st_closed (store s) \<and> listening t = listening s"
proof -
  have "t = s \<or> t = snd (connectMTP x fl (ce_dial env) s)"
    using assms by (auto simp: connect_transport_def Let_def split: if_splits)
  then show ?thesis using connectMTP_frame [of x fl "ce_dial env" s] by auto
qed

lemma start_tunnel_frame:
  assumes "start_tunnel os s = (r, t)" "tun_wf (c_tun (client s))"
  shows "\<exists>u. t = s\<lparr>client := (client s)\<lparr>c_tun := u\<rparr>\<rparr> \<and> tun_wf u"
proof (cases "EnableTUN (Android (cfg (client s))) \<and> 0 < TUNFD (Android (cfg (client s)))")
  case True
  obtain q u where u: "StartTunnelFromFD os (TUNFD (Android (cfg (client s)))) (MTU (Android (cfg (client s))))
      (c_tun (client s)) = (q, u)" by (metis surj_pair)
  then have "tun_wf u" using start_wf [OF assms(2)] by (metis StartTunnelFromFD_def snd_conv)
  then show ?thesis using assms(1) True u by (auto simp: start_tunnel_def Let_def)
next
  case False
  then have "t = s" using assms(1) by (auto simp: start_tunnel_def Let_def)
  then show ?thesis using assms(2) by (intro exI [of _ "c_tun (client s)"]) simp
qed

lemma Start_cases:
  assumes "Start x fl env s = (r, t)" "status (client s) \<noteq> StatusConnected" "tun_wf (c_tun (client s))"
  shows "\<exists>u k. tun_wf u \<and> watchers s \<le> watchers t \<and> st_closed (store t) = st_closed (store s) \<and> listening t = listening s \<and>
    ((\<exists>e. r = Inl (Err (ErrTunnelStart e))) \<and> rotators t = rotators s
       \<and> client t = (client s)\<lparr>c_tun := u, status := StatusDisconnected\<rparr>
     \<or> (r = Inl Panic \<or> (\<exists>e. r = Inl (Err e))) \<and> rotators t = rotators s
       \<and> client t = (client s)\<lparr>c_tun := u, c_mtpConn := k, transportManager := Some (start_manager (cfg (client s))),
           status := (if r = Inl Panic then StatusConnecting else StatusDisconnected)\<rparr>
     \<or> r = Inr () \<and> ce_yamux env \<noteq> None \<and> (ctx_done (client s) \<longrightarrow> rotators t = rotators s \<and> watchers t = watchers s)
       \<and> client t = (client s)\<lparr>c_tun := u, c_mtpConn := k, transportManager := Some (start_manager (cfg (client s))),
           session := ce_yamux env, connectedAt := Some (ce_now env),
           c_currentDomain := domain_names (cfg (client s)) ! 0, status := StatusConnected\<rparr>)"
proof -
  obtain q s1 where q: "start_tunnel (ce_os env) (set_status StatusConnecting s) = (q, s1)" by (metis surj_pair)
  obtain u where u: "s1 = s\<lparr>client := (client s)\<lparr>status := StatusConnecting, c_tun := u\<rparr>\<rparr>" "tun_wf u"
    using start_tunnel_frame [OF q] assms(3) by (auto simp: set_status_def)
  let ?s2 = "s\<lparr>client := (client s)\<lparr>status := StatusConnecting, c_tun := u,
      transportManager := Some (start_manager (cfg (client s)))\<rparr>\<rparr>"
  obtain p s3 where p: "connect_transport x fl env ?s2 = (p, s3)" by (metis surj_pair)
  obtain k where k: "client s3 = (client s)\<lparr>status := StatusConnecting, c_tun := u,
      transportManager := Some (start_manager (cfg (client s))), c_mtpConn := k\<rparr>"
    using connect_frame [OF p] by auto
  have f: "rotators s3 = rotators s" "watchers s3 = watchers s" "st_closed (store s3) = st_closed (store s)"
    "listening s3 = listening s" using connect_frame [OF p] by auto
  show ?thesis
  proof (cases q)
    case (Inl e)
    then show ?thesis using assms(1,2) q u
      by (intro exI [of _ u]) (auto simp: Start_def set_status_def)
  next
    case (Inr e)
    then have S: "(r, t) = (case (p, s3) of (Inl Panic, s) \<Rightarrow> (Inl Panic, s)
        | (Inl (Err e), s) \<Rightarrow> (Inl (Err (ErrConnect e)), set_status StatusDisconnected s)
        | (Inr r, s) \<Rightarrow> (case ce_yamux env of
             None \<Rightarrow> (Inl (Err ErrYamuxSession), set_status StatusDisconnected (close_raw x (ce_call env) r s))
           | Some y \<Rightarrow> (Inr (), start_loops (ce_rnd env) (s\<lparr>client := (client s)\<lparr> session := Some y,
               connectedAt := Some (ce_now env), c_currentDomain := domain_names (cfg (client s)) ! 0,
               status := StatusConnected \<rparr>\<rparr>))))"
      using assms(1,2) q u p by (simp add: Start_def Let_def)
    show ?thesis
    proof (cases p)
      case (Inl e)
      then show ?thesis using S u(2) k f
        by (intro exI [of _ u] exI [of _ k]) (cases e; simp add: set_status_def)
    next
      case (Inr c)
      then show ?thesis using S u(2) k f
        by (intro exI [of _ u] exI [of _ k]) (cases "ce_yamux env"; simp add: set_status_def start_loops_def)
    qed
  qed
qed

lemmas client_wf_simps = client_wf_def Let_def

lemma Start_wf: "client_wf s \<Longrightarrow> client_wf (snd (Start x fl env s))"
proof (cases "status (client s) = StatusConnected")
  case False
  assume wf: "client_wf s"
  obtain r t where r: "Start x fl env s = (r, t)" by (metis surj_pair)
  have "tun_wf (c_tun (client s))" using wf by (simp add: client_wf_simps)
  from Start_cases [OF r False this] show ?thesis
    using wf idle_start_manager unfolding r snd_conv
    by (elim exE conjE disjE) (simp_all add: client_wf_simps split: if_splits)
qed (simp add: Start_def)

lemma Stop_frame:
  assumes "client_wf s"
  shows "Stop x env s = s\<lparr>listening := [], client := (client s)\<lparr>ctx_done := True,
    c_tun := snd (StopTunnel (c_tun (client s))), proxies := [], status := StatusDisconnected\<rparr>\<rparr>"
proof -
  have "filter (\<lambda>a. a \<notin> px_addr ` set (proxies (client s))) (listening s) = []"
    using assms by (auto simp: client_wf_simps)
  then show ?thesis using assms idle_Shutdown
    by (auto simp: Stop_def set_status_def client_wf_simps split: option.split)
qed

lemma Stop_wf: "client_wf s \<Longrightarrow> client_wf (Stop x env s)"
  unfolding Stop_frame using stop_wf [of "c_tun (client s)"] by (simp add: client_wf_simps)

lemma start_proxy_wf: "client_wf s \<Longrightarrow> client_wf (snd (start_proxy p s))"
  by (auto simp: start_proxy_def client_wf_simps)

lemma start_proxies_wf: "client_wf s \<Longrightarrow> client_wf (snd (start_proxies ps s))"
proof (induction ps s rule: start_proxies.induct)
  case (2 p ps s)
  obtain e t where e: "start_proxy p s = (e, t)" by (metis surj_pair)
  then show ?case using start_proxy_wf [OF "2.prems", of p] "2.IH" by (cases e) auto
qed simp

lemma domainRotationLoop_idle:
  assumes "client_wf s" "domainRotationLoop x env wr during between i s = Some t"
  shows "\<exists>l. t = s\<lparr>rotators := l\<rparr> \<and> (l \<noteq> [] \<longrightarrow> rotators s \<noteq> [])"
proof (cases "length (rotators s) \<le> i \<or> ctx_done (client s) \<or> status (client s) \<noteq> StatusConnected")
  case True
  then show ?thesis using assms(2)
    by (auto simp: domainRotationLoop_def split: if_splits intro: exI [of _ "rotators s"])
next
  case False
  then obtain m where m: "transportManager (client s) = Some m" "idle_manager m"
    using assms(1) by (auto simp: client_wf_simps)
  then have "t = s\<lparr>rotators := (rotators s)[i := 10 * second]\<rparr>"
    using assms(2) False idle_RotateTransport [OF m(2)] by (auto simp: domainRotationLoop_def)
  then show ?thesis by (intro exI) auto
qed

lemma rotation_retry:
  assumes "client_wf s" "i < length (rotators s)" "\<not> ctx_done (client s)" "status (client s) = StatusConnected"
  shows "domainRotationLoop x env wr during between i s = Some (s\<lparr>rotators := (rotators s)[i := 10 * second]\<rparr>)"
proof -
  obtain m where m: "transportManager (client s) = Some m" "idle_manager m"
    using assms(1,4) by (auto simp: client_wf_simps)
  then show ?thesis using assms(2-4) idle_RotateTransport [OF m(2)] by (simp add: domainRotationLoop_def)
qed

lemma reconnect_cases:
  assumes "reconnectSession x fl env s = (r, t)"
  shows "rotators t = rotators s \<and> watchers t = watchers s \<and> st_closed (store t) = st_closed (store s)
    \<and> listening t = listening s
    \<and> (\<exists>k. client t = (if r = Inr () then (client s)\<lparr>c_mtpConn := k, session := ce_yamux env,
          connectedAt := Some (ce_now env)\<rparr> else (client s)\<lparr>c_mtpConn := k\<rparr>))
    \<and> (r = Inr () \<longrightarrow> ce_yamux env \<noteq> None)"
proof -
  obtain p u where p: "connectMTP x fl (ce_dial env) s = (p, u)" by (metis surj_pair)
  have f: "client u = (client s)\<lparr>c_mtpConn := c_mtpConn (client u)\<rparr>" "rotators u = rotators s"
    "watchers u = watchers s" "st_closed (store u) = st_closed (store s)" "listening u = listening s"
    using connectMTP_frame [of x fl "ce_dial env" s] p by simp_all
  obtain k where k: "client u = (client s)\<lparr>c_mtpConn := k\<rparr>" using f(1) by blast
  have id: "\<exists>k. client s = (client s)\<lparr>c_mtpConn := k\<rparr>" by (intro exI [of _ "c_mtpConn (client s)"]) simp
  show ?thesis
  proof (cases p)
    case (Inl e)
    then have "r \<noteq> Inr () \<and> (t = s \<or> t = u)"
      using assms p by (cases e) (auto simp: reconnectSession_def)
    then show ?thesis using k f(2-) id by auto
  next
    case (Inr c)
    show ?thesis
    proof (cases "ce_yamux env")
      case None
      then have "r \<noteq> Inr ()" "client t = (client s)\<lparr>c_mtpConn := c_mtpConn (client s)\<rparr>" "rotators t = rotators s"
        "watchers t = watchers s" "st_closed (store t) = st_closed (store s)" "listening t = listening s"
        using assms p Inr k f(2-) by (auto simp: reconnectSession_def)
      then show ?thesis using id by auto
    next
      case (Some y)
      then show ?thesis using assms p Inr k f(2-) by (auto simp: reconnectSession_def)
    qed
  qed
qed

lemma health_wf:
  assumes "client_wf s" "sessionHealthLoop x fl env is_closed s = Some t"
  shows "client_wf t"
proof -
  obtain r u where r: "reconnectSession x fl env (set_status StatusReconnecting s) = (r, u)" by (metis surj_pair)
  have "t = s \<or> t = s\<lparr>watchers := watchers s - 1\<rparr> \<or> status (client s) = StatusConnected \<and> r \<noteq> Inl Panic \<and>
    t = set_status (if r = Inr () then StatusConnected else StatusDisconnected) u"
    using assms(2) r by (auto simp: sessionHealthLoop_def split: if_splits sum.splits failure.splits)
  then show ?thesis
  proof (elim disjE conjE)
    assume "t = set_status (if r = Inr () then StatusConnected else StatusDisconnected) u"
      "status (client s) = StatusConnected"
    then show ?thesis using reconnect_cases [OF r] assms(1)
      by (elim conjE exE) (simp add: client_wf_simps set_status_def split: if_splits)
  qed (use assms(1) in \<open>simp_all add: client_wf_simps\<close>)
qed

lemma client_step_wf: "client_wf s \<Longrightarrow> client_step x fl s t \<Longrightarrow> client_wf t"
proof (erule client_stepE)
  fix env wr during between i
  show "client_wf s \<Longrightarrow> domainRotationLoop x env wr during between i s = Some t \<Longrightarrow> client_wf t"
    using domainRotationLoop_idle [of s x env wr during between i t] by (auto simp: client_wf_simps)
next
  fix os fd mtu
  assume "client_wf s" "t = s\<lparr>client := snd (Client_StartTunnelFromFD os fd mtu (client s))\<rparr>"
  moreover from this have "tun_wf (snd (StartTunnelFromFD os fd mtu (c_tun (client s))))"
    by (simp add: client_wf_simps StartTunnelFromFD_def start_wf)
  moreover have "snd (Client_StartTunnelFromFD os fd mtu (client s))
      = (client s)\<lparr>c_tun := snd (StartTunnelFromFD os fd mtu (c_tun (client s)))\<rparr>"
    by (simp add: Client_StartTunnelFromFD_def split: prod.splits sum.splits)
  ultimately show "client_wf t" by (simp add: client_wf_simps)
next
  assume "client_wf s" "t = s\<lparr>client := snd (Client_StopTunnel (client s))\<rparr>"
  moreover have "snd (Client_StopTunnel (client s)) = (client s)\<lparr>c_tun := snd (StopTunnel (c_tun (client s)))\<rparr>"
    by (simp add: Client_StopTunnel_def split: prod.splits)
  ultimately show "client_wf t" using stop_wf [of "c_tun (client s)"] by (simp add: client_wf_simps)
qed (auto simp: Start_wf Stop_wf Reconnect_def StartProxies_def start_proxies_wf health_wf,
     auto simp: client_wf_simps SendSpeedData_def UpdateSpeed_def UpdatePing_def UpdateTraffic_def SetTrafficCallback_def)

lemma tun_wf_init: "tun_wf tun_init"
  by (simp add: tun_init_def New_def tun_wf_def)

lemma client_wf_init: "client_wf (client_init c)"
  by (simp add: client_wf_simps client_init_def NewClient_def tun_wf_init)

interpretation client: invariant_system "\<lambda>s. s = client_init c" "client_step x fl" client_wf
  by unfold_locales (auto simp: client_wf_init client_step_wf)

lemma Start_sets_status:
  assumes "client_wf s" "Start x fl env s = (r, t)" "r \<noteq> Inl Panic" "r \<noteq> Inl (Err ErrAlreadyConnected)"
  shows "status (client t) = (if r = Inr () then StatusConnected else StatusDisconnected)
    \<and> (r = Inr () \<longrightarrow> session (client t) = ce_yamux env)"
proof -
  have "status (client s) \<noteq> StatusConnected" "tun_wf (c_tun (client s))"
    using assms(1,2,4) by (auto simp: Start_def client_wf_simps)
  from Start_cases [OF assms(2) this] assms(3) show ?thesis by (elim exE conjE disjE) simp_all
qed

lemma Start_done:
  assumes "client_wf s" "ctx_done (client s)" "Start x fl env s = (r, t)"
  shows "rotators t = rotators s \<and> (r = Inr () \<longrightarrow> watchers t = watchers s) \<and> ctx_done (client t)
    \<and> st_closed (store t) = st_closed (store s)"
proof (cases "status (client s) = StatusConnected")
  case False
  have "tun_wf (c_tun (client s))" using assms(1) by (simp add: client_wf_simps)
  from Start_cases [OF assms(3) False this] assms(2) show ?thesis by (elim exE conjE disjE) simp_all
qed (use assms in \<open>simp add: Start_def\<close>)

lemma Reconnect_loops:
  assumes "client_wf s" "Reconnect x fl env s = (r, t)"
  shows "rotators t = rotators s \<and> (r = Inr () \<longrightarrow> watchers t = watchers s) \<and> ctx_done (client t)
    \<and> st_closed (store t) = []"
  using Start_done [OF Stop_wf [OF assms(1), of x "ce_call env"], of x fl env r t] assms
  unfolding Reconnect_def Stop_frame [OF assms(1)] by (simp add: client_wf_simps)

lemma health_stuck: "status (client s) = StatusDisconnected \<Longrightarrow> \<not> ctx_done (client s)
  \<Longrightarrow> sessionHealthLoop x fl env is_closed s = Some s"
  by (simp add: sessionHealthLoop_def)

section \<open>Properties\<close>

text \<open>C16. The transport manager that the client configures for domain rotation is never given the
  connection: whatever was called before, in whatever order and with whatever answers, a rotation loop
  that gets its turn fails with \<^verbatim>\<open>ErrNotInitialized\<close>, changes nothing and waits ten seconds, so the
  domain the client reports is the first of its configuration for ever, and shutting the manager down
  closes nothing: no yamux session is ever closed by the client.\<close>

theorem client_never_rotates:
  assumes "reachable (\<lambda>s. s = client_init c) (client_step x fl) s"
  shows "(i < length (rotators s) \<and> \<not> ctx_done (client s) \<and> status (client s) = StatusConnected \<longrightarrow>
      domainRotationLoop x env wr during between i s = Some (s\<lparr>rotators := (rotators s)[i := 10 * second]\<rparr>))
    \<and> c_currentDomain (client s) \<in> {[], domain_names (cfg (client s)) ! 0}
    \<and> st_closed (store s) = [] \<and> store (Stop x call s) = store s"
proof -
  have wf: "client_wf s" using client.reachable_inv [OF assms] .
  show ?thesis using rotation_retry [OF wf] Stop_frame [OF wf, of x call] wf
    by (simp add: client_wf_simps)
qed

definition demo_tcp_client :: ClientConfig where
  "demo_tcp_client = no_client\<lparr>Server := ''a:1'', Transport := ''tcp'', ServerName := ''n'',
     Domains := [\<lparr> Domain = ''x'', Preset = [] \<rparr>, \<lparr> Domain = ''y'', Preset = [] \<rparr>],
     Android := no_android\<lparr>EnableTUN := True, TUNFD := 5\<rparr>\<rparr>"

definition demo_client_env :: "nat option \<Rightarrow> client_env" where
  "demo_client_env raw = \<lparr> ce_call = demo_env, ce_dial = \<lparr> d_now = 0, d_resolved = None, d_dialled = None,
     d_nonce = None, d_attempts = [] \<rparr>, ce_raw = raw, ce_yamux = Some 7, ce_os = demo_os, ce_now = 1,
     ce_rnd = (\<lambda>n. 0) \<rparr>"

definition demo_session :: client_system where
  "demo_session = snd (Start demo (\<lambda>r. r) (demo_client_env (Some 3)) (client_init (Some demo_tcp_client)))"

lemmas start_defs = Start_def start_tunnel_def connect_transport_def connectTCP_def start_loops_def set_status_def
  client_init_def NewClient_def demo_tcp_client_def no_client_def no_android_def demo_client_env_def

lemma demo_session_facts:
  "status (client demo_session) = StatusConnected" "session (client demo_session) = Some 7"
  "\<not> ctx_done (client demo_session)" "rotators demo_session = [60 * second]" "watchers demo_session = 1"
  "cfg (client demo_session) = demo_tcp_client" "Start demo (\<lambda>r. r) (demo_client_env (Some 3)) (client_init (Some demo_tcp_client)) = (Inr (), demo_session)"
  unfolding demo_session_def
  by (simp_all add: start_defs restart_defs demo_os_def findTun2socksBinary_def rotation_delay_def switch_range_def
      no_settings_def second_def Let_def)

lemma demo_session_reachable:
  "reachable (\<lambda>s. s = client_init (Some demo_tcp_client)) (client_step demo (\<lambda>r. r)) demo_session"
  unfolding demo_session_def by (rule reach_step, rule reach_start) (rule refl, rule step_start)

theorem client_never_rotates_witness:
  "domainRotationLoop demo (demo_client_env None) (\<lambda>i b w. None) [] [] 0 demo_session
     = Some (demo_session\<lparr>rotators := [10 * second]\<rparr>)"
  using client_never_rotates [OF demo_session_reachable, of 0 "demo_client_env None" "\<lambda>i b w. None" "[]" "[]"]
  by (simp add: demo_session_facts)

text \<open>C17. \<^verbatim>\<open>Reconnect\<close> leaves a client without its goroutines: the context that \<^verbatim>\<open>Stop\<close> cancels
  is never made again, so no rotation loop and no health loop is added, and every one there was ends
  at its next turn; the session before is not closed.\<close>

theorem client_reconnect:
  assumes "reachable (\<lambda>s. s = client_init c) (client_step x fl) s"
    and "Reconnect x fl env s = (Inr (), t)"
  shows "IsConnected (client t) \<and> session (client t) = ce_yamux env \<and> st_closed (store t) = []
    \<and> rotators t = rotators s \<and> watchers t = watchers s
    \<and> (i < length (rotators t) \<longrightarrow> domainRotationLoop x env' wr during between i t
        = Some (t\<lparr>rotators := take i (rotators t) @ drop (i + 1) (rotators t)\<rparr>))
    \<and> (0 < watchers t \<longrightarrow> sessionHealthLoop x fl env' is_closed t = Some (t\<lparr>watchers := watchers t - 1\<rparr>))"
proof -
  have wf: "client_wf s" using client.reachable_inv [OF assms(1)] .
  have "Start x fl env (Stop x (ce_call env) s) = (Inr (), t)" using assms(2) by (simp add: Reconnect_def)
  then have "status (client t) = StatusConnected" "session (client t) = ce_yamux env"
    using Start_sets_status [OF Stop_wf [OF wf]] by force+
  then show ?thesis using Reconnect_loops [OF wf assms(2)]
    by (simp add: IsConnected_def GetConnectionStatus_def domainRotationLoop_def sessionHealthLoop_def)
qed

theorem client_reconnect_witness:
  "\<exists>t. Reconnect demo (\<lambda>r. r) (demo_client_env (Some 2)) demo_session = (Inr (), t) \<and> IsConnected (client t)
     \<and> sessionHealthLoop demo (\<lambda>r. r) (demo_client_env None) (\<lambda>y. True) t = Some (t\<lparr>watchers := 0\<rparr>)"
proof -
  have wf: "client_wf demo_session" using client.reachable_inv [OF demo_session_reachable] .
  let ?s = "Stop demo demo_env demo_session"
  have "\<not> running (tun (snd (StopTunnel (c_tun (client demo_session)))))" by (simp add: StopTunnel_def)
  then have "fst (Start demo (\<lambda>r. r) (demo_client_env (Some 2)) ?s) = Inr ()"
    unfolding Stop_frame [OF wf] using demo_session_facts(6)
    by (simp add: Start_def start_tunnel_def connect_transport_def connectTCP_def set_status_def
        demo_tcp_client_def no_client_def no_android_def demo_client_env_def StartTunnelFromFD_def
        StartTunnelFromFDWithConfig_def createTun2socksCommand_def demo_os_def findTun2socksBinary_def Let_def)
  then obtain t where t: "Reconnect demo (\<lambda>r. r) (demo_client_env (Some 2)) demo_session = (Inr (), t)"
    by (cases "Start demo (\<lambda>r. r) (demo_client_env (Some 2)) ?s") (auto simp: Reconnect_def demo_client_env_def)
  show ?thesis
    using client_reconnect [OF demo_session_reachable t, of 0 "demo_client_env None" "\<lambda>i b w. None" "[]" "[]" "\<lambda>y. True"] t
    by (simp add: demo_session_facts)
qed

text \<open>C18. When the yamux session has died, the health loop dials once, always over MTP whatever the transport
  of the configuration. If that fails the client is disconnected and no later tick tries again, although the log
  says that it will; if it succeeds the client has the new session, and every proxy that was started
  keeps the dead one.\<close>

theorem client_health_once:
  assumes "0 < watchers s" "\<not> ctx_done (client s)" "status (client s) = StatusConnected"
    and "session (client s) = Some y" "is_closed y"
    and "reconnectSession x fl env (set_status StatusReconnecting s) = (r, u)" "r \<noteq> Inl Panic"
  shows "\<exists>t. sessionHealthLoop x fl env is_closed s = Some t \<and> proxies (client t) = proxies (client s)
    \<and> (d_resolved (ce_dial env) = None \<longrightarrow> r = Inl (Err (ErrConnect (MtpDial ErrResolve))))
    \<and> (if r = Inr () then IsConnected (client t) \<and> session (client t) = ce_yamux env
       else status (client t) = StatusDisconnected \<and> session (client t) = Some y
         \<and> (\<forall>env' is_closed'. sessionHealthLoop x fl env' is_closed' t = Some t))"
proof -
  let ?t = "set_status (if r = Inr () then StatusConnected else StatusDisconnected) u"
  have t: "sessionHealthLoop x fl env is_closed s = Some ?t"
    using assms by (auto simp: sessionHealthLoop_def split: sum.splits failure.splits)
  let ?c = "client (set_status StatusReconnecting s)"
  obtain k where k: "client u = (if r = Inr () then ?c\<lparr>c_mtpConn := k, session := ce_yamux env,
      connectedAt := Some (ce_now env)\<rparr> else ?c\<lparr>c_mtpConn := k\<rparr>)"
    using reconnect_cases [OF assms(6)] by blast
  have "d_resolved (ce_dial env) = None \<Longrightarrow> r = Inl (Err (ErrConnect (MtpDial ErrResolve)))"
    using assms(6) by (auto simp: reconnectSession_def connectMTP_def DialWithConfig_def)
  moreover have "r \<noteq> Inr () \<Longrightarrow> sessionHealthLoop x fl e ic ?t = Some ?t" for e ic
    by (rule health_stuck) (use assms(2) k in \<open>simp_all add: set_status_def\<close>)
  ultimately show ?thesis using t k assms(4)
    by (intro exI [of _ ?t]) (simp add: set_status_def IsConnected_def GetConnectionStatus_def)
qed

theorem client_health_once_witness:
  "\<exists>t. sessionHealthLoop demo (\<lambda>r. r) (demo_client_env (Some 1)) (\<lambda>y. True) demo_session = Some t
     \<and> status (client t) = StatusDisconnected
     \<and> sessionHealthLoop demo (\<lambda>r. r) (demo_client_env (Some 2)) (\<lambda>y. True) t = Some t"
proof -
  obtain r u where r: "reconnectSession demo (\<lambda>r. r) (demo_client_env (Some 1)) (set_status StatusReconnecting demo_session) = (r, u)"
    by (metis surj_pair)
  have "d_resolved (ce_dial (demo_client_env (Some 1))) = None" by (simp add: demo_client_env_def)
  moreover from this have "r \<noteq> Inl Panic" using r
    by (auto simp: reconnectSession_def connectMTP_def DialWithConfig_def)
  ultimately show ?thesis
    using client_health_once [OF _ _ _ demo_session_facts(2) _ r, of "\<lambda>y. True"] by (auto simp: demo_session_facts)
qed

text \<open>A start that fails to connect leaves the tunnel that it started running: every later start
  fails because of it, until the tunnel is stopped.\<close>

theorem client_tunnel_retry:
  assumes "EnableTUN (Android (cfg (client s)))" "0 < TUNFD (Android (cfg (client s)))"
    and "\<not> running (tun (c_tun (client s)))" "findTun2socksBinary (ce_os env) = Inr path" "start_ok (ce_os env)"
    and "Start x fl env s = (Inl (Err (ErrConnect e)), t)"
  shows "Client_IsTunnelRunning (client t) \<and> status (client t) = StatusDisconnected
    \<and> Start x fl env' t = (Inl (Err (ErrTunnelStart ErrTunnelAlreadyRunning)), t)"
proof -
  let ?a = "Android (cfg (client s))"
  obtain u where u: "StartTunnelFromFD (ce_os env) (TUNFD ?a) (MTU ?a) (c_tun (client s)) = (Inr (), u)" "running (tun u)"
    using assms(2-5) by (simp add: StartTunnelFromFD_def StartTunnelFromFDWithConfig_def createTun2socksCommand_def Let_def)
  let ?s = "s\<lparr>client := (client s)\<lparr>status := StatusConnecting, c_tun := u,
      transportManager := Some (start_manager (cfg (client s)))\<rparr>\<rparr>"
  obtain p v where p: "connect_transport x fl env ?s = (p, v)" by (metis surj_pair)
  have "status (client s) \<noteq> StatusConnected" using assms(6) by (auto simp: Start_def)
  then have "t = set_status StatusDisconnected v"
    using assms(1,2,6) u(1) p
    by (auto simp: Start_def start_tunnel_def set_status_def Let_def split: sum.splits failure.splits option.splits)
  moreover obtain k where "client v = (client s)\<lparr>status := StatusConnecting, c_tun := u,
      transportManager := Some (start_manager (cfg (client s))), c_mtpConn := k\<rparr>"
    using connect_frame [OF p] by auto
  ultimately show ?thesis using assms(1,2) u(2)
    by (simp add: Client_IsTunnelRunning_def IsTunnelRunning_def Start_def start_tunnel_def set_status_def
        StartTunnelFromFD_def StartTunnelFromFDWithConfig_def Let_def)
qed

theorem client_tunnel_retry_witness:
  "\<exists>t. Start demo (\<lambda>r. r) (demo_client_env None) (client_init (Some demo_tcp_client)) = (Inl (Err (ErrConnect TcpDial)), t)
     \<and> Start demo (\<lambda>r. r) (demo_client_env (Some 1)) t = (Inl (Err (ErrTunnelStart ErrTunnelAlreadyRunning)), t)"
proof -
  let ?s = "client_init (Some demo_tcp_client)"
  obtain r t where t: "Start demo (\<lambda>r. r) (demo_client_env None) ?s = (r, t)" by (metis surj_pair)
  have "r = fst (Start demo (\<lambda>r. r) (demo_client_env None) ?s)" by (simp add: t)
  also have "\<dots> = Inl (Err (ErrConnect TcpDial))"
    by (simp add: start_defs restart_defs demo_os_def findTun2socksBinary_def Let_def)
  finally have t': "Start demo (\<lambda>r. r) (demo_client_env None) ?s = (Inl (Err (ErrConnect TcpDial)), t)" using t by simp
  have "EnableTUN (Android (cfg (client ?s)))" "0 < TUNFD (Android (cfg (client ?s)))"
    "\<not> running (tun (c_tun (client ?s)))" "findTun2socksBinary (ce_os (demo_client_env None)) = Inr ''tun2socks''"
    "start_ok (ce_os (demo_client_env None))"
    by (simp_all add: client_init_def NewClient_def demo_tcp_client_def no_client_def no_android_def tun_init_def New_def
        demo_client_env_def demo_os_def findTun2socksBinary_def)
  from client_tunnel_retry [OF this t', of "demo_client_env (Some 1)"] t' show ?thesis by blast
qed

end
