(* ===== verification/Command.thy ===== *)
theory Command
  imports Client Url
begin

text \<open>
  The two programs (\<^verbatim>\<open>cmd/server/main.go\<close> and \<^verbatim>\<open>cmd/client/main.go\<close>): how arguments and files become
  configurations, the share link a server prints, and the public address put into it. Files, answers of
  the address services and the interfaces of the machine are arguments.
\<close>

section \<open>The server\<close>

record local_addr =
  la_loopback :: bool
  la_v4 :: bool \<comment> \<open>an IPNet with an IPv4 address\<close>
  la_private :: bool
  la_text :: string

text \<open>\<open>answers\<close>: the body each service answers, \<open>None\<close> for an error, also while reading it.\<close>

definition detectPublicIP :: "string option list \<Rightarrow> local_addr list option \<Rightarrow> string" where
  "detectPublicIP answers addrs =
     (case filter (\<lambda>a. a \<noteq> []) (map the (filter (\<lambda>a. a \<noteq> None) answers)) of
        ip # _ \<Rightarrow> TrimSpace ip
      | [] \<Rightarrow>
          (case addrs of
             None \<Rightarrow> []
           | Some as \<Rightarrow>
               let usable = filter (\<lambda>a. \<not> la_loopback a \<and> la_v4 a) as
               in case filter (\<lambda>a. \<not> la_private a) usable of
                    a # _ \<Rightarrow> la_text a
                  | [] \<Rightarrow> (case usable of a # _ \<Rightarrow> la_text a | [] \<Rightarrow> [])))"

text \<open>The arguments after \<^verbatim>\<open>generate-link\<close>: the file and the host.\<close>

fun link_args :: "string list \<Rightarrow> string \<times> string \<Rightarrow> string \<times> string" where
  "link_args [] r = r"
| "link_args [a] (path, host) = (if HasPrefix a ''--'' then (path, host) else (a, host))"
| "link_args (a # b # as) (path, host) =
     (if a = ''--host'' then link_args as (path, b)
      else link_args (b # as) (if HasPrefix a ''--'' then path else a, host))"

definition link_config :: "string \<Rightarrow> ServerConfig \<Rightarrow> ClientConfig" where
  "link_config host s = no_client
     \<lparr> Server := host @ '':'' @ itoa (Port s), UUID := srv_UUID s, Domains := DomainList s,
       Transport := srv_Transport s, DNS := srv_DNS s, ServerName := srv_Name s, Compression_set := srv_Compression s \<rparr>"

text \<open>\<open>file\<close> is what loading a path gives; \<open>None\<close>: the program ends with a message.\<close>

definition generate_link :: "(string \<Rightarrow> ServerConfig option) \<Rightarrow> string \<Rightarrow> string list \<Rightarrow> string option" where
  "generate_link file detected args =
     (let (path, host) = link_args args (''server.yaml'', []);
          host = (if host = [] then (if detected = [] then ''YOUR_SERVER_IP'' else detected) else host)
      in map_option (\<lambda>s. GenerateMimicURL (link_config host s)) (file path))"

text \<open>The flags of the server: the port and the file.\<close>

fun server_flags :: "string list \<Rightarrow> int \<times> string \<Rightarrow> int \<times> string" where
  "server_flags [] r = r"
| "server_flags [a] r = r"
| "server_flags (a # b # as) (port, path) =
     (if a = ''-port'' then server_flags as (Sscanf_d b port, path)
      else if a = ''-config'' then server_flags as (port, b)
      else server_flags (b # as) (port, path))"

definition default_server :: "int \<Rightarrow> ServerConfig" where
  "default_server port = \<lparr> Port = port, MaxClients = 100, srv_UUID = ''550e8400-e29b-41d4-a716-446655440000'',
     DomainList = [\<lparr> Domain = ''vk.com'', Preset = [] \<rparr>, \<lparr> Domain = ''wikipedia.org'', Preset = [] \<rparr>],
     srv_Transport = ''mtp'', srv_DNS = [], srv_Name = [], srv_Compression = no_compression,
     srv_WebSocket = no_websocket, srv_Buffer = no_buffer \<rparr>"

definition server_config :: "(string \<Rightarrow> ServerConfig option) \<Rightarrow> string list \<Rightarrow> ServerConfig" where
  "server_config file args =
     (let (port, path) = server_flags args (443, ''server.yaml'')
      in case file path of
           None \<Rightarrow> default_server port
         | Some s \<Rightarrow> if port \<noteq> 443 then s\<lparr>Port := port\<rparr> else s)"

definition server_compression :: "ServerConfig \<Rightarrow> CompressionConfig option" where
  "server_compression s =
     (let c = srv_Compression s
      in if Enable c then Some \<lparr> cc_enable = Enable c, cc_level = Level c, cc_min_size = comp_MinSize c \<rparr> else None)"

text \<open>The listener that \<^verbatim>\<open>main\<close> starts, whatever transport the configuration names.\<close>

definition server_listener :: "externals \<Rightarrow> (string \<Rightarrow> string option) \<Rightarrow> (string \<Rightarrow> nat option) \<Rightarrow> ServerConfig
    \<Rightarrow> listen_error + Listener" where
  "server_listener x resolve bind_udp s =
     (let addr = '':'' @ itoa (Port s)
      in ListenWithConfig x (resolve addr) (bind_udp addr) (srv_UUID s) (server_compression s))"

section \<open>The client\<close>

definition demo_config :: ClientConfig where
  "demo_config = no_client
     \<lparr> Server := ''localhost:8080'', UUID := ''demo-uuid-12345'',
       Domains := [\<lparr> Domain = ''vk.com'', Preset = [] \<rparr>, \<lparr> Domain = ''rutube.ru'', Preset = [] \<rparr>,
                   \<lparr> Domain = ''telegram.org'', Preset = [] \<rparr>],
       Settings := no_settings\<lparr>set_SwitchMin := 10 * second, set_SwitchMax := 30 * second\<rparr>,
       Transport := ''mtp'',
       Proxies := [\<lparr> proxy_type = ''socks5'', proxy_port = 1080 \<rparr>, \<lparr> proxy_type = ''http'', proxy_port = 1081 \<rparr>] \<rparr>"

text \<open>The configuration of the client: the \<^verbatim>\<open>-url\<close> flag first, then the file, then the built-in one.\<close>

definition client_config :: "(rat \<Rightarrow> rat) \<Rightarrow> string \<Rightarrow> ClientConfig option \<Rightarrow> url_error + ClientConfig" where
  "client_config fl link file =
     (if link \<noteq> [] then ParseMimicURL fl link
      else Inr (case file of Some c \<Rightarrow> c | None \<Rightarrow> demo_config))"

section \<open>Lemmas\<close>

definition host_ok :: "string \<Rightarrow> bool" where
  "host_ok h \<longleftrightarrow> list_all (\<lambda>c. is_alnum c \<or> c \<in> set ''-._~'') h"

definition server_ok :: "ServerConfig \<Rightarrow> bool" where
  "server_ok s \<longleftrightarrow> 0 \<le> Port s \<and> srv_UUID s \<noteq> [] \<and> domains_plain (DomainList s)
     \<and> 1 \<le> Level (srv_Compression s) \<and> Level (srv_Compression s) \<le> 3
     \<and> 0 < comp_MinSize (srv_Compression s) \<and> int64 (comp_MinSize (srv_Compression s))"

lemma link_config_linkable:
  assumes "server_ok s" "host_ok host"
  shows "linkable (link_config host s)"
proof -
  have "list_all is_digit (itoa (Port s))"
    using assms(1) digits_facts(2) by (simp add: server_ok_def itoa_def)
  then have "plain_server (host @ '':'' @ itoa (Port s))"
    using assms(2) unfolding plain_server_def host_ok_def by blast
  then show ?thesis using assms(1)
    by (auto simp: linkable_def link_config_def server_ok_def no_client_def no_settings_def no_android_def int64_def)
qed

lemma generated_link_not_Nil: "GenerateMimicURL c \<noteq> []"
  by (simp add: GenerateMimicURL_def url_String_def SchemeMimic_def)

section \<open>Properties\<close>

text \<open>C28. From the server's file to a client that can talk to it. The link that \<^verbatim>\<open>generate-link\<close> prints for
  a host name or IPv4 address (given, detected, or else the placeholder) is accepted by the client's
  \<^verbatim>\<open>-url\<close> flag. The client then dials this host and the server's port, knows the server's domains, name,
  transport and DNS, and its connections and the listener of the same file start from the same key and
  connection ids and use the same compression. The switch interval is not the server's to say: it is one to
  five minutes.\<close>

theorem server_link:
  assumes "server_ok s" "file path = Some s" "link_args args (''server.yaml'', []) = (path, host)"
    and "h = (if host \<noteq> [] then host else if detected \<noteq> [] then detected else ''YOUR_SERVER_IP'')" "host_ok h"
    and "float_rounding fl" "server_listener x resolve bind_udp s = Inr l"
  shows "\<exists>link c. generate_link file detected args = Some link \<and> client_config fl link other = Inr c
    \<and> Server c = h @ '':'' @ itoa (Port s) \<and> Domains c = DomainList s \<and> ServerName c = srv_Name s \<and> DNS c = srv_DNS s
    \<and> Transport c = (if srv_Transport s = [] then ''mtp'' else srv_Transport s)
    \<and> UUID c = l_secret l \<and> mtp_compression c = l_compression l
    \<and> codec_peer (l_codec l) (arq_codec (arq (newMTPConn x fl now sock addr (UUID c) False (mtp_compression c))))
    \<and> set_SwitchMin (Settings c) = 60 * second \<and> set_SwitchMax (Settings c) = 300 * second"
proof -
  let ?k = "link_config h s" let ?c = "shared fl ?k"
  have host: "(if host = [] then if detected = [] then ''YOUR_SERVER_IP'' else detected else host) = h"
    using assms(4) by simp
  have link: "generate_link file detected args = Some (GenerateMimicURL ?k)"
    unfolding generate_link_def assms(3) prod.case Let_def host assms(2) by simp
  have parse: "client_config fl (GenerateMimicURL ?k) other = Inr ?c"
    using link_shared [OF link_config_linkable [OF assms(1,5)] assms(6)] generated_link_not_Nil
    by (simp add: client_config_def)
  have l: "l_secret l = srv_UUID s" "l_compression l = server_compression s"
    "l_codec l = NewPacketCodecWithConfig x \<lparr> Secret = srv_UUID s, EnableDCIDRot = True,
       DCIDRotInterval = 300, Compression_cfg = server_compression s \<rparr>"
    using assms(7) by (auto simp: server_listener_def ListenWithConfig_def Let_def split: option.splits)
  have c: "Server ?c = h @ '':'' @ itoa (Port s)" "Domains ?c = DomainList s" "ServerName ?c = srv_Name s" "DNS ?c = srv_DNS s"
    "Transport ?c = (if srv_Transport s = [] then ''mtp'' else srv_Transport s)" "UUID ?c = srv_UUID s"
    "set_SwitchMin (Settings ?c) = 60 * second" "set_SwitchMax (Settings ?c) = 300 * second"
    by (simp_all add: shared_def link_config_def shared_settings_def no_client_def no_settings_def)
  have comp: "mtp_compression ?c = server_compression s"
    using assms(1) by (auto simp: mtp_compression_def server_compression_def shared_def link_config_def
        shared_compression_def server_ok_def DefaultCompressionConfig_def Let_def)
  have "codec_peer (l_codec l) (arq_codec (arq (newMTPConn x fl now sock addr (UUID ?c) False (mtp_compression ?c))))"
    by (simp add: l(3) c(6) comp newMTPConn_def NewARQEngine_def NewPacketCodecWithConfig_def codec_peer_def Let_def)
  then show ?thesis using link parse c comp l(1,2)
    by (intro exI [of _ "GenerateMimicURL ?k"] exI [of _ ?c] conjI) simp_all
qed

theorem server_link_witness:
  "\<exists>link c l. generate_link (\<lambda>_. Some (default_server 443\<lparr>srv_Compression := DefaultCompressionConfig\<rparr>)) ''10.0.0.1''
        [''--host''] = Some link
     \<and> client_config (\<lambda>r. r) link None = Inr c \<and> Server c = ''10.0.0.1:443'' \<and> DNS c = []
     \<and> server_listener demo Some (\<lambda>_. Some 0) (default_server 443\<lparr>srv_Compression := DefaultCompressionConfig\<rparr>) = Inr l
     \<and> UUID c = l_secret l"
proof -
  let ?s = "default_server 443\<lparr>srv_Compression := DefaultCompressionConfig\<rparr>"
  obtain l where l: "server_listener demo Some (\<lambda>_. Some 0) ?s = Inr l"
    by (simp add: server_listener_def ListenWithConfig_def)
  have ok: "server_ok ?s"
    by (simp add: server_ok_def default_server_def domains_plain_def DefaultCompressionConfig_def int64_def)
  have h: "host_ok ''10.0.0.1''" by (simp add: host_ok_def is_alnum_def)
  have port: "itoa (Port ?s) = ''443''" by code_simp
  show ?thesis
    using server_link [OF ok, of "\<lambda>_. Some ?s" "''server.yaml''" "[''--host'']" "[]" "''10.0.0.1''" "''10.0.0.1''"
        "\<lambda>r. r" demo Some "\<lambda>_. Some 0" l None 0 0 "[]"] h l port
    by (auto simp: HasPrefix_def default_server_def)
qed

end
