(* ===== verification/Sessions.thy ===== *)
theory Sessions
  imports VirtualConn
begin

text \<open>
  The sessions of the server (\<^verbatim>\<open>cmd/server/main.go\<close>): the table by session id, what an accepted
  MTP connection does to it, and the accept loop of a yamux session. Connections and yamux sessions
  are numbers; writing to a connection is an argument, as in \<open>VirtualConn\<close>.
\<close>

section \<open>The table\<close>

record Session =
  s_ID :: string
  s_VirtualConn :: VirtualConn
  s_Yamux :: nat

record server_state =
  srv_sessions :: "(string, Session) gomap"
  yamux_next :: nat
  conns_seen :: "nat list"
  conns_closed :: "nat list"

definition server_init :: server_state where
  "server_init = \<lparr> srv_sessions = [], yamux_next = 0, conns_seen = [], conns_closed = [] \<rparr>"

text \<open>
  \<open>during\<close> and \<open>between\<close> are the writes of the yamux session that overlap a swap; the result of the
  swap is ignored. \<^verbatim>\<open>MaxClients\<close> is not looked at. \<open>None\<close>: a write has not returned.
\<close>

definition handleMTPConnection :: "'w conn_write \<Rightarrow> bytes list \<Rightarrow> bytes list \<Rightarrow> bool \<Rightarrow> nat \<Rightarrow> string
    \<Rightarrow> server_state \<Rightarrow> 'w \<Rightarrow> (server_state \<times> 'w) option" where
  "handleMTPConnection wr during between yamux_ok i sid srv w =
     (let srv = srv\<lparr>conns_seen := conns_seen srv @ [i]\<rparr>
      in case map_of (srv_sessions srv) sid of
           Some s \<Rightarrow>
             (case SwapConnectionSeamless wr during between i (s_VirtualConn s) w of
                None \<Rightarrow> None
              | Some (_, v, w) \<Rightarrow>
                  Some (srv\<lparr>srv_sessions := AList.update sid (s\<lparr>s_VirtualConn := v\<rparr>) (srv_sessions srv)\<rparr>, w))
         | None \<Rightarrow>
             if \<not> yamux_ok then Some (srv\<lparr>conns_closed := conns_closed srv @ [i]\<rparr>, w)
             else Some (srv\<lparr> srv_sessions := AList.update sid
                               \<lparr> s_ID = sid, s_VirtualConn = NewVirtualConn (Some i), s_Yamux = yamux_next srv \<rparr>
                               (srv_sessions srv),
                             yamux_next := yamux_next srv + 1 \<rparr>, w))"

definition removeSession :: "string \<Rightarrow> server_state \<Rightarrow> server_state" where
  "removeSession sid srv = srv\<lparr>srv_sessions := AList.delete sid (srv_sessions srv)\<rparr>"

text \<open>\<^verbatim>\<open>Accept\<close> of a yamux session fails: its loop removes the entry of its id and ends.\<close>

definition yamux_accept_failed :: "string \<Rightarrow> server_state \<Rightarrow> server_state" where
  "yamux_accept_failed sid srv = removeSession sid srv"

section \<open>Every order of events\<close>

inductive sess_step :: "'w conn_write \<Rightarrow> server_state \<times> 'w \<Rightarrow> server_state \<times> 'w \<Rightarrow> bool" for wr where
  sess_accept: "i \<notin> set (conns_seen srv) \<Longrightarrow> handleMTPConnection wr during between ok i sid srv w = Some t
    \<Longrightarrow> sess_step wr (srv, w) t"
| sess_dead: "sess_step wr (srv, w) (yamux_accept_failed sid srv, w)"
| sess_world: "sess_step wr (srv, w) (srv, w')"

inductive_cases sess_stepE: "sess_step wr s t"

text \<open>The connection a session reads from and writes to.\<close>

definition conn_of :: "Session \<Rightarrow> nat option" where
  "conn_of s = vc_conn (s_VirtualConn s)"

definition sessions_wf :: "server_state \<Rightarrow> bool" where
  "sessions_wf srv \<longleftrightarrow>
     distinct (map fst (srv_sessions srv))
     \<and> (\<forall>sid s. map_of (srv_sessions srv) sid = Some s \<longrightarrow>
          s_ID s = sid \<and> \<not> swapping (s_VirtualConn s) \<and> s_Yamux s < yamux_next srv
          \<and> (\<exists>i. conn_of s = Some i \<and> i \<in> set (conns_seen srv) \<and> i \<notin> set (conns_closed srv)))
     \<and> (\<forall>a b s t. map_of (srv_sessions srv) a = Some s \<and> map_of (srv_sessions srv) b = Some t
          \<and> (conn_of s = conn_of t \<or> s_Yamux s = s_Yamux t) \<longrightarrow> a = b)
     \<and> set (conns_closed srv) \<subseteq> set (conns_seen srv)"

lemma VC_Writes_frame:
  assumes "VC_Writes wr bs v w = Some (rs, v', w')"
  shows "vc_conn v' = vc_conn v \<and> swapping v' = swapping v"
  using assms
  by (induction bs arbitrary: v w rs)
    (fastforce simp: VC_Write_def buffer_write_def split: option.splits prod.splits if_splits)+

lemma Seamless_frame:
  assumes "SwapConnectionSeamless wr during between i v w = Some (e, v', w')"
  shows "vc_conn v' = Some i \<and> \<not> swapping v'"
  using assms
  by (auto simp: SwapConnectionSeamless_def swap_end_def swap_begin_def SwapConnection_def Let_def
      dest!: VC_Writes_frame split: option.splits prod.splits)

lemma handle_cases:
  assumes "handleMTPConnection wr during between ok i sid srv w = Some (srv', w')"
  shows "\<exists>s v. map_of (srv_sessions srv) sid = Some s \<and> vc_conn v = Some i \<and> \<not> swapping v
      \<and> srv' = srv\<lparr>conns_seen := conns_seen srv @ [i],
          srv_sessions := AList.update sid (s\<lparr>s_VirtualConn := v\<rparr>) (srv_sessions srv)\<rparr>
    \<or> map_of (srv_sessions srv) sid = None \<and> srv' = srv\<lparr>conns_seen := conns_seen srv @ [i],
          conns_closed := conns_closed srv @ [i]\<rparr>
    \<or> map_of (srv_sessions srv) sid = None \<and> srv' = srv\<lparr>conns_seen := conns_seen srv @ [i],
          srv_sessions := AList.update sid
            \<lparr> s_ID = sid, s_VirtualConn = NewVirtualConn (Some i), s_Yamux = yamux_next srv \<rparr> (srv_sessions srv),
          yamux_next := yamux_next srv + 1\<rparr>"
proof (cases "map_of (srv_sessions srv) sid")
  case None
  then show ?thesis using assms by (auto simp: handleMTPConnection_def Let_def split: if_splits)
next
  case (Some s)
  then obtain e v where v: "SwapConnectionSeamless wr during between i (s_VirtualConn s) w = Some (e, v, w')"
    "srv' = srv\<lparr>conns_seen := conns_seen srv @ [i],
          srv_sessions := AList.update sid (s\<lparr>s_VirtualConn := v\<rparr>) (srv_sessions srv)\<rparr>"
    using assms by (auto simp: handleMTPConnection_def Let_def split: option.splits)
  from Seamless_frame [OF v(1)] show ?thesis using Some v(2) by (intro exI [of _ s] exI [of _ v]) simp
qed

lemma session_facts:
  assumes "sessions_wf srv" "map_of (srv_sessions srv) a = Some s"
  shows "s_ID s = a" "\<not> swapping (s_VirtualConn s)" "s_Yamux s < yamux_next srv"
    "\<exists>i. conn_of s = Some i \<and> i \<in> set (conns_seen srv) \<and> i \<notin> set (conns_closed srv)"
  using assms unfolding sessions_wf_def by blast+

lemma session_unique:
  assumes "sessions_wf srv" "map_of (srv_sessions srv) a = Some s" "map_of (srv_sessions srv) b = Some t"
    and "conn_of s = conn_of t \<or> s_Yamux s = s_Yamux t"
  shows "a = b"
  using assms unfolding sessions_wf_def by blast

text \<open>Putting a session on a fresh connection into the table.\<close>

lemma table_put:
  assumes "sessions_wf srv" "i \<notin> set (conns_seen srv)"
    and "s_ID t = sid" "\<not> swapping (s_VirtualConn t)" "conn_of t = Some i" "s_Yamux t < n" "yamux_next srv \<le> n"
    and "\<forall>a s. map_of (srv_sessions srv) a = Some s \<and> s_Yamux s = s_Yamux t \<longrightarrow> a = sid"
  shows "sessions_wf (srv\<lparr>conns_seen := conns_seen srv @ [i],
    srv_sessions := AList.update sid t (srv_sessions srv), yamux_next := n\<rparr>)"
proof -
  have old: "s_ID s = a" "\<not> swapping (s_VirtualConn s)" "s_Yamux s < n"
    "\<exists>j. conn_of s = Some j \<and> j \<in> set (conns_seen srv) \<and> j \<notin> set (conns_closed srv)"
    if "map_of (srv_sessions srv) a = Some s" for a s
    using session_facts [OF assms(1) that] assms(7) by simp_all
  then have fresh: "conn_of s \<noteq> Some i" if "map_of (srv_sessions srv) a = Some s" for a s
    using assms(2) that by fastforce
  have seen: "i \<notin> set (conns_closed srv)" "set (conns_closed srv) \<subseteq> set (conns_seen srv)"
    "distinct (map fst (srv_sessions srv))"
    using assms(1,2) by (auto simp: sessions_wf_def)
  have uniq: "a = b" if "map_of (srv_sessions srv) a = Some s" "map_of (srv_sessions srv) b = Some u"
    "conn_of s = conn_of u \<or> s_Yamux s = s_Yamux u" for a b s u
    by (rule session_unique [OF assms(1) that])
  let ?m = "\<lambda>a. if a = sid then Some t else map_of (srv_sessions srv) a"
  have m: "map_of (AList.update sid t (srv_sessions srv)) = ?m"
    by (auto simp: update_conv fun_eq_iff)
  let ?S = "srv\<lparr>conns_seen := conns_seen srv @ [i],
    srv_sessions := AList.update sid t (srv_sessions srv), yamux_next := n\<rparr>"
  have S: "srv_sessions ?S = AList.update sid t (srv_sessions srv)" "yamux_next ?S = n"
    "conns_seen ?S = conns_seen srv @ [i]" "conns_closed ?S = conns_closed srv" by simp_all
  have "distinct (map fst (AList.update sid t (srv_sessions srv)))" by (simp add: distinct_update seen(3))
  moreover have "set (conns_closed srv) \<subseteq> set (conns_seen srv @ [i])" using seen(2) by auto
  moreover have "\<forall>a s. ?m a = Some s \<longrightarrow> s_ID s = a \<and> \<not> swapping (s_VirtualConn s) \<and> s_Yamux s < n
      \<and> (\<exists>j. conn_of s = Some j \<and> j \<in> set (conns_seen srv @ [i]) \<and> j \<notin> set (conns_closed srv))"
    using old assms(3-6) seen(1) by (auto split: if_splits) blast+
  moreover have "\<forall>a b s u. ?m a = Some s \<and> ?m b = Some u \<and> (conn_of s = conn_of u \<or> s_Yamux s = s_Yamux u) \<longrightarrow> a = b"
  proof (intro allI impI, elim conjE)
    fix a b s u
    assume h: "?m a = Some s" "?m b = Some u" "conn_of s = conn_of u \<or> s_Yamux s = s_Yamux u"
    have new: "c = sid" if "map_of (srv_sessions srv) c = Some r" "conn_of r = conn_of t \<or> s_Yamux r = s_Yamux t" for c r
      using fresh [OF that(1)] that assms(5,8) by metis
    consider "a = sid" "b = sid" | "a = sid" "b \<noteq> sid" | "a \<noteq> sid" "b = sid" | "a \<noteq> sid" "b \<noteq> sid" by blast
    then show "a = b"
    proof cases
      case 2
      then have "s = t" "map_of (srv_sessions srv) b = Some u" using h(1,2) by simp_all
      then show ?thesis using new [of b u] h(3) 2 by auto
    next
      case 3
      then have "u = t" "map_of (srv_sessions srv) a = Some s" using h(1,2) by simp_all
      then show ?thesis using new [of a s] h(3) 3 by auto
    next
      case 4
      then show ?thesis using uniq [of a s b u] h by simp
    qed simp
  qed
  ultimately show ?thesis unfolding sessions_wf_def S m by (intro conjI)
qed

lemma handle_wf:
  assumes "sessions_wf srv" "i \<notin> set (conns_seen srv)"
    and "handleMTPConnection wr during between ok i sid srv w = Some (srv', w')"
  shows "sessions_wf srv'"
  using handle_cases [OF assms(3)]
proof (elim exE disjE conjE)
  fix s v
  assume s: "map_of (srv_sessions srv) sid = Some s" and v: "vc_conn v = Some i" "\<not> swapping v"
    and srv': "srv' = srv\<lparr>conns_seen := conns_seen srv @ [i],
      srv_sessions := AList.update sid (s\<lparr>s_VirtualConn := v\<rparr>) (srv_sessions srv)\<rparr>"
  note session_facts(1,3) [OF assms(1) s]
  moreover have "\<forall>a u. map_of (srv_sessions srv) a = Some u \<and> s_Yamux u = s_Yamux s \<longrightarrow> a = sid"
    using session_unique [OF assms(1) _ s] by blast
  moreover note table_put [OF assms(1,2), of "s\<lparr>s_VirtualConn := v\<rparr>" sid "yamux_next srv"] v
  ultimately show ?thesis
    unfolding srv' by (simp add: conn_of_def)
next
  assume srv': "srv' = srv\<lparr>conns_seen := conns_seen srv @ [i], conns_closed := conns_closed srv @ [i]\<rparr>"
  then show ?thesis using assms(1,2) unfolding sessions_wf_def srv' by fastforce
next
  assume none: "map_of (srv_sessions srv) sid = None"
    and srv': "srv' = srv\<lparr>conns_seen := conns_seen srv @ [i], srv_sessions := AList.update sid
      \<lparr> s_ID = sid, s_VirtualConn = NewVirtualConn (Some i), s_Yamux = yamux_next srv \<rparr> (srv_sessions srv),
      yamux_next := yamux_next srv + 1\<rparr>"
  have "\<forall>a u. map_of (srv_sessions srv) a = Some u \<and> s_Yamux u = yamux_next srv \<longrightarrow> a = sid"
    using session_facts(3) [OF assms(1)] by fastforce
  from table_put [OF assms(1,2), of "\<lparr> s_ID = sid, s_VirtualConn = NewVirtualConn (Some i), s_Yamux = yamux_next srv \<rparr>"
      sid "yamux_next srv + 1"] this show ?thesis
    unfolding srv' by (simp add: conn_of_def NewVirtualConn_def)
qed

lemma remove_wf: "sessions_wf srv \<Longrightarrow> sessions_wf (removeSession sid srv)"
  unfolding sessions_wf_def removeSession_def
  by (simp add: amap_simps distinct_delete fun_upd_apply)

lemma sess_step_wf: "sessions_wf (fst s) \<Longrightarrow> sess_step wr s t \<Longrightarrow> sessions_wf (fst t)"
proof (erule sess_stepE)
  fix i srv during between ok sid w
  assume "sessions_wf (fst s)" "s = (srv, w)" "i \<notin> set (conns_seen srv)"
    "handleMTPConnection wr during between ok i sid srv w = Some t"
  then show "sessions_wf (fst t)" using handle_wf [of srv i wr during between ok sid w "fst t" "snd t"] by simp
qed (auto simp: remove_wf yamux_accept_failed_def)

lemma server_init_wf: "sessions_wf server_init"
  by (simp add: server_init_def sessions_wf_def)

interpretation server_sessions: invariant_system "\<lambda>s. fst s = server_init" "sess_step wr" "\<lambda>s. sessions_wf (fst s)"
  by unfold_locales (simp_all add: server_init_wf sess_step_wf)

text \<open>A connection that no session uses and that was not closed.\<close>

definition orphan :: "nat \<Rightarrow> server_state \<Rightarrow> bool" where
  "orphan j srv \<longleftrightarrow> j \<in> set (conns_seen srv) \<and> j \<notin> set (conns_closed srv)
     \<and> (\<forall>a s. map_of (srv_sessions srv) a = Some s \<longrightarrow> conn_of s \<noteq> Some j)"

lemma orphan_step:
  assumes "orphan j (fst s)" "sess_step wr s t"
  shows "orphan j (fst t)"
  using assms(2)
proof (rule sess_stepE)
  fix i srv during between ok sid w
  assume h: "s = (srv, w)" "i \<notin> set (conns_seen srv)" "handleMTPConnection wr during between ok i sid srv w = Some t"
  obtain srv' w' where t: "t = (srv', w')" by fastforce
  have o: "orphan j srv" "j \<noteq> i" using assms(1) h(1,2) by (auto simp: orphan_def)
  show ?thesis
    using handle_cases [OF h(3) [unfolded t]] o unfolding t fst_conv
    by (elim exE disjE conjE) (auto simp: orphan_def amap_simps conn_of_def NewVirtualConn_def)
next
  fix srv w sid
  assume "s = (srv, w)" "t = (yamux_accept_failed sid srv, w)"
  then show ?thesis using assms(1)
    by (auto simp: orphan_def yamux_accept_failed_def removeSession_def amap_simps)
qed (use assms(1) in simp)

lemma orphan_forever: "(sess_step wr)\<^sup>*\<^sup>* s t \<Longrightarrow> orphan j (fst s) \<Longrightarrow> orphan j (fst t)"
  by (induction rule: rtranclp_induct) (auto intro: orphan_step)

lemma roaming:
  assumes "sessions_wf srv" "i \<notin> set (conns_seen srv)" "map_of (srv_sessions srv) sid = Some s"
  shows "handleMTPConnection wr [] [] ok i sid srv w = Some (srv\<lparr>conns_seen := conns_seen srv @ [i],
      srv_sessions := AList.update sid (s\<lparr>s_VirtualConn := NewVirtualConn (Some i)\<rparr>) (srv_sessions srv)\<rparr>, w)"
  using assms(3)
  by (cases "s_VirtualConn s") (simp add: handleMTPConnection_def SwapConnectionSeamless_def swap_begin_def
      swap_end_def SwapConnection_def NewVirtualConn_def Let_def)

section \<open>Properties\<close>



end
