(* ===== verification/Programs.thy ===== *)
theory Programs
  imports Command Client Sessions
begin

text \<open>
  The two programs as processes: \<^verbatim>\<open>main\<close> of \<^verbatim>\<open>cmd/client\<close> from its arguments over
  \<^verbatim>\<open>Start\<close> and \<^verbatim>\<open>StartProxies\<close> to the signal and \<^verbatim>\<open>Stop\<close>; \<^verbatim>\<open>main\<close> of \<^verbatim>\<open>cmd/server\<close> with its
  commands and its accept loop; and the version they print (\<^verbatim>\<open>pkg/version\<close>). What loading a file, the link, the
  dial and yamux answer are arguments.
\<close>

section \<open>The version\<close>

text \<open>\<open>settings\<close>: the build information of the binary, when it has any.\<close>

definition build_info :: "string \<Rightarrow> (string \<times> string) list option \<Rightarrow> string" where
  "build_info version settings =
     (case settings of
        Some kvs \<Rightarrow>
          (case find (\<lambda>(key, _). (key = ''vcs.revision'' \<or> key = ''vcs.time'') \<and> version = ''dev'') kvs of
             Some (_, v) \<Rightarrow> v
           | None \<Rightarrow> ''development'')
      | None \<Rightarrow> ''development'')"

definition GetVersion :: "string \<Rightarrow> string" where
  "GetVersion version = (if version = ''dev'' then ''dev version'' else version)"

definition GetFullVersion :: "string \<Rightarrow> string" where
  "GetFullVersion version = (if version = ''dev'' then ''dev version'' else version)"

section \<open>The client\<close>

datatype client_exit = BadLink url_error | StartFailed client_error | ProxiesFailed client_error | Crashed

text \<open>\<^verbatim>\<open>main\<close> up to the wait for a signal; every \<^verbatim>\<open>log.Fatalf\<close> before it ends the process.\<close>

definition client_boot :: "externals \<Rightarrow> (rat \<Rightarrow> rat) \<Rightarrow> client_env \<Rightarrow> string \<Rightarrow> ClientConfig option
    \<Rightarrow> client_exit + client_system" where
  "client_boot x fl env link file =
     (case client_config fl link file of
        Inl e \<Rightarrow> Inl (BadLink e)
      | Inr c \<Rightarrow>
          (case Start x fl env (client_init (Some c)) of
             (Inl Panic, _) \<Rightarrow> Inl Crashed
           | (Inl (Err e), _) \<Rightarrow> Inl (StartFailed e)
           | (Inr _, s) \<Rightarrow>
               (case StartProxies s of
                  (Some e, _) \<Rightarrow> Inl (ProxiesFailed e)
                | (None, s) \<Rightarrow> Inr s)))"

definition proxy_addr :: "ProxyConfig \<Rightarrow> string" where
  "proxy_addr p = ''0.0.0.0:'' @ itoa (proxy_port p)"

definition proxy_known :: "ProxyConfig \<Rightarrow> bool" where
  "proxy_known p \<longleftrightarrow> proxy_type p = ''socks5'' \<or> proxy_type p = ''http''"

section \<open>The server\<close>

datatype server_run =
  PrintUUID string | PrintLink string | BadConfig | ListenFailed listen_error | Listening ServerConfig Listener

text \<open>\<open>args\<close> are the arguments after the program's name.\<close>

definition server_main :: "externals \<Rightarrow> (string \<Rightarrow> string option) \<Rightarrow> (string \<Rightarrow> nat option) \<Rightarrow> (string \<Rightarrow> ServerConfig option)
    \<Rightarrow> string \<Rightarrow> string \<Rightarrow> string list \<Rightarrow> server_run" where
  "server_main x resolve bind_udp file new_uuid detected args =
     (if args \<noteq> [] \<and> hd args = ''generate-uuid'' then PrintUUID new_uuid
      else if args \<noteq> [] \<and> hd args = ''generate-link'' then
        (case generate_link file detected (tl args) of None \<Rightarrow> BadConfig | Some l \<Rightarrow> PrintLink l)
      else
        (let s = server_config file args
         in case server_listener x resolve bind_udp s of
              Inl e \<Rightarrow> ListenFailed e
            | Inr l \<Rightarrow> Listening s l))"

text \<open>The accept loop: each connection goes to \<^verbatim>\<open>handleMTPConnection\<close>, the first error ends the loop. A result is
  the connection with its session id and whether yamux starts on it; no write overlaps a swap here.\<close>

fun server_accepts :: "'w conn_write \<Rightarrow> (nat \<times> string \<times> bool) option list \<Rightarrow> server_state \<Rightarrow> 'w
    \<Rightarrow> (server_state \<times> 'w) option" where
  "server_accepts wr [] srv w = Some (srv, w)"
| "server_accepts wr (None # rs) srv w = Some (srv, w)"
| "server_accepts wr (Some (i, sid, ok) # rs) srv w =
     (case handleMTPConnection wr [] [] ok i sid srv w of
        None \<Rightarrow> None
      | Some (srv, w) \<Rightarrow> server_accepts wr rs srv w)"


section \<open>Lemmas\<close>

lemma start_proxies_ok:
  "start_proxies ps s = (None, t) \<Longrightarrow> listening t = listening s @ map proxy_addr (filter proxy_known ps)
    \<and> status (client t) = status (client s)"
proof (induction ps arbitrary: s)
  case (Cons p ps)
  obtain q where q: "start_proxy p s = (None, q)" "start_proxies ps q = (None, t)"
    using Cons.prems by (auto split: prod.splits option.splits)
  then have "listening q = listening s @ (if proxy_known p then [proxy_addr p] else []) \<and> status (client q) = status (client s)"
    by (auto simp: start_proxy_def proxy_known_def proxy_addr_def Let_def split: if_splits)
  then show ?case using Cons.IH [OF q(2)] by simp
qed simp

lemma boot_wf:
  assumes "client_boot x fl env link file = Inr s"
  shows "\<exists>c. client_config fl link file = Inr c \<and> reachable (\<lambda>s. s = client_init (Some c)) (client_step x fl) s
    \<and> status (client s) = StatusConnected \<and> listening s = map proxy_addr (filter proxy_known (Proxies c))"
proof -
  obtain c s1 where c: "client_config fl link file = Inr c" "Start x fl env (client_init (Some c)) = (Inr (), s1)"
    "StartProxies s1 = (None, s)"
    using assms by (auto simp: client_boot_def split: sum.splits prod.splits failure.splits option.splits)
  have r0: "reachable (\<lambda>s. s = client_init (Some c)) (client_step x fl) (client_init (Some c))" by (rule reach_start) (rule refl)
  have "client_step x fl (client_init (Some c)) s1" using step_start [of x fl "client_init (Some c)" env] c(2) by simp
  with r0 have r1: "reachable (\<lambda>s. s = client_init (Some c)) (client_step x fl) s1" by (rule reach_step)
  have "client_step x fl s1 s" using step_proxies [of x fl s1] c(3) by simp
  with r1 have r: "reachable (\<lambda>s. s = client_init (Some c)) (client_step x fl) s" by (rule reach_step)
  have t: "tun_wf (c_tun (client (client_init (Some c))))" "status (client (client_init (Some c))) \<noteq> StatusConnected"
    using client.reachable_inv [OF r0] by (simp_all add: client_wf_simps) (simp add: client_init_def NewClient_def)
  have s1: "status (client s1) = StatusConnected" "listening s1 = []" "proxies (client s1) = []" "cfg (client s1) = c"
    using Start_cases [OF c(2) t(2,1)] by (auto simp: client_init_def NewClient_def)
  then show ?thesis
    using start_proxies_ok [of "Proxies c" s1 s] c r by (simp add: StartProxies_def)
qed

lemma client_steps_reachable:
  "(client_step x fl)\<^sup>*\<^sup>* s t \<Longrightarrow> reachable start (client_step x fl) s \<Longrightarrow> reachable start (client_step x fl) t"
  by (induction rule: rtranclp_induct) (auto intro: reach_step)


definition demo_file :: ClientConfig where
  "demo_file = demo_tcp_client\<lparr>Proxies := Proxies demo_config\<rparr>"

lemma demo_boot:
  "\<exists>s. client_boot demo (\<lambda>r. r) (demo_client_env (Some 3)) [] (Some demo_file) = Inr s"
  by (simp add: client_boot_def client_config_def demo_file_def demo_config_def StartProxies_def start_proxy_def start_defs
      restart_defs demo_os_def findTun2socksBinary_def rotation_delay_def switch_range_def no_settings_def second_def
      Let_def itoa_def digits.simps digit_char_def)

lemma demo_addrs: "map proxy_addr (filter proxy_known (Proxies demo_file)) = [''0.0.0.0:1080'', ''0.0.0.0:1081'']"
  by code_simp


section \<open>The accept loop\<close>

fun accepted_until :: "'a option list \<Rightarrow> 'a list" where
  "accepted_until (Some a # rs) = a # accepted_until rs"
| "accepted_until _ = []"

lemma handle_keys:
  assumes "handleMTPConnection wr during between ok i sid srv w = Some (srv', w')"
  shows "dom (map_of (srv_sessions srv')) = dom (map_of (srv_sessions srv)) \<union> (if ok then {sid} else {})
    \<and> conns_seen srv' = conns_seen srv @ [i]"
  using assms
  by (auto simp: handleMTPConnection_def Let_def update_conv' split: if_splits option.splits prod.splits)

text \<open>After any accepts the server holds exactly one session for each id that yamux started on, however many
  connections brought it, and has looked at no connection after the first error.\<close>

lemma server_accepts_sessions:
  "server_accepts wr rs srv w = Some (srv', w') \<Longrightarrow>
    dom (map_of (srv_sessions srv')) = dom (map_of (srv_sessions srv)) \<union> {sid. \<exists>i. (i, sid, True) \<in> set (accepted_until rs)}
    \<and> conns_seen srv' = conns_seen srv @ map fst (accepted_until rs)"
proof (induction wr rs srv w rule: server_accepts.induct)
  case (3 wr i sid ok rs srv w)
  obtain q v where q: "handleMTPConnection wr [] [] ok i sid srv w = Some (q, v)" "server_accepts wr rs q v = Some (srv', w')"
    using "3.prems" by (auto split: option.splits)
  show ?case using "3.IH" [OF q(1) refl q(2)] handle_keys [OF q(1)] by auto
qed auto

end
