(* ===== verification/Serving.thy ===== *)
theory Serving
  imports Socks
begin

text \<open>
  The life of a local proxy server (\<^verbatim>\<open>pkg/proxy/socks5.go\<close>, and in the same words \<^verbatim>\<open>pkg/proxy/http.go\<close>): bind,
  the accept loop, the connections being handled, the counters, and \<^verbatim>\<open>Close\<close>, which closes the
  channel before the listener.
\<close>

record proxy_server =
  ps_stats :: Stats
  ps_listening :: bool
  ps_closeCh :: bool \<comment> \<open>closed\<close>
  ps_serving :: bool \<comment> \<open>\<^verbatim>\<open>Serve\<close> has not returned\<close>
  ps_open :: "nat list" \<comment> \<open>connections being handled\<close>

definition new_stats :: Stats where
  "new_stats = \<lparr> BytesUp = 0, BytesDown = 0, ActiveConns = 0, TotalConns = 0 \<rparr>"

definition new_proxy_server :: "bool \<Rightarrow> proxy_server option" where
  "new_proxy_server bind_ok =
     (if bind_ok then Some \<lparr> ps_stats = new_stats, ps_listening = True, ps_closeCh = False, ps_serving = True, ps_open = [] \<rparr>
      else None)"

text \<open>What one \<^verbatim>\<open>Accept\<close> leads to: a connection, or an error.\<close>

definition serve_accepted :: "nat option \<Rightarrow> proxy_server \<Rightarrow> proxy_server" where
  "serve_accepted r s =
     (case r of
        None \<Rightarrow> if ps_closeCh s then s\<lparr>ps_serving := False\<rparr> else s
      | Some c \<Rightarrow> s\<lparr> ps_stats := accepted (ps_stats s), ps_open := ps_open s @ [c] \<rparr>)"

definition handler_ends :: "nat \<Rightarrow> proxy_server \<Rightarrow> proxy_server" where
  "handler_ends c s = s\<lparr> ps_stats := finished (ps_stats s), ps_open := remove1 c (ps_open s) \<rparr>"

text \<open>The two halves of \<^verbatim>\<open>Close\<close>; closing a closed listener is an error and changes nothing.\<close>

definition close_channel :: "proxy_server \<Rightarrow> proxy_server" where
  "close_channel s = s\<lparr>ps_closeCh := True\<rparr>"

definition close_listener :: "proxy_server \<Rightarrow> bool \<times> proxy_server" where
  "close_listener s = (ps_listening s, s\<lparr>ps_listening := False\<rparr>)"

definition proxy_Close :: "proxy_server \<Rightarrow> bool \<times> proxy_server" where
  "proxy_Close s = close_listener (close_channel s)"

definition GetStats :: "proxy_server \<Rightarrow> Stats" where
  "GetStats s = ps_stats s"

definition count_up :: "int \<Rightarrow> proxy_server \<Rightarrow> proxy_server" where
  "count_up n s = s\<lparr>ps_stats := (ps_stats s)\<lparr>BytesUp := tracking_Write n (BytesUp (ps_stats s))\<rparr>\<rparr>"

definition count_down :: "int \<Rightarrow> proxy_server \<Rightarrow> proxy_server" where
  "count_down n s = s\<lparr>ps_stats := (ps_stats s)\<lparr>BytesDown := tracking_Write n (BytesDown (ps_stats s))\<rparr>\<rparr>"

text \<open>In every order; an accept can also fail while nobody has closed anything.\<close>

inductive serve_step :: "proxy_server \<Rightarrow> proxy_server \<Rightarrow> bool" where
  serve_conn: "ps_serving s \<Longrightarrow> ps_listening s \<Longrightarrow> serve_step s (serve_accepted (Some c) s)"
| serve_error: "ps_serving s \<Longrightarrow> serve_step s (serve_accepted None s)"
| serve_end: "c \<in> set (ps_open s) \<Longrightarrow> serve_step s (handler_ends c s)"
| serve_up: "c \<in> set (ps_open s) \<Longrightarrow> serve_step s (count_up n s)"
| serve_down: "c \<in> set (ps_open s) \<Longrightarrow> serve_step s (count_down n s)"
| serve_channel: "serve_step s (close_channel s)"
| serve_listener: "ps_closeCh s \<Longrightarrow> serve_step s (snd (close_listener s))"

inductive_cases serve_stepE: "serve_step s t"

definition serving_inv :: "proxy_server \<Rightarrow> bool" where
  "serving_inv s \<longleftrightarrow> ActiveConns (ps_stats s) = int (length (ps_open s)) \<and> ActiveConns (ps_stats s) \<le> TotalConns (ps_stats s)
     \<and> 0 \<le> BytesUp (ps_stats s) \<and> 0 \<le> BytesDown (ps_stats s)
     \<and> (\<not> ps_listening s \<longrightarrow> ps_closeCh s) \<and> (\<not> ps_serving s \<longrightarrow> ps_closeCh s)"

lemmas serve_defs = serve_accepted_def handler_ends_def close_channel_def close_listener_def count_up_def count_down_def
  accepted_def finished_def tracking_Write_def

lemma serving_inv_step: "serving_inv s \<Longrightarrow> serve_step s t \<Longrightarrow> serving_inv t"
  by (erule serve_stepE)
    (auto simp: serving_inv_def serve_defs length_remove1 of_nat_diff Suc_leI dest: length_pos_if_in_set)

interpretation serving: invariant_system "\<lambda>s. new_proxy_server True = Some s" serve_step serving_inv
proof
  show "new_proxy_server True = Some s \<Longrightarrow> serving_inv s" for s
    by (auto simp: new_proxy_server_def serving_inv_def new_stats_def)
qed (rule serving_inv_step)

lemma serve_run:
  "serve_step\<^sup>*\<^sup>* s t \<Longrightarrow> (ps_closeCh s \<longrightarrow> ps_closeCh t) \<and> (\<not> ps_listening s \<longrightarrow> \<not> ps_listening t)
    \<and> (\<not> ps_listening s \<longrightarrow> TotalConns (ps_stats t) = TotalConns (ps_stats s) \<and> set (ps_open t) \<subseteq> set (ps_open s))
    \<and> TotalConns (ps_stats s) \<le> TotalConns (ps_stats t)"
proof (induction rule: rtranclp_induct)
  case (step q t)
  have "(ps_closeCh q \<longrightarrow> ps_closeCh t) \<and> (\<not> ps_listening q \<longrightarrow> \<not> ps_listening t)
    \<and> (\<not> ps_listening q \<longrightarrow> TotalConns (ps_stats t) = TotalConns (ps_stats q) \<and> set (ps_open t) \<subseteq> set (ps_open q))
    \<and> TotalConns (ps_stats q) \<le> TotalConns (ps_stats t)"
    using step(2) by (cases rule: serve_step.cases) (auto simp: serve_defs dest: set_remove1_subset [THEN subsetD])
  then show ?case using step(3) by auto
qed simp

text \<open>C27. A local proxy server in every order of accepts, errors, ends, writes and closes. The active connections
  are exactly those being handled and never more than all accepted; \<^verbatim>\<open>Serve\<close> ends only after a \<^verbatim>\<open>Close\<close>, and
  at the first accept that fails after it, while an accept that fails before changes nothing, so that one that
  keeps failing is retried for ever; and after \<^verbatim>\<open>Close\<close> no connection is ever accepted again, those being handled
  go on, and closing again changes nothing.\<close>

theorem proxy_serving:
  assumes "reachable (\<lambda>s. new_proxy_server True = Some s) serve_step s"
  shows "ActiveConns (GetStats s) = int (length (ps_open s)) \<and> ActiveConns (GetStats s) \<le> TotalConns (GetStats s)
    \<and> (\<not> ps_serving s \<longrightarrow> ps_closeCh s) \<and> (\<not> ps_closeCh s \<longrightarrow> serve_accepted None s = s)
    \<and> \<not> ps_serving (serve_accepted None (snd (proxy_Close s)))
    \<and> ps_open (snd (proxy_Close s)) = ps_open s \<and> proxy_Close (snd (proxy_Close s)) = (False, snd (proxy_Close s))
    \<and> (\<forall>t. serve_step\<^sup>*\<^sup>* (snd (proxy_Close s)) t \<longrightarrow>
        TotalConns (GetStats t) = TotalConns (GetStats s) \<and> set (ps_open t) \<subseteq> set (ps_open s))"
proof -
  have "serving_inv s" using serving.reachable_inv [OF assms] .
  moreover have "TotalConns (GetStats t) = TotalConns (GetStats s) \<and> set (ps_open t) \<subseteq> set (ps_open s)"
    if "serve_step\<^sup>*\<^sup>* (snd (proxy_Close s)) t" for t
    using serve_run [OF that] by (simp add: proxy_Close_def close_listener_def close_channel_def GetStats_def)
  ultimately show ?thesis
    by (auto simp: serving_inv_def GetStats_def proxy_Close_def serve_defs)
qed

theorem proxy_serving_witness:
  "let s = serve_accepted (Some 4) (the (new_proxy_server True))
   in ActiveConns (GetStats s) = 1 \<and> ps_open (snd (proxy_Close s)) = [4] \<and> serve_accepted None s = s
     \<and> \<not> ps_serving (serve_accepted None (snd (proxy_Close s)))"
proof -
  have "reachable (\<lambda>s. new_proxy_server True = Some s) serve_step (serve_accepted (Some 4) (the (new_proxy_server True)))"
    by (rule reach_step [where next_state = serve_step, OF reach_start serve_conn]) (simp_all add: new_proxy_server_def)
  from proxy_serving [OF this] show ?thesis by (simp add: Let_def new_proxy_server_def serve_accepted_def)
qed

end
