(* ===== verification/Spec2Isabelle.thy ===== *)
theory Spec2Isabelle
  imports Http Presets Resolver Tls WebSocket Dialer Proxied Programs Serving
begin

text \<open>
  A verification development of Mimic-Protocol: the transport MTP, what runs over it, and the programs
  around it. Names of types, fields and functions are those of the source; a prefix or suffix is added
  where a name clashes.

  \<^bold>\<open>The program.\<close> A client program opens an MTP connection, a reliable byte stream over UDP whose packets
  look like QUIC, runs a yamux session over it and offers local SOCKS5 and HTTP proxies; each proxied
  connection is a yamux stream that the server connects to its target. Between yamux and MTP stands a
  virtual connection, which the client's transport manager moves from one MTP connection or domain to another
  and the server moves when a session id appears again. Routing rules decide which targets are
  blocked, dialled directly or by the server. Configurations come from files or from share links.

  \<^bold>\<open>The theories\<close>, each after those it uses.
  \<^item> \<open>Prelude\<close>: byte slices, big-endian access, Go maps, failures, floats, durations; the contracts
    \<open>invariant_system\<close> (reachable states keep an invariant) and \<open>simulation\<close>. \<open>Externals\<close>: the code the
    repository calls and does not contain (SHA-256, HMAC, AEAD, zstd, Reed-Solomon) as a record of functions, its
    documented behaviour as predicates, and an instance on which witnesses evaluate.
  \<^item> \<open>Compression\<close> (\<^verbatim>\<open>pkg/compression\<close>), \<open>Packet\<close> (\<^verbatim>\<open>pkg/mtp/packet.go\<close>): the packet codec. Shown: decoding
    inverts encoding between peers, what decodes was sealed under the key, no input panics except oversize
    payloads, the cases that are lost (short initial packets, one-sided rotation).
  \<^item> \<open>Pacer\<close>, \<open>Fec\<close>, \<open>Arq\<close> (\<^verbatim>\<open>pacer.go\<close>, \<^verbatim>\<open>fec.go\<close>, \<^verbatim>\<open>arq.go\<close>): the token bucket, forward error
    correction and the retransmission engine; its goroutines and timers are steps of their own. Shown:
    invariants over every interleaving, in-order delivery without duplicates as a simulation of a set of received
    numbers, recovery of aligned groups, the give-up after eight retransmissions.
  \<^item> \<open>Conn\<close>, \<open>Listener\<close> (\<^verbatim>\<open>conn.go\<close>, \<^verbatim>\<open>listener.go\<close>): connections with their handshake, segmentation,
    reading and migration; the listener's tables over a store of connections. Shown: \<^verbatim>\<open>Write\<close> and \<^verbatim>\<open>Read\<close> as
    stream operations, invariants of both, what a handshake, a probe and a migration lead to.
  \<^item> \<open>VirtualConn\<close>, \<open>Manager\<close> (\<^verbatim>\<open>pkg/transport\<close>): swapping the connection under its writers, and rotation.
    Any connection type that writes whole chunks can be beneath (locale \<open>writer\<close>); MTP connections are its
    interpretation. \<open>Sessions\<close>: the server's session table over virtual connections.
  \<^item> \<open>GoText\<close>, \<open>Duration\<close>, \<open>Config\<close>, \<open>Url\<close>, \<open>Presets\<close>: the parts of \<^verbatim>\<open>strings\<close>, \<^verbatim>\<open>net\<close>, \<^verbatim>\<open>net/netip\<close>, \<^verbatim>\<open>time\<close> and
    \<^verbatim>\<open>net/url\<close> that are used; durations and configuration files; share links; traffic presets and the
    generator (\<^verbatim>\<open>pkg/config\<close>, \<^verbatim>\<open>pkg/presets\<close>, \<^verbatim>\<open>pkg/mimic\<close>). Shown: round trips of durations and links,
    well-formedness of loaded configurations, bounds of the generated traffic.
  \<^item> \<open>Routing\<close> (\<^verbatim>\<open>pkg/routing\<close>), \<open>Resolver\<close>, \<open>Dialer\<close> (\<^verbatim>\<open>pkg/network\<close>): the router against a reference reading of
    the rules, the DNS cache against one without clean-up, the protected dialler over any history.
  \<^item> \<open>Socks\<close>, \<open>Server\<close>, \<open>Http\<close> (\<^verbatim>\<open>pkg/proxy\<close> and the streams of \<^verbatim>\<open>cmd/server/main.go\<close>): a handler is a function from
    what client, dialler and stream do to the list of its actions. Shown: a request is routed and answered
    as the router says, from the client's bytes to the target the server dials.
  \<^item> \<open>Tunnel\<close> (\<^verbatim>\<open>pkg/tunnel\<close>), \<open>Client\<close> (\<^verbatim>\<open>pkg/client\<close>): the life of the tunnel process; the client's
    methods and loops as one step relation. Shown: invariants, and what reconnecting and rotating lead to.
  \<^item> \<open>Tls\<close> (\<^verbatim>\<open>pkg/protocol\<close>), \<open>WebSocket\<close> (\<^verbatim>\<open>pkg/transport/websocket.go\<close>): two further connection types;
    \<^verbatim>\<open>io.ReadFull\<close> is proved over any reader (locale \<open>byte_reader\<close>).
  \<^item> \<open>Relay\<close>, \<open>Proxied\<close>, \<open>Serving\<close>: the two copying goroutines at the end of \<open>Socks\<close>, \<open>Http\<close> and \<open>Server\<close>, which differ
    in what they close (locale \<open>relay_ends\<close>, interpreted on all three); a browser's connection over proxy, stream and server;
    the accept loop and the closing of a proxy server. Shown: what arrives, whose end is passed on, and when they stop.
  \<^item> \<open>Command\<close>, \<open>Programs\<close>: what the two programs make of flags, files and links; the processes from start to
    signal, and the version (\<^verbatim>\<open>pkg/version\<close>). This theory: properties from one end to the other.

  \<^bold>\<open>Conventions.\<close> A function that can return an error gives a sum, its left side the error or a run-time
  panic; \<open>None\<close> is a panic, or a call still waiting, as its definition says. State is a record passed and returned;
  a section under one mutex is one step, and goroutines interleave at those boundaries. Fixed-width
  integers that can wrap are words; durations and counters that cannot in the life of a program are integers.
  Clocks, random numbers, answers of the network, choices of a select with several ready
  cases and the iteration order of maps are arguments, so that theorems hold for all of them. A float operation
  rounds with an arbitrary monotone function exact on integers up to \<open>2 ^ 53\<close>.

  \<^bold>\<open>Bounds and fuel.\<close> Loops are structural or run over the list of what the environment answers; a polling loop whose
  list ends is a call that is still waiting, and the theorems about it say which lists are long enough.
  \<open>io_ReadFull\<close> takes a number of reads: as many as bytes are wanted suffice, since a read gives at least one byte.
  The handshake and the migration try five times, a packet is sent again eight times, queues have their sizes of the source
  (4096 delivered packets, 256 connections), all as in the code.

  \<^bold>\<open>Not modelled.\<close> The cryptography, compression and coding libraries, yamux, uTLS and \<^verbatim>\<open>crypto/tls\<close>, Gorilla's
  WebSocket, \<^verbatim>\<open>net/http\<close> and YAML parsing are not part of the repository or of its own logic and are arguments. Logging
  and printing, some accessors that copy a field (addresses, deadlines), and the two
  interface files \<^verbatim>\<open>transport.go\<close> and \<^verbatim>\<open>protocol.go\<close> have no behaviour to verify. Deadlines of sockets decide only
  which reads time out. Data races that break a single memory access are outside the model, which interleaves at mutexes
  and channel operations.
\<close>

section \<open>End to end\<close>

lemma Write_chunks:
  assumes "aead_correct x" "zstd_correct x" "rs_valid x" "rs_sizes x"
    and "\<forall>i. nonces_ok (envs i)" "conn_ready x k c" "Write x fl envs now b c = Some (n, e, c')"
  shows "\<exists>frames ws. concat frames = take n b \<and> length frames \<le> (length b + 1199) div 1200
    \<and> written c' = written c @ addressed c ws \<and> stream_frames x k (sendSeq (arq c)) frames ws
    \<and> n \<le> length b"
proof (cases "write_loop x fl envs 0 b 0 c = Some (n, e, c')")
  case True
  obtain m where m: "n = length (concat (take m (segments b)))"
    "wrote x k (take m (segments b)) (e = None) c c'"
    using write_loop_frames [OF assms(1-4) _ True assms(6)] assms(5) by auto
  have "concat (take m (segments b)) @ concat (drop m (segments b)) = b"
    using segments_facts [of b] by (metis append_take_drop_id concat_append)
  then have "concat (take m (segments b)) = take n b" "n \<le> length b"
    using m(1) by (metis append_eq_conv_conj, metis le_add1 length_append)
  moreover have "length (take m (segments b)) \<le> (length b + 1199) div 1200"
    using segments_facts [of b] by simp
  ultimately show ?thesis using m(2) unfolding wrote_def by blast
next
  case False
  then have "n = 0" "c' = c" using assms(7) by (auto simp: Write_def split: if_splits)
  then show ?thesis by (auto simp: addressed_def intro!: exI [of _ "[]"])
qed

text \<open>C1. One end to the other. What a client writes into a fresh connection (up to the delivery
  channel of 4096 packets) and the datagrams this produces, delivered to the server's connection
  in any order, any number of times, some of them not at all, mixed with datagrams no peer
  accepts and interleaved with reads of any size: the bytes the server has read, with those that
  wait, are at every moment a prefix of the bytes written; when every datagram has arrived once
  they are all of the bytes that \<^verbatim>\<open>Write\<close> counted.\<close>

theorem end_to_end:
  assumes "aead_correct x" "zstd_correct x" "digests_correct x" "rs_valid x" "rs_sizes x" "rs_new x 8 2"
    and "float_rounding fl" "\<forall>i. nonces_ok (envs i)"
    and "server = (newMTPConn x fl now1 sock addr secret True compression)\<lparr>sessionID := sid, workers := True\<rparr>"
    and "conn_ready x (arq_codec (arq server)) peer" "sendSeq (arq peer) = 0"
    and "Write x fl envs now2 b peer = Some (n, e, peer')" "length b \<le> 4096 * 1200"
    and "frames = map (snd \<circ> snd) (drop (length (written peer)) (written peer'))"
    and "\<forall>env w. Datagram env w \<in> set es \<longrightarrow> w \<in> set frames \<or> not_ours x (arq_codec (arq server)) w"
    and "foldl (conn_event_step x fl) (server, []) es = (s, got)"
  shows "prefix (got @ pending s) (take n b)
    \<and> ((\<forall>w\<in>set frames. \<exists>env. Datagram env w \<in> set es) \<longrightarrow> got @ pending s = take n b)"
proof -
  let ?k = "arq_codec (arq server)"
  obtain chunks ws where c: "concat chunks = take n b" "length chunks \<le> (length b + 1199) div 1200"
    "written peer' = written peer @ addressed peer ws" "stream_frames x ?k 0 chunks ws"
    using Write_chunks [OF assms(1,2,4,5,8,10,12)] assms(11) by auto
  have ws: "frames = ws" using assms(14) c(3) by (simp add: addressed_def comp_def)
  have len: "length chunks \<le> 4096" using c(2) assms(13) by simp
  have ok: "list_all (event_ok x ?k chunks) es"
  proof (unfold list_all_iff, rule ballI)
    fix ev
    assume ev: "ev \<in> set es"
    show "event_ok x ?k chunks ev"
    proof (cases ev)
      case (Datagram env w)
      then have "w \<in> set ws \<or> not_ours x ?k w" using assms(15) ev ws by blast
      then show ?thesis using c(4) Datagram by (auto simp: event_ok_def frame_ok_def stream_frames_def)
    qed (simp add: event_ok_def)
  qed
  note inv0 = new_conn_stream_inv [OF assms(7,4,3,6) len assms(9)]
  have run: "stream_inv x fl ?k chunks (s, got)"
    "\<forall>env w i. Datagram env w \<in> set es \<and> i < length chunks \<and> data_frame x ?k (of_nat i) (chunks ! i) w \<longrightarrow>
       i \<in> received_set (arq s)"
    using events_keep [OF assms(7,4) inv0 ok] unfolding assms(16) fst_conv by blast+
  obtain m where m: "m \<le> length chunks" "got @ pending s = concat (take m chunks)"
    "received_set (arq s) = {..<length chunks} \<longrightarrow> m = length chunks"
    using stream_inv_result [OF run(1)] by blast
  have "prefix (concat (take m chunks)) (concat chunks)"
    by (metis append_take_drop_id concat_append prefixI)
  moreover have "m = length chunks" if all: "\<forall>w\<in>set frames. \<exists>env. Datagram env w \<in> set es"
  proof -
    have "i \<in> received_set (arq s)" if h: "i < length chunks" for i
    proof -
      obtain w where "w \<in> set ws" "data_frame x ?k (0 + of_nat i) (chunks ! i) w"
        using c(4) h by (auto simp: stream_frames_def)
      then show ?thesis using all run(2) h ws by auto
    qed
    then have "received_set (arq s) = {..<length chunks}"
      using run(1) by (auto simp: stream_inv_def)
    then show ?thesis using m(3) by simp
  qed
  ultimately show ?thesis using m(2) c(1) by auto
qed

theorem end_to_end_witness:
  "\<exists>n e peer'. Write demo (\<lambda>r. r) (\<lambda>_. demo_env) 0 (replicate 1201 7) (demo_conn False) = Some (n, e, peer')
     \<and> (case foldl (conn_event_step demo (\<lambda>r. r)) (demo_conn True, [])
          (map (\<lambda>(_, _, w). Datagram demo_env w) (rev (written peer')) @ [ReadCall 100 0 PickData]) of
        (s, got) \<Rightarrow> got @ pending s = take n (replicate 1201 7))"
proof -
  let ?b = "replicate 1201 (7 :: u8)"
  have w: "(Wait (\<lambda>r. r) (env_polls demo_env) p = None) = False" for p
    by (auto simp: Let_def split: prod.splits bool.splits)
  have "length (segments ?b) = 2" using segments_facts [of ?b] by simp
  then have "write_loop demo (\<lambda>r. r) (\<lambda>_. demo_env) 0 ?b 0 (demo_conn False) \<noteq> None"
    using w by (intro write_loop_returns) simp_all
  then obtain n e c' where wr: "Write demo (\<lambda>r. r) (\<lambda>_. demo_env) 0 ?b (demo_conn False) = Some (n, e, c')"
    by (auto simp: Write_def)
  let ?es = "map (\<lambda>(_, _, w). Datagram demo_env w) (rev (written c')) @ [ReadCall 100 0 PickData]"
  obtain s got where run: "foldl (conn_event_step demo (\<lambda>r. r)) (demo_conn True, []) ?es = (s, got)"
    by fastforce
  have codec: "arq_codec (arq (demo_conn True)) = arq_codec (arq (demo_conn False))"
    by (simp add: demo_conn_def newMTPConn_def NewARQEngine_def Let_def)
  have "prefix (got @ pending s) (take n ?b)
      \<and> ((\<forall>w\<in>set (map (snd \<circ> snd) (written c')). \<exists>env. Datagram env w \<in> set ?es) \<longrightarrow> got @ pending s = take n ?b)"
  proof (rule end_to_end [OF _ _ _ _ _ _ _ _ demo_conn_def _ _ wr _ _ _ run])
    show "conn_ready demo (arq_codec (arq (demo_conn True))) (demo_conn False)" unfolding codec by simp
  qed (force simp: image_iff)+
  moreover have "\<forall>w\<in>set (map (snd \<circ> snd) (written c')). \<exists>env. Datagram env w \<in> set ?es" by force
  ultimately show ?thesis using wr run by auto
qed



end
